(* ===== verification/SB_Prelude.thy ===== *)
theory SB_Prelude
  imports Main "HOL-Library.Word" "HOL-Library.Monad_Syntax"
begin

text \<open>
  The prelude of the development: the machine integer types of the C code, the theorem
  collections the component theories extend, and the generic lemmas on lists, options and
  words that more than one component uses.

  \<^item> \<open>u8\<close>, \<open>u32\<close>, \<open>u64\<close> are the unsigned types of the sources
    (\<open>unsigned char\<close>, \<open>uint32_t\<close> and \<open>unsigned int\<close>, \<open>uint64_t\<close> and
    \<open>size_t\<close> on the 64-bit targets);
  \<^item> \<open>sb_defs\<close> collects the definitions that a component proof unfolds;
  \<^item> \<open>sb_inv\<close> collects the facts that an operation keeps an invariant.
\<close>

type_synonym u8 = "8 word"
type_synonym u32 = "32 word"
type_synonym u64 = "64 word"

named_theorems sb_defs \<open>definitions unfolded by component proofs\<close>
named_theorems sb_inv \<open>preservation of component invariants\<close>

text \<open>Limits of the C types the sources mention.\<close>

definition INT_MAX :: int where
  "INT_MAX = 2147483647"

definition INT_MIN :: int where
  "INT_MIN = -2147483648"

definition LONG_MAX :: int where
  "LONG_MAX = 9223372036854775807"

definition LONG_MIN :: int where
  "LONG_MIN = -9223372036854775808"

text \<open>A loop whose body may fail, over the items of a list.\<close>

fun fold_opt :: "('a \<Rightarrow> 's \<Rightarrow> 's option) \<Rightarrow> 'a list \<Rightarrow> 's \<Rightarrow> 's option" where
  "fold_opt f [] s = Some s"
| "fold_opt f (x # xs) s = do { s \<leftarrow> f x s; fold_opt f xs s }"

text \<open>A computation that may end in an error, followed by the rest.\<close>

definition check :: "'e + 'a \<Rightarrow> ('a \<Rightarrow> 'e + 'b) \<Rightarrow> 'e + 'b" where
  "check r k = (case r of Inl e \<Rightarrow> Inl e | Inr a \<Rightarrow> k a)"

lemmas c_limits = INT_MAX_def INT_MIN_def LONG_MAX_def LONG_MIN_def

section \<open>Lists\<close>

lemma fold_opt_append [simp]:
  "fold_opt f (xs @ ys) s = do { s \<leftarrow> fold_opt f xs s; fold_opt f ys s }"
  by (induction xs arbitrary: s) (simp_all, metis bind.bind_lunit)

lemma fold_opt_total:
  assumes "P s" "\<And>x s. x \<in> set xs \<Longrightarrow> P s \<Longrightarrow> \<exists>s'. f x s = Some s' \<and> P s'"
  shows "\<exists>s'. fold_opt f xs s = Some s' \<and> P s'"
  using assms
proof (induction xs arbitrary: s)
  case (Cons x xs)
  then obtain s1 where "f x s = Some s1" "P s1" by (metis list.set_intros(1))
  with Cons show ?case by simp
qed simp

lemma list_update_append_same [simp]:
  "n = length xs \<Longrightarrow> (xs @ y # ys)[n := z] = xs @ z # ys"
  by (simp add: list_update_append)

lemma sum_list_update_word:
  fixes xs :: "'a::len word list"
  assumes "i < length xs"
  shows "sum_list (xs[i := v]) = sum_list xs - xs ! i + v"
  using assms
proof (induction xs arbitrary: i)
  case Nil
  then show ?case by simp
next
  case (Cons x xs)
  then show ?case by (cases i) (simp_all add: algebra_simps)
qed

lemma sum_list_update_nat:
  fixes xs :: "nat list"
  assumes "i < length xs"
  shows "sum_list (xs[i := v]) + xs ! i = sum_list xs + v"
  using assms
proof (induction xs arbitrary: i)
  case Nil
  then show ?case by simp
next
  case (Cons x xs)
  then show ?case by (cases i) simp_all
qed

section \<open>Words\<close>

lemma unat_less_two_power_u32: "unat (x :: u32) < 4294967296"
  using unsigned_less [of x, where ?'a = nat] by simp

lemma unat_less_two_power_u64: "unat (x :: u64) < 18446744073709551616"
  using unsigned_less [of x, where ?'a = nat] by simp

lemma takeWhile_neq_append [simp]: "x \<notin> set l \<Longrightarrow> takeWhile (\<lambda>c. c \<noteq> x) (l @ x # r) = l"
  by (induction l) auto

lemma dropWhile_neq_append [simp]: "x \<notin> set l \<Longrightarrow> dropWhile (\<lambda>c. c \<noteq> x) (l @ x # r) = x # r"
  by (induction l) auto

lemma fold_add_points:
  fixes dst :: "'a::monoid_add list"
  assumes "distinct ts" "set ts \<subseteq> {..<length dst}" "k < length dst"
  shows "fold (\<lambda>t dst. dst[t := dst ! t + g t]) ts dst ! k = dst ! k + (if k \<in> set ts then g k else 0)"
  using assms by (induction ts arbitrary: dst) (auto simp: nth_list_update)

lemma length_fold_update:
  "(\<And>t d. length (f t d) = length d) \<Longrightarrow> length (fold f ts dst) = length dst"
  by (induction ts arbitrary: dst) auto

unbundle bit_operations_syntax

lemma xor_cancel_right: "a XOR c = b XOR c \<longleftrightarrow> a = b" for a b c :: "'a::len word"
  by (auto simp: bit_eq_iff bit_xor_iff)

lemma xor_cancel_left: "c XOR a = c XOR b \<longleftrightarrow> a = b" for a b c :: "'a::len word"
  by (auto simp: bit_eq_iff bit_xor_iff)

lemma unat_ucast_u64: "unat (ucast x :: u64) = unat (x :: u32)"
  using unat_less_two_power_u32 [of x] by (simp add: unsigned_ucast_eq take_bit_nat_eq_self)

end
