(* ===== verification/SB_List.thy ===== *)
theory SB_List
  imports SB_Prelude
begin

text \<open>
  The intrusive circular doubly linked list of \<open>src/src/sb_list.h\<close>.  Every list of the
  program (options, option values, tests, log handlers, database drivers) is one of these.

  The heap is a partial map from addresses to list items; a macro that dereferences an
  address outside the heap has the value \<open>None\<close>.  \<open>dll h head xs\<close> says that the items
  \<open>xs\<close> hang on \<open>head\<close> in this order.  The locale \<open>item_list\<close> states what the users of
  the header rely on; the macros are interpreted in it at the end of the theory.
\<close>

type_synonym addr = nat

record sb_list_item_t =
  next_p :: addr
  prev_p :: addr

type_synonym heap = "addr \<rightharpoonup> sb_list_item_t"

section \<open>The macros\<close>

definition get_next :: "heap \<Rightarrow> addr \<Rightarrow> addr option" where
  "get_next h p = map_option next_p (h p)"

definition get_prev :: "heap \<Rightarrow> addr \<Rightarrow> addr option" where
  "get_prev h p = map_option prev_p (h p)"

definition set_next :: "addr \<Rightarrow> addr \<Rightarrow> heap \<Rightarrow> heap option" where
  "set_next p v h = map_option (\<lambda>i. h(p \<mapsto> i\<lparr>next_p := v\<rparr>)) (h p)"

definition set_prev :: "addr \<Rightarrow> addr \<Rightarrow> heap \<Rightarrow> heap option" where
  "set_prev p v h = map_option (\<lambda>i. h(p \<mapsto> i\<lparr>prev_p := v\<rparr>)) (h p)"

definition SB_LIST_INIT :: "addr \<Rightarrow> heap \<Rightarrow> heap option" where
  "SB_LIST_INIT head_p h = do {
     h \<leftarrow> set_next head_p head_p h;
     set_prev head_p head_p h
   }"

definition SB_LIST_ADD :: "addr \<Rightarrow> addr \<Rightarrow> heap \<Rightarrow> heap option" where
  "SB_LIST_ADD item_p head_p h = do {
     n \<leftarrow> get_next h head_p;
     h \<leftarrow> set_next item_p n h;
     h \<leftarrow> set_prev item_p head_p h;
     h \<leftarrow> set_next head_p item_p h;
     n \<leftarrow> get_next h item_p;
     set_prev n item_p h
   }"

definition SB_LIST_ADD_TAIL :: "addr \<Rightarrow> addr \<Rightarrow> heap \<Rightarrow> heap option" where
  "SB_LIST_ADD_TAIL item_p head_p h = do {
     p \<leftarrow> get_prev h head_p;
     h \<leftarrow> set_prev item_p p h;
     h \<leftarrow> set_next item_p head_p h;
     h \<leftarrow> set_prev head_p item_p h;
     p \<leftarrow> get_prev h item_p;
     set_next p item_p h
   }"

definition SB_LIST_DELETE :: "addr \<Rightarrow> heap \<Rightarrow> heap option" where
  "SB_LIST_DELETE old_item_p h = do {
     n \<leftarrow> get_next h old_item_p;
     p \<leftarrow> get_prev h old_item_p;
     h \<leftarrow> set_prev n p h;
     p \<leftarrow> get_prev h old_item_p;
     n \<leftarrow> get_next h old_item_p;
     set_next p n h
   }"

definition SB_LIST_REPLACE :: "addr \<Rightarrow> addr \<Rightarrow> heap \<Rightarrow> heap option" where
  "SB_LIST_REPLACE item_p old_item_p h = do {
     n \<leftarrow> get_next h old_item_p;
     h \<leftarrow> set_next item_p n h;
     p \<leftarrow> get_prev h old_item_p;
     h \<leftarrow> set_prev item_p p h;
     n \<leftarrow> get_next h item_p;
     h \<leftarrow> set_prev n item_p h;
     p \<leftarrow> get_prev h item_p;
     set_next p item_p h
   }"

definition SB_LIST_IS_EMPTY :: "addr \<Rightarrow> heap \<Rightarrow> bool option" where
  "SB_LIST_IS_EMPTY head_p h = do { n \<leftarrow> get_next h head_p; Some (n = head_p) }"

definition SB_LIST_ITEM_IN_LIST :: "addr \<Rightarrow> heap \<Rightarrow> bool option" where
  "SB_LIST_ITEM_IN_LIST item_p h = do { n \<leftarrow> get_next h item_p; Some (n \<noteq> item_p) }"

definition SB_LIST_ITEM_FIRST :: "addr \<Rightarrow> addr \<Rightarrow> heap \<Rightarrow> bool option" where
  "SB_LIST_ITEM_FIRST item_p head_p h = do { p \<leftarrow> get_prev h item_p; Some (p \<noteq> head_p) }"

definition SB_LIST_ITEM_LAST :: "addr \<Rightarrow> addr \<Rightarrow> heap \<Rightarrow> bool option" where
  "SB_LIST_ITEM_LAST item_p head_p h = do { n \<leftarrow> get_next h item_p; Some (n = head_p) }"

text \<open>
  \<open>SB_LIST_FOR_EACH\<close> from position \<open>pos_p\<close>: the addresses the loop body sees, in order.
  A ring that does not come back to \<open>head_p\<close> makes the loop run forever, which is \<open>None\<close>.
\<close>

partial_function (option) SB_LIST_FOR_EACH_from :: "heap \<Rightarrow> addr \<Rightarrow> addr \<Rightarrow> addr list option"
where
  "SB_LIST_FOR_EACH_from h head_p pos_p =
     (if pos_p = head_p then Some []
      else do {
        n \<leftarrow> get_next h pos_p;
        rest \<leftarrow> SB_LIST_FOR_EACH_from h head_p n;
        Some (pos_p # rest)
      })"

definition SB_LIST_FOR_EACH :: "heap \<Rightarrow> addr \<Rightarrow> addr list option" where
  "SB_LIST_FOR_EACH h head_p = do {
     n \<leftarrow> get_next h head_p;
     SB_LIST_FOR_EACH_from h head_p n
   }"

definition SB_LIST_ENUM_NEXT :: "addr \<Rightarrow> addr \<Rightarrow> heap \<Rightarrow> addr option option" where
  "SB_LIST_ENUM_NEXT pos_p head_p h = do {
     n \<leftarrow> get_next h pos_p;
     Some (if n \<noteq> head_p then Some n else None)
   }"

text \<open>
  \<open>SB_LIST_FOR_EACH_SAFE\<close> with a loop body that may change the heap.  \<open>temp_p\<close> is read
  before the body runs, so the body may unlink and free the current item.
\<close>

partial_function (option) SB_LIST_FOR_EACH_SAFE_from ::
  "(addr \<Rightarrow> heap \<Rightarrow> heap option) \<Rightarrow> addr \<Rightarrow> addr \<Rightarrow> addr \<Rightarrow> heap \<Rightarrow> heap option"
where
  "SB_LIST_FOR_EACH_SAFE_from body head_p pos_p temp_p h =
     (if pos_p = head_p then Some h
      else do {
        h \<leftarrow> body pos_p h;
        t \<leftarrow> get_next h temp_p;
        SB_LIST_FOR_EACH_SAFE_from body head_p temp_p t h
      })"

definition SB_LIST_FOR_EACH_SAFE :: "(addr \<Rightarrow> heap \<Rightarrow> heap option) \<Rightarrow> addr \<Rightarrow> heap \<Rightarrow> heap option"
where
  "SB_LIST_FOR_EACH_SAFE body head_p h = do {
     p \<leftarrow> get_next h head_p;
     t \<leftarrow> get_next h p;
     SB_LIST_FOR_EACH_SAFE_from body head_p p t h
   }"

text \<open>\<open>free\<close> of an item, and the body of \<open>free_values\<close>: unlink, then free.\<close>

definition free_item :: "addr \<Rightarrow> heap \<Rightarrow> heap option" where
  "free_item p h = (if p \<in> dom h then Some (h(p := None)) else None)"

definition unlink_and_free :: "addr \<Rightarrow> heap \<Rightarrow> heap option" where
  "unlink_and_free p h = do { h \<leftarrow> SB_LIST_DELETE p h; free_item p h }"

section \<open>Well-formed rings\<close>

fun links :: "heap \<Rightarrow> addr list \<Rightarrow> bool" where
  "links h (a # b # r) \<longleftrightarrow>
     get_next h a = Some b \<and> get_prev h b = Some a \<and> links h (b # r)"
| "links h _ \<longleftrightarrow> True"

definition dll :: "heap \<Rightarrow> addr \<Rightarrow> addr list \<Rightarrow> bool" where
  "dll h head_p xs \<longleftrightarrow> distinct (head_p # xs) \<and> links h (head_p # xs @ [head_p])"

section \<open>Pointer lemmas\<close>

lemma set_next_run:
  assumes "p \<in> dom h"
  shows "\<exists>h'. set_next p v h = Some h' \<and> dom h' = dom h \<and>
    get_next h' = (get_next h)(p \<mapsto> v) \<and> get_prev h' = get_prev h"
proof -
  obtain i where "h p = Some i"
    using assms by blast
  then show ?thesis
    by (auto simp: set_next_def get_next_def get_prev_def fun_eq_iff split: if_splits
      intro!: exI [of _ "h(p \<mapsto> i\<lparr>next_p := v\<rparr>)"])
qed

lemma set_prev_run:
  assumes "p \<in> dom h"
  shows "\<exists>h'. set_prev p v h = Some h' \<and> dom h' = dom h \<and>
    get_prev h' = (get_prev h)(p \<mapsto> v) \<and> get_next h' = get_next h"
proof -
  obtain i where "h p = Some i"
    using assms by blast
  then show ?thesis
    by (auto simp: set_prev_def get_next_def get_prev_def fun_eq_iff split: if_splits
      intro!: exI [of _ "h(p \<mapsto> i\<lparr>prev_p := v\<rparr>)"])
qed

lemma get_domD:
  "get_next h p = Some q \<Longrightarrow> p \<in> dom h"
  "get_prev h p = Some q \<Longrightarrow> p \<in> dom h"
  by (auto simp: get_next_def get_prev_def)

lemma links_append:
  "links h (xs @ a # ys) \<longleftrightarrow> links h (xs @ [a]) \<and> links h (a # ys)"
proof (induction xs)
  case Nil
  then show ?case by simp
next
  case (Cons x xs)
  then show ?case by (cases xs) auto
qed

lemma links_cong:
  assumes "\<And>q. q \<in> set (butlast zs) \<Longrightarrow> get_next h' q = get_next h q"
    and "\<And>q. q \<in> set (tl zs) \<Longrightarrow> get_prev h' q = get_prev h q"
    and "links h zs"
  shows "links h' zs"
  using assms by (induction h zs rule: links.induct) auto

lemma links_ends:
  assumes "links h (p # n # bs)"
  shows "get_next h p = Some n" and "get_prev h n = Some p"
  using assms by auto

text \<open>Splicing an item in between two neighbours, and out again.\<close>

lemma links_insert:
  assumes l1: "links h (as @ [p])" and l2: "links h (n # bs)"
    and nx: "\<And>q. q \<noteq> p \<Longrightarrow> q \<noteq> x \<Longrightarrow> get_next h' q = get_next h q"
    and pv: "\<And>q. q \<noteq> n \<Longrightarrow> q \<noteq> x \<Longrightarrow> get_prev h' q = get_prev h q"
    and new: "get_next h' p = Some x" "get_next h' x = Some n"
      "get_prev h' n = Some x" "get_prev h' x = Some p"
    and fresh: "x \<notin> set (as @ p # n # bs)"
    and once: "p \<notin> set as \<union> set (butlast (n # bs))" "n \<notin> set (tl (as @ [p])) \<union> set bs"
  shows "links h' (as @ p # x # n # bs)"
proof -
  have "links h' (as @ [p])"
    using fresh once by (intro links_cong [OF _ _ l1] nx pv)
      (auto dest: in_set_butlastD list.set_sel(2) [rotated])
  moreover have "links h' (n # bs)"
    using fresh once by (intro links_cong [OF _ _ l2] nx pv)
      (auto dest: in_set_butlastD split: if_splits)
  ultimately show ?thesis
    using new by (simp add: links_append [of h' as p "x # n # bs"])
qed

lemma links_remove:
  assumes l: "links h (as @ p # x # n # bs)"
    and nx: "\<And>q. q \<noteq> p \<Longrightarrow> get_next h' q = get_next h q"
    and pv: "\<And>q. q \<noteq> n \<Longrightarrow> get_prev h' q = get_prev h q"
    and new: "get_next h' p = Some n" "get_prev h' n = Some p"
    and once: "p \<notin> set as \<union> set (butlast (n # bs))" "n \<notin> set (tl (as @ [p])) \<union> set bs"
  shows "links h' (as @ p # n # bs)"
proof -
  have l1: "links h (as @ [p])" and l2: "links h (n # bs)"
    using l links_append [of h as p "x # n # bs"] links_append [of h "[p, x]" n bs] by auto
  have "links h' (as @ [p])"
    using once by (intro links_cong [OF _ _ l1] nx pv) (auto dest: in_set_butlastD)
  moreover have "links h' (n # bs)"
    using once by (intro links_cong [OF _ _ l2] nx pv) (auto dest: in_set_butlastD)
  ultimately show ?thesis
    using new by (simp add: links_append [of h' as p "n # bs"])
qed

lemma dll_dom:
  assumes "dll h head_p xs"
  shows "head_p \<in> dom h" and "set xs \<subseteq> dom h"
proof -
  have *: "links h zs \<Longrightarrow> set (butlast zs) \<subseteq> dom h" for zs
    by (induction h zs rule: links.induct) (auto dest: get_domD)
  have "set (butlast ((head_p # xs) @ [head_p])) \<subseteq> dom h"
    using assms by (intro *) (simp add: dll_def)
  then show "head_p \<in> dom h" and "set xs \<subseteq> dom h"
    by (simp_all only: butlast_snoc) auto
qed

text \<open>What each macro does to the pointers.\<close>

lemma SB_LIST_ADD_TAIL_ptrs:
  assumes "get_prev h head_p = Some p" "{item_p, head_p, p} \<subseteq> dom h"
    and "item_p \<noteq> p" "item_p \<noteq> head_p"
  shows "\<exists>h'. SB_LIST_ADD_TAIL item_p head_p h = Some h' \<and> dom h' = dom h \<and>
    get_next h' = (get_next h)(item_p \<mapsto> head_p, p \<mapsto> item_p) \<and>
    get_prev h' = (get_prev h)(item_p \<mapsto> p, head_p \<mapsto> item_p)"
proof -
  have d: "item_p \<in> dom h" "head_p \<in> dom h" "p \<in> dom h"
    using assms(2) by auto
  from d obtain h1 where h1: "set_prev item_p p h = Some h1" "dom h1 = dom h"
    "get_prev h1 = (get_prev h)(item_p \<mapsto> p)" "get_next h1 = get_next h"
    using set_prev_run [of item_p h p] by auto
  from d h1(2) obtain h2 where h2: "set_next item_p head_p h1 = Some h2" "dom h2 = dom h1"
    "get_next h2 = (get_next h1)(item_p \<mapsto> head_p)" "get_prev h2 = get_prev h1"
    using set_next_run [of item_p h1 head_p] by auto
  from d h1(2) h2(2) obtain h3 where h3: "set_prev head_p item_p h2 = Some h3" "dom h3 = dom h2"
    "get_prev h3 = (get_prev h2)(head_p \<mapsto> item_p)" "get_next h3 = get_next h2"
    using set_prev_run [of head_p h2 item_p] by auto
  from d h1(2) h2(2) h3(2) obtain h4 where h4: "set_next p item_p h3 = Some h4" "dom h4 = dom h3"
    "get_next h4 = (get_next h3)(p \<mapsto> item_p)" "get_prev h4 = get_prev h3"
    using set_next_run [of p h3 item_p] by auto
  show ?thesis
    using assms(1,3,4) h1 h2 h3 h4 by (simp add: SB_LIST_ADD_TAIL_def)
qed

lemma SB_LIST_ADD_ptrs:
  assumes "get_next h head_p = Some n" "{item_p, head_p, n} \<subseteq> dom h"
    and "item_p \<noteq> n" "item_p \<noteq> head_p"
  shows "\<exists>h'. SB_LIST_ADD item_p head_p h = Some h' \<and> dom h' = dom h \<and>
    get_next h' = (get_next h)(item_p \<mapsto> n, head_p \<mapsto> item_p) \<and>
    get_prev h' = (get_prev h)(item_p \<mapsto> head_p, n \<mapsto> item_p)"
proof -
  have d: "item_p \<in> dom h" "head_p \<in> dom h" "n \<in> dom h"
    using assms(2) by auto
  from d obtain h1 where h1: "set_next item_p n h = Some h1" "dom h1 = dom h"
    "get_next h1 = (get_next h)(item_p \<mapsto> n)" "get_prev h1 = get_prev h"
    using set_next_run [of item_p h n] by auto
  from d h1(2) obtain h2 where h2: "set_prev item_p head_p h1 = Some h2" "dom h2 = dom h1"
    "get_prev h2 = (get_prev h1)(item_p \<mapsto> head_p)" "get_next h2 = get_next h1"
    using set_prev_run [of item_p h1 head_p] by auto
  from d h1(2) h2(2) obtain h3 where h3: "set_next head_p item_p h2 = Some h3" "dom h3 = dom h2"
    "get_next h3 = (get_next h2)(head_p \<mapsto> item_p)" "get_prev h3 = get_prev h2"
    using set_next_run [of head_p h2 item_p] by auto
  from d h1(2) h2(2) h3(2) obtain h4 where h4: "set_prev n item_p h3 = Some h4" "dom h4 = dom h3"
    "get_prev h4 = (get_prev h3)(n \<mapsto> item_p)" "get_next h4 = get_next h3"
    using set_prev_run [of n h3 item_p] by auto
  show ?thesis
    using assms(1,3,4) h1 h2 h3 h4 by (simp add: SB_LIST_ADD_def)
qed

lemma SB_LIST_DELETE_ptrs:
  assumes "get_next h old_item_p = Some n" "get_prev h old_item_p = Some p" "{n, p} \<subseteq> dom h"
    and "old_item_p \<noteq> n" "old_item_p \<noteq> p"
  shows "\<exists>h'. SB_LIST_DELETE old_item_p h = Some h' \<and> dom h' = dom h \<and>
    get_next h' = (get_next h)(p \<mapsto> n) \<and> get_prev h' = (get_prev h)(n \<mapsto> p)"
proof -
  have d: "n \<in> dom h" "p \<in> dom h"
    using assms(3) by auto
  from d obtain h1 where h1: "set_prev n p h = Some h1" "dom h1 = dom h"
    "get_prev h1 = (get_prev h)(n \<mapsto> p)" "get_next h1 = get_next h"
    using set_prev_run [of n h p] by auto
  from d h1(2) obtain h2 where h2: "set_next p n h1 = Some h2" "dom h2 = dom h1"
    "get_next h2 = (get_next h1)(p \<mapsto> n)" "get_prev h2 = get_prev h1"
    using set_next_run [of p h1 n] by auto
  show ?thesis
    using assms(1,2,4,5) h1 h2 by (simp add: SB_LIST_DELETE_def)
qed

lemma SB_LIST_REPLACE_ptrs:
  assumes "get_next h old_item_p = Some n" "get_prev h old_item_p = Some p"
    and "{item_p, n, p} \<subseteq> dom h" "item_p \<noteq> n" "item_p \<noteq> p" "item_p \<noteq> old_item_p"
  shows "\<exists>h'. SB_LIST_REPLACE item_p old_item_p h = Some h' \<and> dom h' = dom h \<and>
    get_next h' = (get_next h)(item_p \<mapsto> n, p \<mapsto> item_p) \<and>
    get_prev h' = (get_prev h)(item_p \<mapsto> p, n \<mapsto> item_p)"
proof -
  have d: "item_p \<in> dom h" "n \<in> dom h" "p \<in> dom h"
    using assms(3) by auto
  from d obtain h1 where h1: "set_next item_p n h = Some h1" "dom h1 = dom h"
    "get_next h1 = (get_next h)(item_p \<mapsto> n)" "get_prev h1 = get_prev h"
    using set_next_run [of item_p h n] by auto
  from d h1(2) obtain h2 where h2: "set_prev item_p p h1 = Some h2" "dom h2 = dom h1"
    "get_prev h2 = (get_prev h1)(item_p \<mapsto> p)" "get_next h2 = get_next h1"
    using set_prev_run [of item_p h1 p] by auto
  from d h1(2) h2(2) obtain h3 where h3: "set_prev n item_p h2 = Some h3" "dom h3 = dom h2"
    "get_prev h3 = (get_prev h2)(n \<mapsto> item_p)" "get_next h3 = get_next h2"
    using set_prev_run [of n h2 item_p] by auto
  from d h1(2) h2(2) h3(2) obtain h4 where h4: "set_next p item_p h3 = Some h4" "dom h4 = dom h3"
    "get_next h4 = (get_next h3)(p \<mapsto> item_p)" "get_prev h4 = get_prev h3"
    using set_next_run [of p h3 item_p] by auto
  show ?thesis
    using assms(1,2,4-6) h1 h2 h3 h4 by (simp add: SB_LIST_REPLACE_def)
qed

lemma ring_neighbours:
  assumes "dll h head_p (ys @ x # zs)"
  obtains as p n bs where "\<And>y. head_p # (ys @ y # zs) @ [head_p] = as @ p # y # n # bs"
    and "head_p # (ys @ zs) @ [head_p] = as @ p # n # bs"
    and "get_prev h x = Some p" "get_next h x = Some n" "p \<in> dom h" "n \<in> dom h"
    and "x \<noteq> p" "x \<noteq> n" "p \<notin> set as \<union> set (butlast (n # bs))"
    and "n \<notin> set (tl (as @ [p])) \<union> set bs"
proof -
  define as where "as = butlast (head_p # ys)"
  define p where "p = last (head_p # ys)"
  define n where "n = hd (zs @ [head_p])"
  define bs where "bs = tl (zs @ [head_p])"
  have e1: "as @ [p] = head_p # ys" and e2: "n # bs = zs @ [head_p]"
    by (simp_all add: as_def p_def n_def bs_def)
  have ring: "head_p # (ys @ y # zs) @ [head_p] = as @ p # y # n # bs" for y
    using e1 e2 by (metis append_Cons append_assoc append_Nil)
  have ring': "head_p # (ys @ zs) @ [head_p] = as @ p # n # bs"
    using e1 e2 by (metis append_Cons append_assoc append_Nil)
  have l: "links h (as @ p # x # n # bs)"
    using assms by (simp only: dll_def ring)
  have "get_prev h x = Some p" "get_next h x = Some n"
    using l links_append [of h as p "x # n # bs"] by auto
  moreover have "p \<in> set (head_p # ys)" "n \<in> set (zs @ [head_p])"
    using e1 e2 by (metis in_set_conv_decomp, metis list.set_intros(1))
  moreover have "distinct (as @ [p])" "distinct (n # bs)"
    using assms by (auto simp: e1 e2 dll_def)
  moreover have "set (butlast (n # bs)) = set zs" "set (tl (as @ [p])) = set ys"
    by (simp_all add: e1 e2)
  moreover have "n = head_p \<or> n \<in> set zs" "p = head_p \<or> p \<in> set ys" 
    using calculation by auto
  ultimately show ?thesis
    using assms dll_dom [OF assms]
    by (intro that [OF ring ring']) (auto simp: dll_def)
qed

section \<open>What the macros do to a ring\<close>

lemma SB_LIST_INIT_dll:
  assumes "head_p \<in> dom h"
  shows "\<exists>h'. SB_LIST_INIT head_p h = Some h' \<and> dom h' = dom h \<and> dll h' head_p []"
proof -
  from assms obtain h1 where h1: "set_next head_p head_p h = Some h1" "dom h1 = dom h"
    "get_next h1 = (get_next h)(head_p \<mapsto> head_p)" "get_prev h1 = get_prev h"
    using set_next_run [of head_p h head_p] by auto
  from assms h1(2) obtain h2 where h2: "set_prev head_p head_p h1 = Some h2" "dom h2 = dom h1"
    "get_prev h2 = (get_prev h1)(head_p \<mapsto> head_p)" "get_next h2 = get_next h1"
    using set_prev_run [of head_p h1 head_p] by auto
  show ?thesis
    using h1 h2 by (simp add: SB_LIST_INIT_def dll_def)
qed

lemma dll_insert:
  assumes d: "dll h head_p (ys @ zs)" and x: "x \<notin> set (head_p # ys @ zs)"
    and p: "p = last (head_p # ys)" and n: "n = hd (zs @ [head_p])"
    and nx: "get_next h' = (get_next h)(x \<mapsto> n, p \<mapsto> x)"
    and pv: "get_prev h' = (get_prev h)(x \<mapsto> p, n \<mapsto> x)"
  shows "dll h' head_p (ys @ x # zs)"
proof -
  define as where "as = butlast (head_p # ys)"
  define bs where "bs = tl (zs @ [head_p])"
  have e1: "as @ [p] = head_p # ys" and e2: "n # bs = zs @ [head_p]"
    using p n by (simp_all add: as_def bs_def)
  have ring: "head_p # (ys @ zs) @ [head_p] = as @ p # n # bs"
    and ring': "head_p # (ys @ x # zs) @ [head_p] = as @ p # x # n # bs"
    using e1 e2 by (metis append_Cons append_assoc append_Nil)+
  have "links h (as @ p # n # bs)"
    using d ring by (simp add: dll_def)
  then have l1: "links h (as @ [p])" and l2: "links h (n # bs)"
    using links_append [of h as p "n # bs"] links_append [of h "[p]" n bs] by auto
  have sets: "set (as @ [p]) = set (head_p # ys)" "set (n # bs) = set (zs @ [head_p])"
    "set (butlast (n # bs)) = set zs" "set (tl (as @ [p])) = set ys"
    by (simp_all only: e1 e2) simp_all
  have dist: "distinct (as @ [p])" "distinct (n # bs)"
    using d by (auto simp: e1 e2 dll_def)
  have xs: "x \<noteq> p" "x \<noteq> n" "x \<notin> set as" "x \<notin> set bs"
    using x sets by auto
  have pn: "p = head_p \<or> p \<in> set ys" "n = head_p \<or> n \<in> set zs"
    using sets by auto
  have "links h' (as @ p # x # n # bs)"
  proof (rule links_insert [OF l1 l2])
    show "p \<notin> set as \<union> set (butlast (n # bs))" "n \<notin> set (tl (as @ [p])) \<union> set bs"
      using dist pn sets(3,4) d by (auto simp: dll_def)
  qed (use xs nx pv in \<open>auto\<close>)
  then show ?thesis
    using d x ring' by (auto simp: dll_def)
qed

lemma dll_last_prev:
  assumes "dll h head_p xs"
  shows "get_prev h head_p = Some (last (head_p # xs))"
proof -
  have "(head_p # xs) @ [head_p] = butlast (head_p # xs) @ last (head_p # xs) # [head_p]"
    using append_butlast_last_id [of "head_p # xs"] by (metis append_Cons append_Nil append_assoc list.discI)
  then have "links h (butlast (head_p # xs) @ last (head_p # xs) # [head_p])"
    using assms by (simp only: dll_def append_Cons)
  then show ?thesis
    by (simp only: links_append [of h "butlast (head_p # xs)" "last (head_p # xs)" "[head_p]"]
      links.simps)
qed

lemma dll_first_next:
  assumes "dll h head_p xs"
  shows "get_next h head_p = Some (hd (xs @ [head_p]))"
  using assms by (cases xs) (auto simp: dll_def)

lemma SB_LIST_ADD_TAIL_dll:
  assumes d: "dll h head_p xs" and item: "item_p \<in> dom h" "item_p \<notin> set (head_p # xs)"
  shows "\<exists>h'. SB_LIST_ADD_TAIL item_p head_p h = Some h' \<and> dom h' = dom h \<and>
    dll h' head_p (xs @ [item_p])"
proof -
  let ?p = "last (head_p # xs)"
  have "?p \<in> set (head_p # xs)"
    by (rule last_in_set) simp
  then have dom: "{item_p, head_p, ?p} \<subseteq> dom h" and ne: "item_p \<noteq> ?p" "item_p \<noteq> head_p"
    using dll_dom [OF d] item by (auto simp del: last.simps)
  from SB_LIST_ADD_TAIL_ptrs [OF dll_last_prev [OF d] dom ne]
  obtain h' where h': "SB_LIST_ADD_TAIL item_p head_p h = Some h'" "dom h' = dom h"
    "get_next h' = (get_next h)(item_p \<mapsto> head_p, ?p \<mapsto> item_p)"
    "get_prev h' = (get_prev h)(item_p \<mapsto> ?p, head_p \<mapsto> item_p)"
    by (elim exE conjE)
  have "dll h' head_p (xs @ item_p # [])"
    using d item h'(3,4) by (intro dll_insert [where h = h and p = ?p and n = head_p]) simp_all
  with h' show ?thesis by auto
qed

lemma SB_LIST_ADD_dll:
  assumes d: "dll h head_p xs" and item: "item_p \<in> dom h" "item_p \<notin> set (head_p # xs)"
  shows "\<exists>h'. SB_LIST_ADD item_p head_p h = Some h' \<and> dom h' = dom h \<and>
    dll h' head_p (item_p # xs)"
proof -
  let ?n = "hd (xs @ [head_p])"
  have "?n \<in> set (head_p # xs)"
    by (cases xs) auto
  then have dom: "{item_p, head_p, ?n} \<subseteq> dom h" and ne: "item_p \<noteq> ?n" "item_p \<noteq> head_p"
    using dll_dom [OF d] item by auto
  from SB_LIST_ADD_ptrs [OF dll_first_next [OF d] dom ne]
  obtain h' where h': "SB_LIST_ADD item_p head_p h = Some h'" "dom h' = dom h"
    "get_next h' = (get_next h)(item_p \<mapsto> ?n, head_p \<mapsto> item_p)"
    "get_prev h' = (get_prev h)(item_p \<mapsto> head_p, ?n \<mapsto> item_p)"
    by (elim exE conjE)
  have "dll h' head_p ([] @ item_p # xs)"
    using d item h'(3,4) by (intro dll_insert [where h = h and p = head_p and n = ?n]) simp_all
  with h' show ?thesis by auto
qed

lemma SB_LIST_DELETE_dll:
  assumes d: "dll h head_p (ys @ x # zs)"
  shows "\<exists>h'. SB_LIST_DELETE x h = Some h' \<and> dom h' = dom h \<and> dll h' head_p (ys @ zs)"
proof -
  obtain as p n bs where r: "\<And>y. head_p # (ys @ y # zs) @ [head_p] = as @ p # y # n # bs"
    and r': "head_p # (ys @ zs) @ [head_p] = as @ p # n # bs"
    and pn: "get_prev h x = Some p" "get_next h x = Some n" "p \<in> dom h" "n \<in> dom h"
      "x \<noteq> p" "x \<noteq> n"
    and once: "p \<notin> set as \<union> set (butlast (n # bs))" "n \<notin> set (tl (as @ [p])) \<union> set bs"
    by (rule ring_neighbours [OF d]) blast
  from SB_LIST_DELETE_ptrs [OF pn(2,1) _ pn(6,5)] pn(3,4)
  obtain h' where h': "SB_LIST_DELETE x h = Some h'" "dom h' = dom h"
    "get_next h' = (get_next h)(p \<mapsto> n)" "get_prev h' = (get_prev h)(n \<mapsto> p)"
    by auto
  have "links h (as @ p # x # n # bs)"
    using d by (simp only: dll_def r)
  then have "links h' (as @ p # n # bs)"
    by (rule links_remove [OF _ _ _ _ _ once]) (simp_all add: h'(3,4))
  moreover have "distinct (head_p # ys @ zs)"
    using d by (simp add: dll_def)
  ultimately have "dll h' head_p (ys @ zs)"
    by (simp only: dll_def r' simp_thms)
  then show ?thesis
    using h'(1,2) by blast
qed

lemma SB_LIST_FOR_EACH_from_links:
  assumes "links h (xs @ [head_p])" "head_p \<notin> set xs"
  shows "SB_LIST_FOR_EACH_from h head_p (hd (xs @ [head_p])) = Some xs"
  using assms
proof (induction xs)
  case Nil
  then show ?case by (simp add: SB_LIST_FOR_EACH_from.simps)
next
  case (Cons x xs)
  then have "links h (xs @ [head_p])" "get_next h x = Some (hd (xs @ [head_p]))"
    by (cases xs; simp)+
  with Cons show ?case by (simp add: SB_LIST_FOR_EACH_from.simps [of h head_p x])
qed

lemma SB_LIST_FOR_EACH_dll:
  assumes "dll h head_p xs"
  shows "SB_LIST_FOR_EACH h head_p = Some xs"
proof -
  have "links h (xs @ [head_p])"
    using assms by (cases xs) (auto simp: dll_def)
  then show ?thesis
    using assms SB_LIST_FOR_EACH_from_links [of h xs head_p]
    by (simp add: SB_LIST_FOR_EACH_def dll_first_next dll_def)
qed

lemma SB_LIST_IS_EMPTY_dll:
  assumes "dll h head_p xs"
  shows "SB_LIST_IS_EMPTY head_p h = Some (xs = [])"
  using assms dll_first_next [OF assms]
  by (cases xs) (auto simp: SB_LIST_IS_EMPTY_def dll_def)

lemma SB_LIST_REPLACE_dll:
  assumes d: "dll h head_p (ys @ x # zs)" and item: "item_p \<in> dom h"
    "item_p \<notin> set (head_p # ys @ x # zs)"
  shows "\<exists>h'. SB_LIST_REPLACE item_p x h = Some h' \<and> dom h' = dom h \<and>
    dll h' head_p (ys @ item_p # zs)"
proof -
  obtain as p n bs where r: "\<And>y. head_p # (ys @ y # zs) @ [head_p] = as @ p # y # n # bs"
    and r': "head_p # (ys @ zs) @ [head_p] = as @ p # n # bs"
    and pn: "get_prev h x = Some p" "get_next h x = Some n" "p \<in> dom h" "n \<in> dom h"
      "x \<noteq> p" "x \<noteq> n"
    and once: "p \<notin> set as \<union> set (butlast (n # bs))" "n \<notin> set (tl (as @ [p])) \<union> set bs"
    by (rule ring_neighbours [OF d]) blast
  have dom: "{item_p, n, p} \<subseteq> dom h" and neq: "item_p \<noteq> x"
    using item pn by auto
  have fresh: "item_p \<notin> set (as @ p # x # n # bs)"
    using item(2) by (simp only: r [symmetric]) auto
  then have ne: "item_p \<noteq> n" "item_p \<noteq> p"
    by auto
  from SB_LIST_REPLACE_ptrs [OF pn(2,1) dom ne neq]
  obtain h' where h': "SB_LIST_REPLACE item_p x h = Some h'" "dom h' = dom h"
    "get_next h' = (get_next h)(item_p \<mapsto> n, p \<mapsto> item_p)"
    "get_prev h' = (get_prev h)(item_p \<mapsto> p, n \<mapsto> item_p)"
    by (elim exE conjE)
  have "links h (as @ p # x # n # bs)"
    using d by (simp only: dll_def r)
  then have l1: "links h (as @ [p])" and l2: "links h (n # bs)"
    using links_append [of h as p "x # n # bs"] links_append [of h "[p, x]" n bs] by auto
  have "links h' (as @ p # item_p # n # bs)"
    using fresh by (intro links_insert [OF l1 l2 _ _ _ _ _ _ _ once]) (simp_all add: h'(3,4))
  moreover have "distinct (head_p # ys @ item_p # zs)"
    using d item(2) by (auto simp: dll_def)
  ultimately have "dll h' head_p (ys @ item_p # zs)"
    by (simp only: dll_def r simp_thms)
  then show ?thesis
    using h'(1,2) by blast
qed

lemma get_next_free: "get_next (h(p := None)) q = (if q = p then None else get_next h q)"
  and get_prev_free: "get_prev (h(p := None)) q = (if q = p then None else get_prev h q)"
  by (simp_all add: get_next_def get_prev_def)

lemma dll_free:
  assumes "dll h head_p xs" "p \<notin> set (head_p # xs)"
  shows "dll (h(p := None)) head_p xs"
proof -
  have l: "links h ((head_p # xs) @ [head_p])"
    using assms(1) by (simp add: dll_def)
  have "links (h(p := None)) ((head_p # xs) @ [head_p])"
    using assms(2) by (intro links_cong [OF _ _ l]) (auto simp: get_next_free get_prev_free
      simp del: append_Cons split: if_splits)
  then show ?thesis
    using assms by (simp add: dll_def)
qed

lemma unlink_and_free_dll:
  assumes "dll h head_p (ys @ x # zs)"
  shows "\<exists>h'. unlink_and_free x h = Some h' \<and> dom h' = dom h - {x} \<and> dll h' head_p (ys @ zs)"
proof -
  from SB_LIST_DELETE_dll [OF assms] obtain h1 where
    h1: "SB_LIST_DELETE x h = Some h1" "dom h1 = dom h" "dll h1 head_p (ys @ zs)"
    by blast
  have "x \<in> dom h1" "x \<notin> set (head_p # ys @ zs)"
    using assms dll_dom [OF assms] h1(2) by (auto simp: dll_def)
  then show ?thesis
    using h1 dll_free [OF h1(3), of x] by (auto simp: unlink_and_free_def free_item_def)
qed

lemma FOR_EACH_SAFE_from_unlink:
  assumes "dll h head_p xs" "get_next h (hd (xs @ [head_p])) = Some t"
  shows "\<exists>h'. SB_LIST_FOR_EACH_SAFE_from unlink_and_free head_p (hd (xs @ [head_p])) t h = Some h'
    \<and> dom h' = dom h - set xs \<and> dll h' head_p []"
  using assms
proof (induction xs arbitrary: h t)
  case Nil
  then show ?case by (simp add: SB_LIST_FOR_EACH_SAFE_from.simps)
next
  case (Cons x xs)
  let ?t = "hd (xs @ [head_p])"
  have t: "t = ?t" and x: "x \<noteq> head_p"
    using Cons.prems by (cases xs; auto simp: dll_def)+
  from unlink_and_free_dll [of h head_p "[]" x xs] Cons.prems(1) obtain h1 where
    h1: "unlink_and_free x h = Some h1" "dom h1 = dom h - {x}" "dll h1 head_p xs"
    by auto
  have "?t \<in> dom h1"
    using dll_dom [OF h1(3)] by (cases xs) auto
  then obtain t' where t': "get_next h1 ?t = Some t'"
    by (auto simp: get_next_def)
  from Cons.IH [OF h1(3) t'] show ?case
    using h1 t' x by (auto simp: SB_LIST_FOR_EACH_SAFE_from.simps [of _ _ x] t)
qed

text \<open>The loop that unlinks and frees every item ends, touches no freed item and empties the ring.\<close>

lemma SB_LIST_FOR_EACH_SAFE_unlink:
  assumes "dll h head_p xs"
  shows "\<exists>h'. SB_LIST_FOR_EACH_SAFE unlink_and_free head_p h = Some h' \<and>
    dom h' = dom h - set xs \<and> dll h' head_p []"
proof -
  have "hd (xs @ [head_p]) \<in> dom h"
    using dll_dom [OF assms] by (cases xs) auto
  then obtain t where "get_next h (hd (xs @ [head_p])) = Some t"
    by (auto simp: get_next_def)
  with FOR_EACH_SAFE_from_unlink [OF assms this] show ?thesis
    by (simp add: SB_LIST_FOR_EACH_SAFE_def dll_first_next [OF assms])
qed

lemma FOR_EACH_SAFE_from_free:
  assumes "links h (xs @ [head_p])" "distinct xs" "head_p \<notin> set xs" "head_p \<in> dom h"
    and "get_next h (hd (xs @ [head_p])) = Some t"
  shows "\<exists>h'. SB_LIST_FOR_EACH_SAFE_from free_item head_p (hd (xs @ [head_p])) t h = Some h'
    \<and> dom h' = dom h - set xs \<and> h' head_p = h head_p"
  using assms
proof (induction xs arbitrary: h t)
  case Nil
  then show ?case by (simp add: SB_LIST_FOR_EACH_SAFE_from.simps)
next
  case (Cons x xs)
  let ?t = "hd (xs @ [head_p])" and ?h = "h(x := None)"
  have t: "t = ?t" and x: "x \<noteq> head_p" "x \<in> dom h" "x \<notin> set xs"
    and l: "links h (xs @ [head_p])"
    using Cons.prems get_domD by (cases xs; auto)+
  have l': "links ?h (xs @ [head_p])"
    using l x(1,3) by (intro links_cong [OF _ _ l])
      (auto simp: get_next_free get_prev_free dest: in_set_butlastD list.set_sel(2) [rotated])
  have "?t \<in> dom ?h"
  proof (cases xs)
    case Nil
    then show ?thesis using Cons.prems x by simp
  next
    case (Cons y ys)
    then have "get_next ?h y = Some (hd (ys @ [head_p]))"
      using l' by (cases ys) auto
    then show ?thesis using Cons get_domD(1) by fastforce
  qed
  then obtain t' where t': "get_next ?h ?t = Some t'"
    by (cases "?h ?t") (auto simp: get_next_def)
  have "\<exists>h'. SB_LIST_FOR_EACH_SAFE_from free_item head_p ?t t' ?h = Some h'
    \<and> dom h' = dom ?h - set xs \<and> h' head_p = ?h head_p"
    using Cons.prems(2-4) x by (intro Cons.IH [OF l' _ _ _ t']) auto
  moreover have "free_item x h = Some ?h"
    using x by (simp add: free_item_def)
  ultimately show ?case
    using t' x by (auto simp: SB_LIST_FOR_EACH_SAFE_from.simps [of _ _ x] t)
qed

lemma SB_LIST_FOR_EACH_SAFE_free:
  assumes "dll h head_p xs"
  shows "\<exists>h'. SB_LIST_FOR_EACH_SAFE free_item head_p h = Some h' \<and>
    dom h' = dom h - set xs \<and> h' head_p = h head_p"
proof -
  have "hd (xs @ [head_p]) \<in> dom h"
    using dll_dom [OF assms] by (cases xs) auto
  then obtain t where t: "get_next h (hd (xs @ [head_p])) = Some t"
    by (auto simp: get_next_def)
  have "links h (xs @ [head_p])"
    using assms by (cases xs) (auto simp: dll_def)
  with FOR_EACH_SAFE_from_free [OF this _ _ _ t] assms dll_dom [OF assms] show ?thesis
    by (simp add: SB_LIST_FOR_EACH_SAFE_def dll_first_next [OF assms] t dll_def)
qed

section \<open>The interface the users of the list rely on\<close>

locale item_list =
  fixes rep :: "'h \<Rightarrow> 'a list \<Rightarrow> bool"
    and avail :: "'h \<Rightarrow> 'a set"
    and add_tail :: "'a \<Rightarrow> 'h \<Rightarrow> 'h option"
    and del :: "'a \<Rightarrow> 'h \<Rightarrow> 'h option"
    and each :: "'h \<Rightarrow> 'a list option"
  assumes rep_distinct: "rep h xs \<Longrightarrow> distinct xs"
    and add_tail_law: "rep h xs \<Longrightarrow> x \<in> avail h \<Longrightarrow> x \<notin> set xs \<Longrightarrow>
      \<exists>h'. add_tail x h = Some h' \<and> avail h' = avail h \<and> rep h' (xs @ [x])"
    and del_law: "rep h (ys @ x # zs) \<Longrightarrow>
      \<exists>h'. del x h = Some h' \<and> avail h' = avail h \<and> rep h' (ys @ zs)"
    and each_law: "rep h xs \<Longrightarrow> each h = Some xs"
begin

text \<open>Items registered one after another are visited in the order of registration.\<close>

lemma add_all:
  assumes "rep h xs" "distinct (xs @ ys)" "set ys \<subseteq> avail h"
  shows "\<exists>h'. fold_opt add_tail ys h = Some h' \<and> avail h' = avail h \<and> rep h' (xs @ ys)"
  using assms
proof (induction ys arbitrary: h xs)
  case Nil
  then show ?case by simp
next
  case (Cons y ys)
  then obtain h1 where h1: "add_tail y h = Some h1" "avail h1 = avail h" "rep h1 (xs @ [y])"
    using add_tail_law [of h xs y] by auto
  with Cons.prems Cons.IH [of h1 "xs @ [y]"] show ?case
    by auto
qed

lemma visit_added:
  assumes "rep h []" "distinct ys" "set ys \<subseteq> avail h"
  shows "\<exists>h'. fold_opt add_tail ys h = Some h' \<and> each h' = Some ys"
  using add_all [of h "[]" ys] assms each_law by fastforce

lemma add_then_delete:
  assumes "rep h xs" "x \<in> avail h" "x \<notin> set xs"
  shows "\<exists>h'. do { h \<leftarrow> add_tail x h; del x h } = Some h' \<and> rep h' xs"
  using add_tail_law [OF assms] del_law [of _ xs x "[]"] by fastforce

end

interpretation ring: item_list "\<lambda>h xs. dll h head_p xs" "\<lambda>h. dom h - {head_p}"
  "\<lambda>x. SB_LIST_ADD_TAIL x head_p" SB_LIST_DELETE "\<lambda>h. SB_LIST_FOR_EACH h head_p"
  for head_p :: addr
proof (unfold_locales, goal_cases)
  case (1 h xs)
  then show ?case by (simp add: dll_def)
next
  case (2 h xs x)
  then show ?case using SB_LIST_ADD_TAIL_dll [of h head_p xs x] by auto
next
  case (3 h ys x zs)
  then show ?case using SB_LIST_DELETE_dll [of h head_p ys x zs] by auto
next
  case (4 h xs)
  then show ?case by (rule SB_LIST_FOR_EACH_dll)
qed

end
