(* ===== verification/C_Strings.thy ===== *)
theory C_Strings
  imports SB_Prelude
begin

text \<open>
  The parts of the C string library that the sources use, on \<open>string\<close> (a list of \<open>char\<close>
  without the terminating zero): character classes in the C locale, \<open>strtol\<close> in base 10 with
  its end pointer, \<open>strtok\<close> on commas, \<open>strcasecmp\<close> and one call of \<open>fgets\<close>.
\<close>

section \<open>Characters\<close>

abbreviation nul :: char where
  "nul \<equiv> CHR 0x00"

abbreviation newline :: char where
  "newline \<equiv> CHR 0x0A"

text \<open>The value of a (signed) \<open>char\<close> in an integer expression.\<close>

definition schar :: "char \<Rightarrow> int" where
  "schar c = (let n = of_char c in if n < 128 then n else n - 256)"

definition isspace :: "char \<Rightarrow> bool" where
  "isspace c \<longleftrightarrow> c \<in> {CHR '' '', CHR 0x09, CHR 0x0A, CHR 0x0B, CHR 0x0C, CHR 0x0D}"

definition isdigit :: "char \<Rightarrow> bool" where
  "isdigit c \<longleftrightarrow> 48 \<le> (of_char c :: nat) \<and> (of_char c :: nat) \<le> 57"

definition digit_value :: "char \<Rightarrow> nat" where
  "digit_value c = of_char c - 48"

definition toupper :: "char \<Rightarrow> char" where
  "toupper c = (if 97 \<le> (of_char c :: nat) \<and> (of_char c :: nat) \<le> 122
     then char_of ((of_char c :: nat) - 32) else c)"

definition c_string :: "string \<Rightarrow> bool" where
  "c_string s \<longleftrightarrow> nul \<notin> set s"

section \<open>Library functions\<close>

definition dec_value :: "string \<Rightarrow> nat" where
  "dec_value = foldl (\<lambda>a c. 10 * a + digit_value c) 0"

text \<open>\<open>strtol (s, &endptr, 10)\<close>: the value, clamped to the range of \<open>long\<close>, and \<open>endptr\<close>.\<close>

definition strtol :: "string \<Rightarrow> int \<times> string" where
  "strtol s =
     (let t = dropWhile isspace s;
          neg = (t \<noteq> [] \<and> hd t = CHR ''-'');
          u = (if t \<noteq> [] \<and> (hd t = CHR ''-'' \<or> hd t = CHR ''+'') then tl t else t);
          ds = takeWhile isdigit u
      in if ds = [] then (0, s)
         else (max LONG_MIN (min LONG_MAX ((if neg then -1 else 1) * int (dec_value ds))),
               dropWhile isdigit u))"

text \<open>The successive tokens that \<open>strtok (s, ",")\<close> returns.\<close>

function strtok_commas :: "string \<Rightarrow> string list" where
  "strtok_commas s =
     (let t = dropWhile (\<lambda>c. c = CHR '','') s
      in if t = [] then []
         else takeWhile (\<lambda>c. c \<noteq> CHR '','') t # strtok_commas (dropWhile (\<lambda>c. c \<noteq> CHR '','') t))"
  by pat_completeness auto
termination
proof (relation "measure length")
  fix s t :: string
  assume t: "t = dropWhile (\<lambda>c. c = CHR '','') s" "t \<noteq> []"
  then have "hd t \<noteq> CHR '',''"
    using hd_dropWhile [of "\<lambda>c. c = CHR '',''" s] by auto
  with t(2) have "length (dropWhile (\<lambda>c. c \<noteq> CHR '','') t) < length t"
    by (cases t) (auto simp: less_Suc_eq_le length_dropWhile_le)
  also have "length t \<le> length s"
    by (simp add: t(1) length_dropWhile_le)
  finally show "(dropWhile (\<lambda>c. c \<noteq> CHR '','') t, s) \<in> measure length"
    by simp
qed simp

declare strtok_commas.simps [simp del]

definition strcasecmp_eq :: "string \<Rightarrow> string \<Rightarrow> bool" where
  "strcasecmp_eq s t \<longleftrightarrow> map toupper s = map toupper t"

text \<open>
  One \<open>fgets (buf, n + 1, fp)\<close> on the rest of a file: at most \<open>n\<close> bytes, up to and including
  the first newline; the second component is what is left to read.
\<close>

definition fgets :: "nat \<Rightarrow> string \<Rightarrow> string \<times> string" where
  "fgets n s =
     (let line = takeWhile (\<lambda>c. c \<noteq> newline) (take n s)
      in if length line < length (take n s)
         then (line @ [newline], drop (length line + 1) s) else (take n s, drop n s))"

text \<open>The decimal digits that \<open>printf\<close> writes for a number with \<open>%u\<close>.\<close>

fun print_dec :: "nat \<Rightarrow> string" where
  "print_dec n = (if n < 10 then [char_of (48 + n)]
     else print_dec (n div 10) @ [char_of (48 + n mod 10)])"

declare print_dec.simps [simp del]

definition print_int :: "int \<Rightarrow> string" where
  "print_int i = (if i < 0 then CHR ''-'' # print_dec (nat (- i)) else print_dec (nat i))"

section \<open>Lemmas\<close>

lemma fgets_progress:
  assumes "s \<noteq> []" "0 < n" "fgets n s = (l, r)"
  shows "length r < length s" and "s = l @ r" and "length l \<le> n"
proof -
  let ?line = "takeWhile (\<lambda>c. c \<noteq> newline) (take n s)"
  have pre: "?line = take (length ?line) (take n s)"
    by (metis takeWhile_eq_take)
  have "s = l @ r \<and> length l \<le> n \<and> length r < length s"
  proof (cases "length ?line < length (take n s)")
    case True
    have "take n s ! length ?line = newline"
      using nth_length_takeWhile [OF True] by simp
    then have "take (Suc (length ?line)) (take n s) = ?line @ [newline]"
      using pre True by (metis take_Suc_conv_app_nth)
    moreover have "Suc (length ?line) \<le> n" "Suc (length ?line) \<le> length s"
      using True by auto
    ultimately have "take (Suc (length ?line)) s = ?line @ [newline]"
      by (simp add: min_absorb1 take_take)
    then have "s = (?line @ [newline]) @ drop (Suc (length ?line)) s"
      by (metis append_take_drop_id)
    then show ?thesis
      using assms True by (auto simp: fgets_def Let_def)
  next
    case False
    then show ?thesis
      using assms by (auto simp: fgets_def Let_def)
  qed
  then show "length r < length s" and "s = l @ r" and "length l \<le> n"
    by auto
qed

lemma dec_value_snoc [simp]: "dec_value (s @ [c]) = 10 * dec_value s + digit_value c"
  by (simp add: dec_value_def)

lemma digit_char [simp]:
  assumes "d < 10"
  shows "isdigit (char_of (48 + d))" and "digit_value (char_of (48 + d)) = d"
  using assms by (simp_all add: isdigit_def digit_value_def of_char_of)

lemma print_dec_value [simp]: "dec_value (print_dec n) = n"
proof (induction n rule: print_dec.induct)
  case (1 n)
  show ?case
  proof (cases "n < 10")
    case True
    then show ?thesis by (subst print_dec.simps) (simp add: dec_value_def)
  next
    case False
    then show ?thesis using 1 by (subst print_dec.simps) simp
  qed
qed

lemma print_dec_digits: "\<forall>c \<in> set (print_dec n). isdigit c"
proof (induction n rule: print_dec.induct)
  case (1 n)
  then show ?case by (subst print_dec.simps) auto
qed

lemma print_dec_nonempty [simp]: "print_dec n \<noteq> []"
  by (subst print_dec.simps) simp

lemma takeWhile_isdigit_print [simp]:
  "takeWhile isdigit (print_dec n @ s) = print_dec n @ takeWhile isdigit s"
  "dropWhile isdigit (print_dec n @ s) = dropWhile isdigit s"
  using print_dec_digits by (simp_all add: takeWhile_append2 dropWhile_append2)

lemma isdigit_not_special:
  "isdigit c \<Longrightarrow> \<not> isspace c \<and> c \<noteq> CHR ''-'' \<and> c \<noteq> CHR ''+'' \<and> c \<noteq> CHR '','' \<and> c \<noteq> nul"
  by (auto simp: isdigit_def isspace_def)

lemma strtol_print_dec:
  assumes "int n \<le> LONG_MAX" "s = [] \<or> \<not> isdigit (hd s)"
  shows "strtol (print_dec n @ s) = (int n, s)"
proof -
  obtain c r where c: "print_dec n = c # r"
    using print_dec_nonempty by (metis list.exhaust)
  then have d: "isdigit c"
    using print_dec_digits [of n] by simp
  have s: "takeWhile isdigit s = []" "dropWhile isdigit s = s"
    using assms(2) by (cases s; simp)+
  have "dropWhile isspace (print_dec n @ s) = print_dec n @ s"
    using d isdigit_not_special by (simp add: c)
  moreover have "hd (print_dec n @ s) = c"
    by (simp add: c)
  ultimately show ?thesis
    using assms(1) d isdigit_not_special s
    by (simp add: strtol_def Let_def c_limits min_def max_def)
qed

lemma strtol_print_dec_neg:
  assumes "int n \<le> - LONG_MIN" "s = [] \<or> \<not> isdigit (hd s)"
  shows "strtol (CHR ''-'' # print_dec n @ s) = (- int n, s)"
proof -
  have s: "takeWhile isdigit s = []" "dropWhile isdigit s = s"
    using assms(2) by (cases s; simp)+
  have "\<not> isspace (CHR ''-'')"
    by (simp add: isspace_def)
  then show ?thesis
    using assms(1) s by (simp add: strtol_def Let_def c_limits min_def max_def)
qed

lemma print_dec_hd:
  obtains c r where "print_dec n = c # r" "isdigit c"
  using print_dec_digits [of n] by (cases "print_dec n") auto

lemma strtol_print_int: "strtol (print_int i) = (max LONG_MIN (min LONG_MAX i), [])"
proof -
  obtain c r where c: "print_dec (nat i) = c # r" "isdigit c"
    by (rule print_dec_hd)
  have all: "takeWhile isdigit (print_dec m) = print_dec m" "dropWhile isdigit (print_dec m) = []" for m
    using print_dec_digits [of m] by simp_all
  show ?thesis
  proof (cases "i < 0")
    case True
    then show ?thesis
      by (simp add: strtol_def print_int_def Let_def all isspace_def)
  next
    case False
    have "dropWhile isspace (print_dec (nat i)) = print_dec (nat i)"
      "hd (print_dec (nat i)) \<noteq> CHR ''-''" "hd (print_dec (nat i)) \<noteq> CHR ''+''"
      using c isdigit_not_special [of c] by simp_all
    with False show ?thesis
      by (simp add: strtol_def print_int_def Let_def all)
  qed
qed

lemma print_int_nonempty [simp]: "print_int i \<noteq> []"
  by (simp add: print_int_def)

lemma fgets_line:
  assumes "newline \<notin> set l" "length l < n"
  shows "fgets n (l @ newline # rest) = (l @ [newline], rest)"
proof -
  obtain m where m: "n = length l + Suc m"
    using assms(2) less_imp_Suc_add by fastforce
  have "takeWhile (\<lambda>c. c \<noteq> newline) (take n (l @ newline # rest)) = l"
    using assms(1) m by simp
  then show ?thesis
    using m by (simp add: fgets_def Let_def)
qed

end
