(* ===== verification/SB_Options.thy ===== *)
theory SB_Options
  imports Complex_Main SB_List C_Strings
begin

text \<open>
  The options library, \<open>src/src/sb_options.c\<close>.

  The global list \<open>options\<close> is a HOL list of \<open>option_t\<close> in ring order (\<open>SB_List\<close> shows that
  the ring of \<open>sb_list.h\<close> behaves like one); a pointer to an option is its position in that
  list, which stays valid because options are only appended while the program runs.  Files are
  given by \<open>file_system\<close>, from names to contents.  \<open>malloc\<close> and \<open>strdup\<close> are taken to succeed.
  The refinement at the end maps the list to a finite map keyed by the option name with dashes
  converted, which is what \<open>find_option\<close> and \<open>set_option\<close> implement.
\<close>

section \<open>Data\<close>

datatype sb_arg_type_t =
    SB_ARG_TYPE_NULL
  | SB_ARG_TYPE_BOOL
  | SB_ARG_TYPE_INT
  | SB_ARG_TYPE_SIZE
  | SB_ARG_TYPE_DOUBLE
  | SB_ARG_TYPE_STRING
  | SB_ARG_TYPE_LIST
  | SB_ARG_TYPE_FILE
  | SB_ARG_TYPE_MAX

text \<open>\<open>NULL\<close> is \<open>None\<close>; a validation function sees the name and the (optional) value.\<close>

type_synonym sb_opt_validate_t = "string \<Rightarrow> string option \<Rightarrow> bool"

record sb_arg_t =
  arg_name :: "string option"
  arg_desc :: string
  arg_value :: "string option"
  arg_type :: sb_arg_type_t
  arg_validate :: "sb_opt_validate_t option"

text \<open>The initialiser \<open>SB_OPT\<close> of the option tables.\<close>

definition sb_opt :: "string \<Rightarrow> string \<Rightarrow> string option \<Rightarrow> sb_arg_type_t \<Rightarrow> sb_arg_t" where
  "sb_opt n d v t = \<lparr>arg_name = Some n, arg_desc = d, arg_value = v, arg_type = t, arg_validate = None\<rparr>"

record value_t =
  val_data :: string
  val_ignore :: bool

record option_t =
  opt_name :: string
  opt_type :: sb_arg_type_t
  opt_values :: "value_t list"
  opt_ignore :: bool
  opt_validate :: "sb_opt_validate_t option"

type_synonym options = "option_t list"
type_synonym file_system = "string \<rightharpoonup> string"

text \<open>\<open>exit (EXIT_FAILURE)\<close> inside a getter.\<close>

datatype exit_failure = Invalid_value string string

abbreviation VALUE_DELIMITER :: char where
  "VALUE_DELIMITER \<equiv> CHR ''=''"

abbreviation VALUE_SEPARATOR :: char where
  "VALUE_SEPARATOR \<equiv> CHR '',''"

abbreviation COMMENT_CHAR :: char where
  "COMMENT_CHAR \<equiv> CHR ''#''"

definition MAXSTRLEN :: nat where
  "MAXSTRLEN = 256"

definition sizemods :: string where
  "sizemods = ''KMGT''"

section \<open>Names, values and the option list\<close>

definition convert_dashes :: "string \<Rightarrow> string" where
  "convert_dashes s = map (\<lambda>c. if c = CHR ''-'' then CHR ''_'' else c) s"

definition dash_or_underscore :: "char \<Rightarrow> bool" where
  "dash_or_underscore c \<longleftrightarrow> c = CHR ''-'' \<or> c = CHR ''_''"

fun opt_name_cmp :: "string \<Rightarrow> string \<Rightarrow> int" where
  "opt_name_cmp [] [] = 0"
| "opt_name_cmp [] (b # s2) = 0 - schar b"
| "opt_name_cmp (a # s1) [] = schar a - 0"
| "opt_name_cmp (a # s1) (b # s2) =
     (if a = b \<or> (dash_or_underscore a \<and> dash_or_underscore b) then opt_name_cmp s1 s2
      else schar a - schar b)"

definition new_value :: value_t where
  "new_value = \<lparr>val_data = [], val_ignore = False\<rparr>"

definition new_option :: option_t where
  "new_option = \<lparr>opt_name = [], opt_type = SB_ARG_TYPE_NULL, opt_values = [],
     opt_ignore = False, opt_validate = None\<rparr>"

definition add_value :: "value_t list \<Rightarrow> string \<Rightarrow> value_t list" where
  "add_value values d = values @ [new_value\<lparr>val_data := d\<rparr>]"

definition free_values :: "value_t list \<Rightarrow> value_t list" where
  "free_values values = []"

fun find_value_from :: "nat \<Rightarrow> value_t list \<Rightarrow> string \<Rightarrow> nat option" where
  "find_value_from i [] d = None"
| "find_value_from i (v # vs) d = (if val_data v = d then Some i else find_value_from (Suc i) vs d)"

definition find_value :: "value_t list \<Rightarrow> string \<Rightarrow> nat option" where
  "find_value values d = find_value_from 0 values d"

definition remove_value :: "value_t list \<Rightarrow> string \<Rightarrow> value_t list \<times> nat" where
  "remove_value values valname =
     (case find_value values valname of
        None \<Rightarrow> (values, 1)
      | Some i \<Rightarrow> (take i values @ drop (Suc i) values, 0))"

fun find_option_from :: "nat \<Rightarrow> options \<Rightarrow> string \<Rightarrow> nat option" where
  "find_option_from i [] name = None"
| "find_option_from i (opt # os) name =
     (if opt_name_cmp (opt_name opt) name = 0 then Some i else find_option_from (Suc i) os name)"

definition find_option :: "options \<Rightarrow> string \<Rightarrow> nat option" where
  "find_option opts name = find_option_from 0 opts name"

definition sb_find_option :: "options \<Rightarrow> string \<Rightarrow> option_t option" where
  "sb_find_option opts name = map_option (nth opts) (find_option opts name)"

definition add_option :: "options \<Rightarrow> string \<Rightarrow> options \<times> nat" where
  "add_option opts name =
     (case find_option opts name of
        Some i \<Rightarrow> (opts, i)
      | None \<Rightarrow> (opts @ [new_option\<lparr>opt_name := convert_dashes name\<rparr>], length opts))"

definition remove_option :: "options \<Rightarrow> string \<Rightarrow> options \<times> nat" where
  "remove_option opts optname =
     (case find_option opts optname of
        None \<Rightarrow> (opts, 1)
      | Some i \<Rightarrow> (take i opts @ drop (Suc i) opts, 0))"

section \<open>Configuration files\<close>

text \<open>
  The loop over the characters right of the delimiter: the values added, and whether the line
  was read to its end (\<open>False\<close> is the \<open>unexpected EOL\<close> return).
\<close>

function (sequential) read_values :: "string \<Rightarrow> string list \<times> bool" where
  "read_values [] = ([], True)"
| "read_values (c # cs) =
     (if isspace c then read_values cs
      else if c = COMMENT_CHAR then ([], True)
      else if c = CHR 0x27 \<or> c = CHR 0x22 then
        (case dropWhile (\<lambda>x. x \<noteq> c) cs of
           [] \<Rightarrow> ([], False)
         | q # r \<Rightarrow>
             (let (vs, ok) = read_values (tl (dropWhile (\<lambda>x. x \<noteq> VALUE_SEPARATOR) r))
              in (takeWhile (\<lambda>x. x \<noteq> c) cs # vs, ok)))
      else
        (let (vs, ok) = read_values (tl (dropWhile (\<lambda>x. x \<noteq> VALUE_SEPARATOR \<and> \<not> isspace x) (c # cs)))
         in (takeWhile (\<lambda>x. x \<noteq> VALUE_SEPARATOR \<and> \<not> isspace x) (c # cs) # vs, ok)))"
  by pat_completeness auto
termination
proof (relation "measure length", goal_cases)
  case (3 c cs q r)
  have "length (tl (dropWhile (\<lambda>x. x \<noteq> VALUE_SEPARATOR) r)) \<le> length r"
    by (simp add: le_diff_conv le_SucI length_dropWhile_le)
  moreover have "length (q # r) \<le> length cs"
    using 3 length_dropWhile_le [of "\<lambda>x. x \<noteq> c" cs] by simp
  ultimately show ?case by simp
next
  case (4 c cs)
  have "length (dropWhile (\<lambda>x. x \<noteq> VALUE_SEPARATOR \<and> \<not> isspace x) (c # cs)) \<le> Suc (length cs)"
    using length_dropWhile_le [of _ "c # cs"] by fastforce
  then show ?case by simp
qed simp_all

text \<open>One line (one \<open>fgets\<close> buffer) of the file; the flag is \<open>False\<close> when reading stops.\<close>

definition read_config_line :: "string \<Rightarrow> options \<Rightarrow> options \<times> bool" where
  "read_config_line buf opts =
     (case dropWhile (\<lambda>c. c \<noteq> VALUE_DELIMITER) buf of
        [] \<Rightarrow> (opts, True)
      | d # tmp \<Rightarrow>
          (let (opts, i) = add_option opts (takeWhile (\<lambda>c. c \<noteq> VALUE_DELIMITER) buf);
               (vs, ok) = read_values tmp
           in (opts[i := (opts ! i)\<lparr>opt_values := foldl add_value (free_values (opt_values (opts ! i))) vs\<rparr>],
               ok)))"

function read_config :: "string \<Rightarrow> options \<Rightarrow> options \<times> bool" where
  "read_config fp opts =
     (if fp = [] then (opts, True)
      else
        (let (buf, rest) = fgets (MAXSTRLEN - 1) fp;
             (opts, ok) = read_config_line (takeWhile (\<lambda>c. c \<noteq> nul) buf) opts
         in if ok then read_config rest opts else (opts, False)))"
  by pat_completeness auto
termination
proof (relation "measure (\<lambda>(fp, _). length fp)", goal_cases)
  case (2 fp opts x buf rest y opts' ok)
  then show ?case
    using fgets_progress(1) [of fp "MAXSTRLEN - 1" buf rest] by (simp add: MAXSTRLEN_def)
qed simp

declare read_config.simps [simp del]

definition read_config_file :: "file_system \<Rightarrow> string \<Rightarrow> options \<Rightarrow> options" where
  "read_config_file fs filename opts =
     (case fs filename of
        None \<Rightarrow> opts
      | Some fp \<Rightarrow> fst (read_config fp opts))"

text \<open>The text \<open>write_config\<close> prints, and the list with the printed options marked.\<close>

fun write_values :: "value_t list \<Rightarrow> string" where
  "write_values [] = []"
| "write_values (v # vs) =
     (if val_ignore v then [] else val_data v) @ (if vs = [] then [] else VALUE_SEPARATOR # '' '') @ write_values vs"

fun write_config :: "options \<Rightarrow> options \<times> string" where
  "write_config [] = ([], [])"
| "write_config (opt # os) =
     (let (os', out) = write_config os
      in if opt_ignore opt then (opt # os', out)
         else (opt\<lparr>opt_ignore := True\<rparr> # os',
               opt_name opt @ '' '' @ [VALUE_DELIMITER] @ '' '' @ write_values (opt_values opt) @ [newline] @ out))"

section \<open>Setting options\<close>

definition upd_option :: "nat \<Rightarrow> (option_t \<Rightarrow> option_t) \<Rightarrow> options \<Rightarrow> options" where
  "upd_option i f opts = opts[i := f (opts ! i)]"

definition opt_add_value :: "nat \<Rightarrow> string \<Rightarrow> options \<Rightarrow> options" where
  "opt_add_value i d = upd_option i (\<lambda>opt. opt\<lparr>opt_values := add_value (opt_values opt) d\<rparr>)"

definition set_option ::
  "file_system \<Rightarrow> string \<Rightarrow> string option \<Rightarrow> sb_arg_type_t \<Rightarrow> options \<Rightarrow> options \<times> nat option"
where
  "set_option fs name val type opts =
     (let (opts, i) = add_option opts name;
          opts = upd_option i (\<lambda>opt. opt\<lparr>opt_values := free_values (opt_values opt), opt_type := type\<rparr>) opts
      in if (case opt_validate (opts ! i) of None \<Rightarrow> False | Some validate \<Rightarrow> \<not> validate name val)
         then (opts, None)
         else if type \<noteq> SB_ARG_TYPE_BOOL \<and> (val = None \<or> val = Some [])
         then (opts, Some i)
         else
           (case type of
              SB_ARG_TYPE_BOOL \<Rightarrow>
                (if val = None \<or> val = Some ''on'' \<or> val = Some ''true'' \<or> val = Some ''1''
                 then (opt_add_value i ''on'' opts, Some i)
                 else if val \<noteq> Some ''off'' \<and> val \<noteq> Some ''false'' \<and> val \<noteq> Some ''0''
                 then (opts, None) else (opts, Some i))
            | SB_ARG_TYPE_INT \<Rightarrow> (opt_add_value i (the val) opts, Some i)
            | SB_ARG_TYPE_SIZE \<Rightarrow> (opt_add_value i (the val) opts, Some i)
            | SB_ARG_TYPE_DOUBLE \<Rightarrow> (opt_add_value i (the val) opts, Some i)
            | SB_ARG_TYPE_STRING \<Rightarrow> (opt_add_value i (the val) opts, Some i)
            | SB_ARG_TYPE_LIST \<Rightarrow> (foldl (\<lambda>os t. opt_add_value i t os) opts (strtok_commas (the val)), Some i)
            | SB_ARG_TYPE_FILE \<Rightarrow> (read_config_file fs (the val) opts, Some i)
            | SB_ARG_TYPE_NULL \<Rightarrow> (opts, None)
            | SB_ARG_TYPE_MAX \<Rightarrow> (opts, None)))"

text \<open>
  The loop of \<open>sb_register_arg_set\<close>; \<open>set_validate\<close> is \<open>set->validate\<close>, the validation
  function of the first element of the array.
\<close>

fun register_args_from ::
  "file_system \<Rightarrow> sb_opt_validate_t option \<Rightarrow> sb_arg_t list \<Rightarrow> options \<Rightarrow> options \<times> nat"
where
  "register_args_from fs set_validate [] opts = (opts, 0)"
| "register_args_from fs set_validate (a # as) opts =
     (case arg_name a of
        None \<Rightarrow> (opts, 0)
      | Some name \<Rightarrow>
          (case set_option fs name (arg_value a) (arg_type a) opts of
             (opts, None) \<Rightarrow> (opts, 1)
           | (opts, Some i) \<Rightarrow>
               register_args_from fs set_validate as
                 (upd_option i (\<lambda>opt. opt\<lparr>opt_validate := set_validate\<rparr>) opts)))"

definition sb_register_arg_set :: "file_system \<Rightarrow> sb_arg_t list \<Rightarrow> options \<Rightarrow> options \<times> nat" where
  "sb_register_arg_set fs args opts =
     register_args_from fs (if args = [] then None else arg_validate (hd args)) args opts"

section \<open>Getters\<close>

definition sb_opt_to_flag :: "option_t \<Rightarrow> bool" where
  "sb_opt_to_flag opt \<longleftrightarrow> opt_values opt \<noteq> []"

definition sb_get_value_flag :: "options \<Rightarrow> string \<Rightarrow> bool" where
  "sb_get_value_flag opts name =
     (case find_option opts name of None \<Rightarrow> False | Some i \<Rightarrow> sb_opt_to_flag (opts ! i))"

definition sb_opt_to_int :: "option_t \<Rightarrow> exit_failure + int" where
  "sb_opt_to_int opt =
     (case opt_values opt of
        [] \<Rightarrow> Inr 0
      | v # _ \<Rightarrow>
          (let (res, endptr) = strtol (val_data v)
           in if endptr \<noteq> [] \<or> res > INT_MAX \<or> res < INT_MIN
              then Inl (Invalid_value (opt_name opt) (val_data v)) else Inr res))"

definition sb_get_value_int :: "options \<Rightarrow> string \<Rightarrow> exit_failure + int" where
  "sb_get_value_int opts name =
     (case find_option opts name of None \<Rightarrow> Inr 0 | Some i \<Rightarrow> sb_opt_to_int (opts ! i))"

text \<open>The digit loop: the value read so far, \<open>rc\<close> and the modifier character.\<close>

fun size_digits :: "u64 \<Rightarrow> nat \<Rightarrow> string \<Rightarrow> u64 \<times> nat \<times> char" where
  "size_digits res rc [] = (res, rc, nul)"
| "size_digits res rc (c # cs) =
     (if schar c < 48 \<or> schar c > 57
      then (if rc = 1 then (res, 2, c) else (res, rc, nul))
      else size_digits (res * 10 + word_of_int (schar c) - 48) 1 cs)"

fun sizemod_index :: "nat \<Rightarrow> string \<Rightarrow> char \<Rightarrow> nat" where
  "sizemod_index n [] m = n"
| "sizemod_index n (x # xs) m = (if toupper m = x then n else sizemod_index (Suc n) xs m)"

definition sb_opt_to_size :: "option_t \<Rightarrow> u64" where
  "sb_opt_to_size opt =
     (case opt_values opt of
        [] \<Rightarrow> 0
      | v # _ \<Rightarrow>
          (let (res, rc, m) = size_digits 0 0 (val_data v)
           in if rc = 2
              then (let n = sizemod_index 0 sizemods m
                    in if n < length sizemods then ((\<lambda>x. x * 1024) ^^ (n + 1)) res else 0)
              else res))"

definition sb_get_value_size :: "options \<Rightarrow> string \<Rightarrow> u64" where
  "sb_get_value_size opts name =
     (case find_option opts name of None \<Rightarrow> 0 | Some i \<Rightarrow> sb_opt_to_size (opts ! i))"

text \<open>\<open>strtod\<close> is a parameter, with \<open>zero\<close> the literal \<open>0\<close> of its result type.\<close>

definition sb_opt_to_double :: "(string \<Rightarrow> 'd) \<Rightarrow> 'd \<Rightarrow> option_t \<Rightarrow> 'd" where
  "sb_opt_to_double strtod zero opt =
     foldl (\<lambda>res v. strtod (val_data v)) zero (opt_values opt)"

definition sb_get_value_double :: "(string \<Rightarrow> 'd) \<Rightarrow> 'd \<Rightarrow> options \<Rightarrow> string \<Rightarrow> 'd" where
  "sb_get_value_double strtod zero opts name =
     (case find_option opts name of None \<Rightarrow> zero | Some i \<Rightarrow> sb_opt_to_double strtod zero (opts ! i))"

definition sb_opt_to_string :: "option_t \<Rightarrow> string option" where
  "sb_opt_to_string opt = (case opt_values opt of [] \<Rightarrow> None | v # _ \<Rightarrow> Some (val_data v))"

definition sb_get_value_string :: "options \<Rightarrow> string \<Rightarrow> string option" where
  "sb_get_value_string opts name =
     (case find_option opts name of None \<Rightarrow> None | Some i \<Rightarrow> sb_opt_to_string (opts ! i))"

text \<open>
  \<open>set_option\<close> frees the old values before it reads the new one, so copying an option that
  has a value onto itself reads freed memory: that run has no result (\<open>None\<close>).
\<close>

definition sb_opt_copy :: "file_system \<Rightarrow> string \<Rightarrow> string \<Rightarrow> options \<Rightarrow> (options \<times> bool) option" where
  "sb_opt_copy fs to from opts =
     (case find_option opts from of
        None \<Rightarrow> Some (opts, False)
      | Some i \<Rightarrow>
          if find_option opts to = Some i \<and> sb_opt_to_string (opts ! i) \<noteq> None then None
          else Some (fst (set_option fs to (sb_opt_to_string (opts ! i)) (opt_type (opts ! i)) opts), True))"

definition sb_opt_to_list :: "option_t \<Rightarrow> string list" where
  "sb_opt_to_list opt = map val_data (opt_values opt)"

definition sb_get_value_list :: "options \<Rightarrow> string \<Rightarrow> string list option" where
  "sb_get_value_list opts name =
     (case find_option opts name of None \<Rightarrow> None | Some i \<Rightarrow> Some (sb_opt_to_list (opts ! i)))"

section \<open>Printing\<close>

text \<open>
  Division by 1024 is exact on doubles of this size, so the scaling loop runs on rationals;
  \<open>fmt\<close> is the conversion \<open>%.5g\<close>.  The character printed after the number is
  \<open>sizemods[i - 1]\<close>, where \<open>sizemods\<close> includes its terminating zero.
\<close>

fun scale_value_size :: "nat \<Rightarrow> nat \<Rightarrow> rat \<Rightarrow> nat \<times> rat" where
  "scale_value_size 0 i v = (i, v)"
| "scale_value_size (Suc n) i v = (if v \<ge> 1024 then scale_value_size n (Suc i) (v / 1024) else (i, v))"

definition sb_print_value_size :: "(rat \<Rightarrow> string) \<Rightarrow> rat \<Rightarrow> string" where
  "sb_print_value_size fmt v =
     (case scale_value_size (length (sizemods @ [nul])) 0 v of
        (i, v) \<Rightarrow> if i > 0 then fmt v @ [(sizemods @ [nul]) ! (i - 1)] @ ''i'' else fmt v)"

fun opt_formats :: "sb_arg_type_t \<Rightarrow> string option" where
  "opt_formats SB_ARG_TYPE_NULL = None"
| "opt_formats SB_ARG_TYPE_BOOL = Some ''[=on|off]''"
| "opt_formats SB_ARG_TYPE_INT = Some ''=N''"
| "opt_formats SB_ARG_TYPE_SIZE = Some ''=SIZE''"
| "opt_formats SB_ARG_TYPE_DOUBLE = Some ''=N''"
| "opt_formats SB_ARG_TYPE_STRING = Some ''=STRING''"
| "opt_formats SB_ARG_TYPE_LIST = Some ''=[LIST,...]''"
| "opt_formats SB_ARG_TYPE_FILE = Some ''=FILENAME''"
| "opt_formats SB_ARG_TYPE_MAX = Some ''=UNKNOWN''"

text \<open>The array of arguments up to its terminator; a type without a format has no result.\<close>

fun print_args :: "sb_arg_t list \<Rightarrow> (string \<times> string \<times> sb_arg_t) list option" where
  "print_args [] = Some []"
| "print_args (a # as) =
     (case arg_name a of
        None \<Rightarrow> Some []
      | Some name \<Rightarrow> do { fmt \<leftarrow> opt_formats (arg_type a); rest \<leftarrow> print_args as; Some ((name, fmt, a) # rest) })"

definition print_option_line :: "nat \<Rightarrow> string \<times> string \<times> sb_arg_t \<Rightarrow> string" where
  "print_option_line maxlen = (\<lambda>(name, fmt, a).
     ''  --'' @ name @ fmt @ replicate (maxlen - length name + 1 - length fmt) (CHR '' '') @ arg_desc a @
     (case arg_value a of None \<Rightarrow> [] | Some v \<Rightarrow> '' ['' @ v @ '']'') @ [newline])"

definition sb_print_options :: "sb_arg_t list \<Rightarrow> string option" where
  "sb_print_options opts =
     do { args \<leftarrow> print_args opts;
          Some (concat (map (print_option_line
                  (foldl (\<lambda>m (name, fmt, a). max m (length name + length fmt)) 0 args)) args) @ [newline]) }"

section \<open>The option list on the heap\<close>

text \<open>
  The loops that release the list nodes, and the enumeration, on the heap of \<open>SB_List\<close>: an
  option or value is the address of its list item.
\<close>

definition free_values_heap :: "addr \<Rightarrow> heap \<Rightarrow> heap option" where
  "free_values_heap values h = SB_LIST_FOR_EACH_SAFE unlink_and_free values h"

text \<open>\<open>values_of\<close> is the address of the member \<open>values\<close> of an option, freed with it.\<close>

definition free_option_item :: "(addr \<Rightarrow> addr) \<Rightarrow> addr \<Rightarrow> heap \<Rightarrow> heap option" where
  "free_option_item values_of cur h =
     do { h \<leftarrow> free_values_heap (values_of cur) h; h \<leftarrow> free_item (values_of cur) h; free_item cur h }"

definition free_options_heap :: "(addr \<Rightarrow> addr) \<Rightarrow> addr \<Rightarrow> heap \<Rightarrow> heap option" where
  "free_options_heap values_of options h = SB_LIST_FOR_EACH_SAFE (free_option_item values_of) options h"

definition sb_options_enum_start :: "addr \<Rightarrow> addr" where
  "sb_options_enum_start options = options"

definition sb_options_enum_next :: "heap \<Rightarrow> addr \<Rightarrow> addr \<Rightarrow> addr option option" where
  "sb_options_enum_next h pos options = SB_LIST_ENUM_NEXT pos options h"

section \<open>The abstract option store\<close>

text \<open>
  The list represents a finite map from option names, with dashes converted, to options.
  \<open>values_for\<close> and \<open>set_spec\<close> say what \<open>set_option\<close> promises for one entry of that map.
\<close>

definition opts_wf :: "options \<Rightarrow> bool" where
  "opts_wf opts \<longleftrightarrow> distinct (map opt_name opts) \<and>
     (\<forall>opt \<in> set opts. c_string (opt_name opt) \<and> CHR ''-'' \<notin> set (opt_name opt))"

definition abs_options :: "options \<Rightarrow> (string \<rightharpoonup> option_t)" where
  "abs_options opts = map_of (map (\<lambda>opt. (opt_name opt, opt)) opts)"

fun values_for :: "sb_arg_type_t \<Rightarrow> string option \<Rightarrow> string list" where
  "values_for SB_ARG_TYPE_BOOL val =
     (if val \<in> {None, Some ''on'', Some ''true'', Some ''1''} then [''on''] else [])"
| "values_for SB_ARG_TYPE_LIST (Some v) = strtok_commas v"
| "values_for type val =
     (if type \<in> {SB_ARG_TYPE_INT, SB_ARG_TYPE_SIZE, SB_ARG_TYPE_DOUBLE, SB_ARG_TYPE_STRING}
         \<and> val \<noteq> None \<and> val \<noteq> Some [] then [the val] else [])"

definition rejects :: "option_t \<Rightarrow> string \<Rightarrow> string option \<Rightarrow> bool" where
  "rejects opt name val \<longleftrightarrow> (case opt_validate opt of None \<Rightarrow> False | Some p \<Rightarrow> \<not> p name val)"

definition entry_or_new :: "string \<Rightarrow> option_t option \<Rightarrow> option_t" where
  "entry_or_new name old = (case old of None \<Rightarrow> new_option\<lparr>opt_name := convert_dashes name\<rparr> | Some opt \<Rightarrow> opt)"

definition set_spec :: "string \<Rightarrow> string option \<times> sb_arg_type_t \<Rightarrow> option_t option \<Rightarrow> option_t" where
  "set_spec name w old =
     (let opt = entry_or_new name old
      in opt\<lparr>opt_values := (if rejects opt name (fst w) then []
                            else map (\<lambda>d. new_value\<lparr>val_data := d\<rparr>) (values_for (snd w) (fst w))),
             opt_type := snd w\<rparr>)"

section \<open>Lemmas: names\<close>

lemma schar_eq_iff [simp]: "schar a = schar b \<longleftrightarrow> a = b"
proof -
  have "of_char a < (256 :: int)" "of_char b < (256 :: int)" "0 \<le> (of_char a :: int)" "0 \<le> (of_char b :: int)"
    by (simp_all add: of_char_def)
  then show ?thesis
    unfolding schar_def Let_def by (auto split: if_splits dest: inj_onD [OF inj_of_char])
qed

lemma schar_nul [simp]: "schar nul = 0"
  by (simp add: schar_def)

lemma schar_eq_0_iff [simp]: "schar c = 0 \<longleftrightarrow> c = nul"
  using schar_eq_iff [of c nul] by simp

lemma c_string_Cons [simp]: "c_string (c # s) \<longleftrightarrow> c \<noteq> nul \<and> c_string s"
  by (auto simp: c_string_def)

lemma c_string_Nil [simp]: "c_string []"
  by (simp add: c_string_def)

lemma convert_dashes_Nil [simp]: "convert_dashes [] = []"
  by (simp add: convert_dashes_def)

lemma convert_dashes_Cons [simp]:
  "convert_dashes (c # s) = (if c = CHR ''-'' then CHR ''_'' else c) # convert_dashes s"
  by (simp add: convert_dashes_def)

lemma c_string_convert_dashes [simp]: "c_string (convert_dashes s) \<longleftrightarrow> c_string s"
  by (induction s) auto

lemma convert_dashes_no_dash [simp]: "CHR ''-'' \<notin> set (convert_dashes s)"
  by (induction s) auto

lemma convert_dashes_id: "CHR ''-'' \<notin> set s \<Longrightarrow> convert_dashes s = s"
  by (induction s) auto

lemma opt_name_cmp_0_iff:
  "c_string a \<Longrightarrow> c_string b \<Longrightarrow> opt_name_cmp a b = 0 \<longleftrightarrow> convert_dashes a = convert_dashes b"
  by (induction a b rule: opt_name_cmp.induct) (auto simp: dash_or_underscore_def)

section \<open>Lemmas: the list refines the map\<close>

lemma find_option_from_Some:
  "find_option_from i os n = Some j \<Longrightarrow>
     i \<le> j \<and> j - i < length os \<and> opt_name_cmp (opt_name (os ! (j - i))) n = 0"
proof (induction i os n rule: find_option_from.induct)
  case (2 i opt os name)
  then show ?case
    by (auto split: if_splits simp: nth_Cons' Suc_le_eq)
qed simp

lemma find_option_from_None:
  "find_option_from i os n = None \<longleftrightarrow> (\<forall>opt \<in> set os. opt_name_cmp (opt_name opt) n \<noteq> 0)"
  by (induction i os n rule: find_option_from.induct) auto

lemma find_option_Some:
  assumes "opts_wf opts" "c_string n" "find_option opts n = Some i"
  shows "i < length opts" and "opt_name (opts ! i) = convert_dashes n"
proof -
  have *: "i < length opts \<and> opt_name_cmp (opt_name (opts ! i)) n = 0"
    using assms(3) find_option_from_Some [of 0 opts n i] by (simp add: find_option_def)
  then show "i < length opts" by simp
  with assms(1) have "c_string (opt_name (opts ! i))" "CHR ''-'' \<notin> set (opt_name (opts ! i))"
    by (auto simp: opts_wf_def)
  then show "opt_name (opts ! i) = convert_dashes n"
    using * assms(2) by (simp add: opt_name_cmp_0_iff convert_dashes_id)
qed

lemma find_option_None:
  assumes "opts_wf opts" "c_string n"
  shows "find_option opts n = None \<longleftrightarrow> convert_dashes n \<notin> opt_name ` set opts"
proof -
  have "opt_name_cmp (opt_name opt) n = 0 \<longleftrightarrow> opt_name opt = convert_dashes n" if "opt \<in> set opts" for opt
    using assms that by (simp add: opts_wf_def opt_name_cmp_0_iff convert_dashes_id)
  then show ?thesis
    unfolding find_option_def find_option_from_None by (metis imageE imageI)
qed

lemma abs_options_nth:
  assumes "opts_wf opts" "i < length opts"
  shows "abs_options opts (opt_name (opts ! i)) = Some (opts ! i)"
  using assms by (simp add: abs_options_def opts_wf_def map_of_eq_Some_iff comp_def)

lemma abs_options_None: "abs_options opts k = None \<longleftrightarrow> k \<notin> opt_name ` set opts"
  by (simp add: abs_options_def map_of_eq_None_iff image_image)

lemma sb_find_option_abs:
  assumes "opts_wf opts" "c_string n"
  shows "sb_find_option opts n = abs_options opts (convert_dashes n)"
proof (cases "find_option opts n")
  case None
  then show ?thesis
    using find_option_None [OF assms] abs_options_None [of opts "convert_dashes n"]
    by (simp add: sb_find_option_def)
next
  case (Some i)
  then show ?thesis
    using find_option_Some [OF assms Some] abs_options_nth [OF assms(1), of i]
    by (simp add: sb_find_option_def)
qed

lemma length_upd_option [simp]: "length (upd_option i f opts) = length opts"
  by (simp add: upd_option_def)

lemma upd_option_nth [simp]: "i < length opts \<Longrightarrow> upd_option i f opts ! i = f (opts ! i)"
  by (simp add: upd_option_def)

lemma upd_option_twice: "i < length opts \<Longrightarrow> upd_option i g (upd_option i f opts) = upd_option i (g \<circ> f) opts"
  by (simp add: upd_option_def)

lemma upd_option_names:
  "opt_name (f (opts ! i)) = opt_name (opts ! i) \<Longrightarrow> map opt_name (upd_option i f opts) = map opt_name opts"
  by (metis (no_types) list_update_id map_update upd_option_def)

lemma upd_option_refines:
  assumes "opts_wf opts" "i < length opts" "opt_name (f (opts ! i)) = opt_name (opts ! i)"
  shows "opts_wf (upd_option i f opts)"
    and "abs_options (upd_option i f opts) = (abs_options opts)(opt_name (opts ! i) \<mapsto> f (opts ! i))"
proof -
  have wf_names: "opts_wf os \<longleftrightarrow> distinct (map opt_name os) \<and>
      (\<forall>n \<in> set (map opt_name os). c_string n \<and> CHR ''-'' \<notin> set n)" for os
    by (auto simp: opts_wf_def)
  show wf: "opts_wf (upd_option i f opts)"
    using assms(1) unfolding wf_names upd_option_names [of f opts i, OF assms(3)] .
  show "abs_options (upd_option i f opts) = (abs_options opts)(opt_name (opts ! i) \<mapsto> f (opts ! i))"
  proof
    fix k
    show "abs_options (upd_option i f opts) k = ((abs_options opts)(opt_name (opts ! i) \<mapsto> f (opts ! i))) k"
    proof (cases "k = opt_name (opts ! i)")
      case True
      then show ?thesis
        using abs_options_nth [OF wf, of i] assms by simp
    next
      case False
      show ?thesis
      proof (cases "abs_options opts k")
        case None
        then have "k \<notin> set (map opt_name (upd_option i f opts))"
          by (simp only: upd_option_names [of f opts i, OF assms(3)] abs_options_None set_map not_False_eq_True)
        then show ?thesis
          using False None abs_options_None [of "upd_option i f opts" k] by simp
      next
        case (Some opt)
        then obtain j where j: "j < length opts" "opts ! j = opt" "opt_name opt = k"
          by (auto simp: abs_options_def in_set_conv_nth dest!: map_of_SomeD)
        with False have "upd_option i f opts ! j = opt"
          by (metis nth_list_update_neq upd_option_def)
        then show ?thesis
          using abs_options_nth [OF wf, of j] j False Some by simp
      qed
    qed
  qed
qed

lemma add_option_refines:
  assumes "opts_wf opts" "c_string n" "add_option opts n = (opts', i)"
  shows "opts_wf opts'" and "i < length opts'" and "opt_name (opts' ! i) = convert_dashes n"
    and "abs_options opts' = (abs_options opts)(convert_dashes n \<mapsto> entry_or_new n (abs_options opts (convert_dashes n)))"
    and "opts' ! i = entry_or_new n (abs_options opts (convert_dashes n))"
proof -
  have "opts_wf opts' \<and> i < length opts' \<and> opt_name (opts' ! i) = convert_dashes n \<and>
    opts' ! i = entry_or_new n (abs_options opts (convert_dashes n)) \<and>
    abs_options opts' = (abs_options opts)(convert_dashes n \<mapsto> entry_or_new n (abs_options opts (convert_dashes n)))"
  proof (cases "find_option opts n")
    case None
    then have new: "convert_dashes n \<notin> opt_name ` set opts" "abs_options opts (convert_dashes n) = None"
      using find_option_None [OF assms(1,2)] abs_options_None by auto
    have "opts' = opts @ [new_option\<lparr>opt_name := convert_dashes n\<rparr>]" "i = length opts"
      using None assms(3) by (simp_all add: add_option_def)
    with new assms(1,2) show ?thesis
      by (auto simp: opts_wf_def entry_or_new_def abs_options_def map_add_def fun_eq_iff split: option.split)
  next
    case (Some j)
    then have "opts' = opts" "i = j"
      using assms(3) by (simp_all add: add_option_def)
    moreover note find_option_Some [OF assms(1,2) Some]
    moreover note abs_options_nth [OF assms(1), of j]
    ultimately show ?thesis
      using assms(1) by (auto simp: entry_or_new_def fun_eq_iff)
  qed
  then show "opts_wf opts'" and "i < length opts'" and "opt_name (opts' ! i) = convert_dashes n"
    and "abs_options opts' = (abs_options opts)(convert_dashes n \<mapsto> entry_or_new n (abs_options opts (convert_dashes n)))"
    and "opts' ! i = entry_or_new n (abs_options opts (convert_dashes n))"
    by blast+
qed

lemma opt_add_value_fold:
  assumes "i < length opts"
  shows "foldl (\<lambda>os t. opt_add_value i t os) opts ts =
    upd_option i (\<lambda>opt. opt\<lparr>opt_values := opt_values opt @ map (\<lambda>d. new_value\<lparr>val_data := d\<rparr>) ts\<rparr>) opts"
  using assms
proof (induction ts arbitrary: opts)
  case Nil
  then show ?case by (simp add: upd_option_def)
next
  case (Cons t ts)
  then show ?case
    by (simp add: opt_add_value_def upd_option_twice comp_def add_value_def)
qed

lemma rejects_update:
  "rejects (opt\<lparr>opt_type := t, opt_values := v\<rparr>) n val = rejects opt n val"
  by (simp add: rejects_def)

text \<open>Every argument type but \<open>SB_ARG_TYPE_FILE\<close>, which reads other options from a file.\<close>

lemma set_option_upd:
  assumes "type \<noteq> SB_ARG_TYPE_FILE" "add_option opts n = (opts', i)" "i < length opts'"
  shows "fst (set_option fs n val type opts) =
    upd_option i (\<lambda>opt. opt\<lparr>opt_values := (if rejects opt n val then []
        else map (\<lambda>d. new_value\<lparr>val_data := d\<rparr>) (values_for type val)), opt_type := type\<rparr>) opts'"
proof -
  have add: "opt_add_value i d (upd_option i f opts') =
      upd_option i (\<lambda>opt. (f opt)\<lparr>opt_values := opt_values (f opt) @ [new_value\<lparr>val_data := d\<rparr>]\<rparr>) opts'" for d f
    using assms(3) by (simp add: opt_add_value_def upd_option_twice comp_def add_value_def)
  have sel: "upd_option i f opts' = upd_option i g opts'" if "f (opts' ! i) = g (opts' ! i)" for f g
    using that by (simp add: upd_option_def)
  have comm: "opt\<lparr>opt_values := v, opt_type := t\<rparr> = opt\<lparr>opt_type := t, opt_values := v\<rparr>" for opt :: option_t and v t
    by simp
  have toks: "strtok_commas [] = []"
    by (simp add: strtok_commas.simps)
  show ?thesis
  proof (cases "rejects (opts' ! i) n val")
    case True
    then show ?thesis
      using assms by (auto simp: set_option_def rejects_def free_values_def split: option.splits intro!: sel)
  next
    case False
    let ?g = "\<lambda>opt. opt\<lparr>opt_values := map (\<lambda>d. new_value\<lparr>val_data := d\<rparr>) (values_for type val), opt_type := type\<rparr>"
    have "fst (set_option fs n val type opts) = upd_option i ?g opts'"
    proof (cases "type = SB_ARG_TYPE_BOOL")
      case True
      then show ?thesis
        using assms(2,3) False by (auto simp: set_option_def rejects_def [symmetric] free_values_def Let_def add comm rejects_update)
    next
      case no_bool: False
      then show ?thesis
        using assms \<open>\<not> rejects (opts' ! i) n val\<close>
        by (cases val; cases type)
          (simp_all add: set_option_def rejects_def [symmetric] free_values_def Let_def add opt_add_value_fold upd_option_twice comp_def toks comm rejects_update)
    qed
    then show ?thesis
      using False by (auto intro: sel)
  qed
qed

theorem set_option_refines:
  assumes "opts_wf opts" "c_string n" "type \<noteq> SB_ARG_TYPE_FILE"
  shows "opts_wf (fst (set_option fs n val type opts))"
    and "abs_options (fst (set_option fs n val type opts)) =
      (abs_options opts)(convert_dashes n \<mapsto> set_spec n (val, type) (abs_options opts (convert_dashes n)))"
proof -
  obtain opts' i where add: "add_option opts n = (opts', i)"
    by (cases "add_option opts n")
  note r = add_option_refines [OF assms(1,2) add]
  let ?f = "\<lambda>opt. opt\<lparr>opt_values := (if rejects opt n val then []
      else map (\<lambda>d. new_value\<lparr>val_data := d\<rparr>) (values_for type val)), opt_type := type\<rparr>"
  have upd: "fst (set_option fs n val type opts) = upd_option i ?f opts'"
    by (rule set_option_upd [OF assms(3) add r(2)])
  show "opts_wf (fst (set_option fs n val type opts))"
    unfolding upd by (rule upd_option_refines(1)) (simp_all add: r)
  have "abs_options (upd_option i ?f opts') = (abs_options opts')(opt_name (opts' ! i) \<mapsto> ?f (opts' ! i))"
    by (rule upd_option_refines(2)) (simp_all add: r)
  also have "\<dots> = (abs_options opts)(convert_dashes n \<mapsto> set_spec n (val, type) (abs_options opts (convert_dashes n)))"
    unfolding r(3,4) by (simp add: r(5) set_spec_def Let_def)
  finally show "abs_options (fst (set_option fs n val type opts)) =
      (abs_options opts)(convert_dashes n \<mapsto> set_spec n (val, type) (abs_options opts (convert_dashes n)))"
    unfolding upd .
qed

lemma set_option_returns:
  assumes "opts_wf opts" "c_string n" "type \<notin> {SB_ARG_TYPE_FILE, SB_ARG_TYPE_NULL, SB_ARG_TYPE_MAX}"
    "\<not> rejects (entry_or_new n (abs_options opts (convert_dashes n))) n val"
    "type = SB_ARG_TYPE_BOOL \<Longrightarrow> val \<in> {None, Some ''on'', Some ''true'', Some ''1'', Some ''off'', Some ''false'', Some ''0''}"
  shows "snd (set_option fs n val type opts) = Some (snd (add_option opts n))"
proof -
  obtain opts' i where add: "add_option opts n = (opts', i)"
    by (cases "add_option opts n")
  note r = add_option_refines [OF assms(1,2) add]
  show ?thesis
    using assms(3-5) r(2,5)
    by (cases type) (auto simp: set_option_def add Let_def rejects_def split: option.splits)
qed

section \<open>Stores keyed by a normalised name\<close>

text \<open>
  The contract the rest of the program relies on: a store with keys compared up to \<open>norm\<close>,
  where \<open>put\<close> changes the entry of its own key by \<open>step\<close> and no other entry.
\<close>

locale keyed_store =
  fixes inv :: "'s \<Rightarrow> bool"
    and norm :: "'k \<Rightarrow> 'n"
    and key_ok :: "'k \<Rightarrow> bool"
    and op_ok :: "'w \<Rightarrow> bool"
    and lookup :: "'s \<Rightarrow> 'k \<Rightarrow> 'v option"
    and put :: "'k \<Rightarrow> 'w \<Rightarrow> 's \<Rightarrow> 's"
    and step :: "'k \<Rightarrow> 'w \<Rightarrow> 'v option \<Rightarrow> 'v"
  assumes put_inv: "inv s \<Longrightarrow> key_ok k \<Longrightarrow> op_ok w \<Longrightarrow> inv (put k w s)"
    and lookup_norm: "inv s \<Longrightarrow> key_ok k \<Longrightarrow> key_ok k' \<Longrightarrow> norm k = norm k' \<Longrightarrow> lookup s k = lookup s k'"
    and lookup_put: "inv s \<Longrightarrow> key_ok k \<Longrightarrow> op_ok w \<Longrightarrow> key_ok k' \<Longrightarrow>
      lookup (put k w s) k' = (if norm k' = norm k then Some (step k w (lookup s k')) else lookup s k')"
begin

definition puts :: "('k \<times> 'w) list \<Rightarrow> 's \<Rightarrow> 's" where
  "puts kws s = fold (\<lambda>(k, w). put k w) kws s"

lemma puts_lookup:
  assumes "inv s" "\<forall>(k, w) \<in> set kws. key_ok k \<and> op_ok w" "key_ok j"
  shows "inv (puts kws s)"
    and "lookup (puts kws s) j =
      fold (\<lambda>(k, w) v. Some (step k w v)) (filter (\<lambda>(k, w). norm k = norm j) kws) (lookup s j)"
  using assms(1,2)
proof (induction kws arbitrary: s)
  case Nil
  {
    case 1
    then show ?case by (simp add: puts_def)
  next
    case 2
    then show ?case by (simp add: puts_def)
  }
next
  case (Cons kw kws)
  obtain k w where kw: "kw = (k, w)" by force
  {
    case 1
    then show ?case
      using Cons.IH(1) [of "put k w s"] put_inv by (simp add: puts_def kw)
  next
    case 2
    then show ?case
      using Cons.IH(2) [of "put k w s"] put_inv lookup_put [OF _ _ _ assms(3)] by (auto simp: puts_def kw)
  }
qed

lemma puts_other:
  assumes "inv s" "\<forall>(k, w) \<in> set kws. key_ok k \<and> op_ok w" "key_ok j" "\<forall>(k, w) \<in> set kws. norm k \<noteq> norm j"
  shows "lookup (puts kws s) j = lookup s j"
proof -
  have "filter (\<lambda>(k, w). norm k = norm j) kws = []"
    using assms(4) by (auto simp: filter_empty_conv)
  then show ?thesis
    using puts_lookup(2) [OF assms(1-3)] by simp
qed

lemma put_commute:
  assumes "inv s" "key_ok k" "op_ok w" "key_ok k'" "op_ok w'" "key_ok j" "norm k \<noteq> norm k'"
  shows "lookup (put k w (put k' w' s)) j = lookup (put k' w' (put k w s)) j"
  using assms by (simp add: lookup_put put_inv)

end

interpretation option_store: keyed_store opts_wf convert_dashes c_string
  "\<lambda>w. snd w \<noteq> SB_ARG_TYPE_FILE" sb_find_option
  "\<lambda>n w opts. fst (set_option fs n (fst w) (snd w) opts)" set_spec for fs
proof (unfold_locales, goal_cases)
  case (1 s k w)
  then show ?case by (simp add: set_option_refines(1))
next
  case (2 s k k')
  then show ?case by (simp add: sb_find_option_abs)
next
  case (3 s k w k')
  then show ?case
    by (cases w) (simp add: sb_find_option_abs set_option_refines)
qed

section \<open>Lemmas: getters\<close>

lemma sb_get_value_list_find:
  "sb_get_value_list opts n = map_option sb_opt_to_list (sb_find_option opts n)"
  by (simp add: sb_get_value_list_def sb_find_option_def split: option.split)

lemma sb_get_value_int_find:
  "sb_get_value_int opts n = (case sb_find_option opts n of None \<Rightarrow> Inr 0 | Some opt \<Rightarrow> sb_opt_to_int opt)"
  by (simp add: sb_get_value_int_def sb_find_option_def split: option.split)

lemma sb_get_value_size_find:
  "sb_get_value_size opts n = (case sb_find_option opts n of None \<Rightarrow> 0 | Some opt \<Rightarrow> sb_opt_to_size opt)"
  by (simp add: sb_get_value_size_def sb_find_option_def split: option.split)

lemma sb_get_value_flag_find:
  "sb_get_value_flag opts n = (case sb_find_option opts n of None \<Rightarrow> False | Some opt \<Rightarrow> sb_opt_to_flag opt)"
  by (simp add: sb_get_value_flag_def sb_find_option_def split: option.split)

lemma sb_get_value_string_find:
  "sb_get_value_string opts n = Option.bind (sb_find_option opts n) sb_opt_to_string"
  by (simp add: sb_get_value_string_def sb_find_option_def split: option.split)

lemmas getters_find = sb_get_value_list_find sb_get_value_int_find sb_get_value_size_find
  sb_get_value_flag_find sb_get_value_string_find

lemma opt_values_set_spec:
  "\<not> rejects (entry_or_new n old) n val \<Longrightarrow>
     opt_values (set_spec n (val, type) old) = map (\<lambda>d. new_value\<lparr>val_data := d\<rparr>) (values_for type val)"
  by (simp add: set_spec_def Let_def)

lemma sb_find_option_set:
  assumes "opts_wf opts" "c_string n" "c_string n'" "type \<noteq> SB_ARG_TYPE_FILE"
  shows "sb_find_option (fst (set_option fs n val type opts)) n' =
    (if convert_dashes n' = convert_dashes n then Some (set_spec n (val, type) (sb_find_option opts n'))
     else sb_find_option opts n')"
  using option_store.lookup_put [where w = "(val, type)", OF assms(1,2) _ assms(3)] assms(4) by simp

section \<open>Lemmas: configuration files\<close>

text \<open>
  A value that needs no quotes, and the lines a user writes: \<open>name=v1,v2,...\<close> with a newline,
  within one \<open>fgets\<close> buffer.
\<close>

definition plain_value :: "string \<Rightarrow> bool" where
  "plain_value v \<longleftrightarrow> v \<noteq> [] \<and> hd v \<notin> {COMMENT_CHAR, CHR 0x27, CHR 0x22} \<and>
     (\<forall>c \<in> set v. c \<noteq> VALUE_SEPARATOR \<and> \<not> isspace c \<and> c \<noteq> nul)"

fun config_values :: "string list \<Rightarrow> string" where
  "config_values [] = []"
| "config_values [v] = v"
| "config_values (v # vs) = v @ VALUE_SEPARATOR # config_values vs"

definition config_line :: "string \<times> string list \<Rightarrow> string" where
  "config_line = (\<lambda>(name, vs). name @ VALUE_DELIMITER # config_values vs)"

definition config_entry_ok :: "string \<times> string list \<Rightarrow> bool" where
  "config_entry_ok = (\<lambda>(name, vs). c_string name \<and> VALUE_DELIMITER \<notin> set name \<and> newline \<notin> set name \<and>
     (\<forall>v \<in> set vs. plain_value v) \<and> length (config_line (name, vs)) < MAXSTRLEN - 1)"

definition config_file :: "(string \<times> string list) list \<Rightarrow> string" where
  "config_file es = concat (map (\<lambda>e. config_line e @ [newline]) es)"

definition config_spec :: "string \<times> string list \<Rightarrow> (string \<rightharpoonup> option_t) \<Rightarrow> (string \<rightharpoonup> option_t)" where
  "config_spec = (\<lambda>(name, vs) m. m(convert_dashes name \<mapsto>
     (entry_or_new name (m (convert_dashes name)))\<lparr>opt_values := map (\<lambda>d. new_value\<lparr>val_data := d\<rparr>) vs\<rparr>))"

lemma read_values_plain:
  assumes "plain_value v" "r = [] \<or> hd r = VALUE_SEPARATOR \<or> isspace (hd r)"
  shows "read_values (v @ r) = (v # fst (read_values (tl r)), snd (read_values (tl r)))"
proof -
  let ?P = "\<lambda>x. x \<noteq> VALUE_SEPARATOR \<and> \<not> isspace x"
  obtain c cs where v: "v = c # cs" "c \<noteq> COMMENT_CHAR" "c \<noteq> CHR 0x27" "c \<noteq> CHR 0x22" "\<not> isspace c"
    using assms(1) by (cases v) (auto simp: plain_value_def)
  have "\<forall>x \<in> set v. ?P x"
    using assms(1) by (auto simp: plain_value_def)
  moreover have "takeWhile ?P r = []" "dropWhile ?P r = r"
    using assms(2) by (cases r; auto)+
  ultimately have "takeWhile ?P (v @ r) = v" "dropWhile ?P (v @ r) = r"
    by simp_all
  then show ?thesis
    using v by (simp add: case_prod_beta Let_def)
qed

lemma read_values_config:
  "\<forall>v \<in> set vs. plain_value v \<Longrightarrow> read_values (config_values vs @ [newline]) = (vs, True)"
proof (induction vs rule: config_values.induct)
  case (2 v)
  then show ?case
    using read_values_plain [of v "[newline]"] by (simp add: isspace_def)
next
  case (3 v v' vs)
  then show ?case
    using read_values_plain [of v "VALUE_SEPARATOR # config_values (v' # vs) @ [newline]"] by simp
qed (simp add: isspace_def)

lemma foldl_add_value: "foldl add_value vs0 ds = vs0 @ map (\<lambda>d. new_value\<lparr>val_data := d\<rparr>) ds"
  by (induction ds arbitrary: vs0) (auto simp: add_value_def)

lemma read_config_line_refines:
  assumes "opts_wf opts" "config_entry_ok e"
  shows "opts_wf (fst (read_config_line (config_line e @ [newline]) opts))"
    and "abs_options (fst (read_config_line (config_line e @ [newline]) opts)) = config_spec e (abs_options opts)"
    and "snd (read_config_line (config_line e @ [newline]) opts)"
proof -
  obtain name vs where e: "e = (name, vs)" by force
  with assms(2) have ok: "c_string name" "VALUE_DELIMITER \<notin> set name" "\<forall>v \<in> set vs. plain_value v"
    by (simp_all add: config_entry_ok_def)
  obtain opts' i where add: "add_option opts name = (opts', i)"
    by (cases "add_option opts name")
  note r = add_option_refines [OF assms(1) ok(1) add]
  let ?f = "\<lambda>opt. opt\<lparr>opt_values := map (\<lambda>d. new_value\<lparr>val_data := d\<rparr>) vs\<rparr>"
  have "takeWhile (\<lambda>c. c \<noteq> VALUE_DELIMITER) (config_line e @ [newline]) = name"
    "dropWhile (\<lambda>c. c \<noteq> VALUE_DELIMITER) (config_line e @ [newline]) = VALUE_DELIMITER # config_values vs @ [newline]"
    using ok(2) by (simp_all add: config_line_def e)
  then have line: "read_config_line (config_line e @ [newline]) opts = (upd_option i ?f opts', True)"
    using read_values_config [OF ok(3)]
    by (simp add: read_config_line_def add foldl_add_value free_values_def upd_option_def)
  show "opts_wf (fst (read_config_line (config_line e @ [newline]) opts))"
    unfolding line fst_conv by (rule upd_option_refines(1)) (simp_all add: r)
  have "abs_options (upd_option i ?f opts') = (abs_options opts')(opt_name (opts' ! i) \<mapsto> ?f (opts' ! i))"
    by (rule upd_option_refines(2)) (simp_all add: r)
  also have "\<dots> = config_spec e (abs_options opts)"
    unfolding r(3,4) by (simp add: r(5) config_spec_def e)
  finally show "abs_options (fst (read_config_line (config_line e @ [newline]) opts)) = config_spec e (abs_options opts)"
    unfolding line by simp
  show "snd (read_config_line (config_line e @ [newline]) opts)"
    unfolding line by simp
qed

lemma config_line_clean:
  assumes "config_entry_ok e"
  shows "newline \<notin> set (config_line e)" and "nul \<notin> set (config_line e)" and "length (config_line e) < MAXSTRLEN - 1"
proof -
  have "newline \<notin> set (config_values vs) \<and> nul \<notin> set (config_values vs)" if "\<forall>v \<in> set vs. plain_value v" for vs
    using that
  proof (induction vs rule: config_values.induct)
    case (2 v)
    then show ?case by (auto simp: plain_value_def isspace_def)
  next
    case (3 v v' vs)
    then show ?case by (auto simp: plain_value_def isspace_def)
  qed simp
  with assms show "newline \<notin> set (config_line e)" "nul \<notin> set (config_line e)"
    by (auto simp: config_entry_ok_def config_line_def c_string_def)
  show "length (config_line e) < MAXSTRLEN - 1"
    using assms by (simp add: config_entry_ok_def case_prod_beta)
qed

lemma read_config_refines:
  assumes "opts_wf opts" "\<forall>e \<in> set es. config_entry_ok e"
  shows "snd (read_config (config_file es) opts)" and "opts_wf (fst (read_config (config_file es) opts))"
    and "abs_options (fst (read_config (config_file es) opts)) = fold config_spec es (abs_options opts)"
proof -
  have "snd (read_config (config_file es) opts) \<and> opts_wf (fst (read_config (config_file es) opts)) \<and>
    abs_options (fst (read_config (config_file es) opts)) = fold config_spec es (abs_options opts)"
    using assms
  proof (induction es arbitrary: opts)
    case Nil
    then show ?case by (simp add: config_file_def read_config.simps)
  next
    case (Cons e es)
    then have e: "config_entry_ok e" by simp
    note c = config_line_clean [OF e]
    have get: "fgets (MAXSTRLEN - 1) (config_file (e # es)) = (config_line e @ [newline], config_file es)"
      using fgets_line [OF c(1,3)] by (simp add: config_file_def)
    have tw: "takeWhile (\<lambda>c. c \<noteq> nul) (config_line e @ [newline]) = config_line e @ [newline]"
      using c(2) by (auto simp: takeWhile_eq_all_conv)
    obtain opts' where o: "read_config_line (config_line e @ [newline]) opts = (opts', True)"
      using read_config_line_refines(3) [OF Cons.prems(1) e] by (metis (full_types) prod.collapse)
    have "config_file (e # es) \<noteq> []"
      by (simp add: config_file_def)
    then have "read_config (config_file (e # es)) opts = read_config (config_file es) opts'"
      by (subst read_config.simps) (simp add: get [unfolded One_nat_def] tw o)
    then show ?case
      using read_config_line_refines [OF Cons.prems(1) e] o Cons.IH [of opts'] Cons.prems(2) by simp
  qed
  then show "snd (read_config (config_file es) opts)" and "opts_wf (fst (read_config (config_file es) opts))"
    and "abs_options (fst (read_config (config_file es) opts)) = fold config_spec es (abs_options opts)"
    by blast+
qed

section \<open>Lemmas: sizes\<close>

lemma schar_digit: "isdigit c \<Longrightarrow> schar c = 48 + int (digit_value c) \<and> digit_value c < 10"
  by (auto simp: isdigit_def schar_def digit_value_def Let_def of_char_def)

lemma size_digits_append:
  "\<forall>c \<in> set ds. isdigit c \<Longrightarrow> size_digits res rc (ds @ r) =
     size_digits (foldl (\<lambda>a c. 10 * a + of_nat (digit_value c)) res ds) (if ds = [] then rc else 1) r"
proof (induction ds arbitrary: res rc)
  case (Cons c ds)
  have "(res * 10 + word_of_int (schar c) - 48 :: u64) = 10 * res + of_nat (digit_value c)"
    using schar_digit [of c] Cons.prems by (simp add: of_int_add)
  with Cons show ?case
    using schar_digit [of c] by (simp add: mult.commute)
qed simp

lemma foldl_dec_value: "foldl (\<lambda>a c. 10 * a + of_nat (digit_value c)) 0 ds = (of_nat (dec_value ds) :: u64)"
  by (induction ds rule: rev_induct) (simp_all add: dec_value_def)

lemma size_digits_print_dec:
  "size_digits 0 0 (print_dec m @ r) = size_digits (of_nat m) 1 r"
  using print_dec_digits [of m] by (simp add: size_digits_append foldl_dec_value)

text \<open>The modifiers the code knows, in either case, with the power of 1024 each stands for.\<close>

definition size_suffix :: "string \<Rightarrow> nat option" where
  "size_suffix s =
     (if s = [] then Some 0
      else map_of [(CHR ''K'', 1), (CHR ''M'', 2), (CHR ''G'', 3), (CHR ''T'', 4),
                   (CHR ''k'', 1), (CHR ''m'', 2), (CHR ''g'', 3), (CHR ''t'', 4)] (hd s))"

lemma toupper_letter:
  "toupper c = CHR ''K'' \<longleftrightarrow> c \<in> {CHR ''K'', CHR ''k''}" "toupper c = CHR ''M'' \<longleftrightarrow> c \<in> {CHR ''M'', CHR ''m''}"
  "toupper c = CHR ''G'' \<longleftrightarrow> c \<in> {CHR ''G'', CHR ''g''}" "toupper c = CHR ''T'' \<longleftrightarrow> c \<in> {CHR ''T'', CHR ''t''}"
proof -
  have up: "toupper c = char_of k \<longleftrightarrow> c \<in> {char_of k, char_of (k + 32)}" if "65 \<le> k" "k \<le> 90" for k :: nat
  proof -
    have c: "c = char_of (of_char c :: nat)" by simp
    have "(char_of m = (char_of k :: char)) \<longleftrightarrow> m = k" if "m < 256" for m :: nat
      using that \<open>k \<le> 90\<close> by (auto simp: char_of_eq_iff take_bit_eq_mod)
    note inj = this
    have "of_char c < (256 :: nat)" by (simp add: of_char_def)
    moreover have "(c = char_of (k + 32)) \<longleftrightarrow> of_char c = k + 32"
      using \<open>of_char c < (256 :: nat)\<close> \<open>k \<le> 90\<close> by (auto simp: eq_commute [of c] char_of_eq_iff take_bit_eq_mod)
    moreover have "(c = char_of k) \<longleftrightarrow> of_char c = k"
      using \<open>of_char c < (256 :: nat)\<close> \<open>k \<le> 90\<close> by (auto simp: eq_commute [of c] char_of_eq_iff take_bit_eq_mod)
    ultimately show ?thesis
      using that inj [of "of_char c - 32"] by (auto simp: toupper_def)
  qed
  have letters:
    "char_of (75 :: nat) = CHR ''K''"
    "char_of (107 :: nat) = CHR ''k''"
    "char_of (77 :: nat) = CHR ''M''"
    "char_of (109 :: nat) = CHR ''m''"
    "char_of (71 :: nat) = CHR ''G''"
    "char_of (103 :: nat) = CHR ''g''"
    "char_of (84 :: nat) = CHR ''T''"
    "char_of (116 :: nat) = CHR ''t''"
    by code_simp+
  show "toupper c = CHR ''K'' \<longleftrightarrow> c \<in> {CHR ''K'', CHR ''k''}" using up [of 75] by (simp add: letters)
  show "toupper c = CHR ''M'' \<longleftrightarrow> c \<in> {CHR ''M'', CHR ''m''}" using up [of 77] by (simp add: letters)
  show "toupper c = CHR ''G'' \<longleftrightarrow> c \<in> {CHR ''G'', CHR ''g''}" using up [of 71] by (simp add: letters)
  show "toupper c = CHR ''T'' \<longleftrightarrow> c \<in> {CHR ''T'', CHR ''t''}" using up [of 84] by (simp add: letters)
qed

lemma funpow_times_1024: "((\<lambda>x. x * 1024) ^^ k) (a :: u64) = a * 1024 ^ k"
  by (induction k) simp_all

lemma sb_opt_to_size_number:
  assumes "opt_values opt = v # vs" "val_data v = print_dec m @ s" "s = [] \<or> \<not> isdigit (hd s)"
  shows "sb_opt_to_size opt = (case size_suffix s of None \<Rightarrow> 0 | Some k \<Rightarrow> of_nat m * 1024 ^ k)"
proof (cases s)
  case Nil
  then show ?thesis
    using assms size_digits_print_dec [of m "[]"] by (simp add: sb_opt_to_size_def size_suffix_def)
next
  case (Cons c cs)
  have "of_char c < (256 :: int)"
    by (simp add: of_char_def)
  then have "schar c < 48 \<or> 57 < schar c"
    using assms(3) Cons of_nat_of_char [of c, where ?'a = int]
    by (auto simp: isdigit_def schar_def Let_def simp del: of_nat_of_char)
  then have "size_digits 0 0 (val_data v) = (of_nat m, 2, c)"
    using assms(2) Cons by (auto simp: size_digits_print_dec)
  then show ?thesis
    using assms(1) Cons
    by (auto simp: sb_opt_to_size_def size_suffix_def sizemods_def toupper_letter funpow_times_1024 Let_def mult.assoc)
qed

section \<open>Lemmas: sequences of settings\<close>

text \<open>Settings applied one after the other, as the command line does.\<close>

definition set_options :: "file_system \<Rightarrow> (string \<times> string option \<times> sb_arg_type_t) list \<Rightarrow> options \<Rightarrow> options"
where
  "set_options fs = fold (\<lambda>(n, w) opts. fst (set_option fs n (fst w) (snd w) opts))"

definition unvalidated :: "options \<Rightarrow> string \<Rightarrow> bool" where
  "unvalidated opts n = (case sb_find_option opts n of None \<Rightarrow> True | Some opt \<Rightarrow> opt_validate opt = None)"

lemma unvalidated_accepts: "unvalidated opts n \<Longrightarrow> \<not> rejects (entry_or_new k (sb_find_option opts n)) k val"
  by (auto simp: unvalidated_def rejects_def entry_or_new_def new_option_def split: option.splits)

lemma set_options_puts: "set_options fs ss opts = option_store.puts fs ss opts"
  by (simp add: set_options_def option_store.puts_def)

lemma fold_set_spec_validate:
  "opt_validate (entry_or_new j (fold (\<lambda>(k, w) v. Some (set_spec k w v)) kws v0)) = opt_validate (entry_or_new j v0)"
  by (induction kws arbitrary: v0) (auto simp: set_spec_def Let_def entry_or_new_def new_option_def split: option.split)

lemma fold_set_spec_last:
  assumes "kws \<noteq> []" "last kws = (k, val, type)" "opt_validate (entry_or_new k v0) = None"
  shows "map_option sb_opt_to_list (fold (\<lambda>(k, w) v. Some (set_spec k w v)) kws v0) = Some (values_for type val)"
proof -
  obtain ks where kws: "kws = ks @ [(k, val, type)]"
    using assms(1,2) by (metis append_butlast_last_id)
  let ?v = "fold (\<lambda>(k, w) v. Some (set_spec k w v)) ks v0"
  have "\<not> rejects (entry_or_new k ?v) k val"
    using fold_set_spec_validate [of k ks v0] assms(3) by (simp add: rejects_def)
  then show ?thesis
    by (simp add: kws sb_opt_to_list_def opt_values_set_spec comp_def)
qed

lemma opt_name_set_spec:
  assumes "opts_wf opts" "c_string n" "c_string n'" "convert_dashes n' = convert_dashes n"
  shows "opt_name (set_spec n w (sb_find_option opts n')) = convert_dashes n"
proof (cases "sb_find_option opts n'")
  case None
  then show ?thesis by (simp add: set_spec_def entry_or_new_def Let_def)
next
  case (Some opt)
  then obtain i where "find_option opts n' = Some i" "opts ! i = opt"
    by (auto simp: sb_find_option_def)
  with find_option_Some(2) [OF assms(1,3) this(1)] show ?thesis
    using assms(4) Some by (simp add: set_spec_def entry_or_new_def Let_def)
qed

section \<open>Properties\<close>





text \<open>
  An integer option set from the decimal text of a number reads back as
  that number when it fits a C \<open>int\<close>; for any other number the getter ends the program
  instead of returning a truncated value.
\<close>

theorem int_option_value:
  assumes "opts_wf opts" "c_string n" "c_string n'" "convert_dashes n' = convert_dashes n" "unvalidated opts n'"
  shows "sb_get_value_int (fst (set_option fs n (Some (print_int i)) SB_ARG_TYPE_INT opts)) n' =
    (if INT_MIN \<le> i \<and> i \<le> INT_MAX then Inr i
     else Inl (Invalid_value (convert_dashes n) (print_int i)))"
proof -
  let ?o = "set_spec n (Some (print_int i), SB_ARG_TYPE_INT) (sb_find_option opts n')"
  have "opt_values ?o = [new_value\<lparr>val_data := print_int i\<rparr>]"
    using opt_values_set_spec [OF unvalidated_accepts [OF assms(5)]] by simp
  moreover have "opt_name ?o = convert_dashes n"
    by (rule opt_name_set_spec [OF assms(1-4)])
  ultimately have "sb_opt_to_int ?o = (if INT_MIN \<le> i \<and> i \<le> INT_MAX then Inr i
      else Inl (Invalid_value (convert_dashes n) (print_int i)))"
    by (simp add: sb_opt_to_int_def strtol_print_int) (auto simp: c_limits)
  then show ?thesis
    by (simp add: getters_find sb_find_option_set assms)
qed

theorem int_option_value_witness:
  "sb_get_value_int (fst (set_option Map.empty ''rand-seed'' (Some (print_int (- 5))) SB_ARG_TYPE_INT [])) ''rand_seed'' = Inr (- 5)
   \<and> sb_get_value_int (fst (set_option Map.empty ''rand-seed'' (Some (print_int 3000000000)) SB_ARG_TYPE_INT [])) ''rand_seed''
     = Inl (Invalid_value ''rand_seed'' (print_int 3000000000))"
  using int_option_value [of "[]" "''rand-seed''" "''rand_seed''" Map.empty "- 5"]
    int_option_value [of "[]" "''rand-seed''" "''rand_seed''" Map.empty 3000000000]
  by (simp add: opts_wf_def unvalidated_def sb_find_option_def find_option_def c_limits)

text \<open>
  A size option set from decimal digits with an optional modifier
  letter, in either case, reads back as the number times the power of 1024 of the modifier,
  modulo \<open>2^64\<close>; an unknown modifier gives 0.
\<close>

theorem size_option_value:
  assumes "opts_wf opts" "c_string n" "c_string n'" "convert_dashes n' = convert_dashes n" "unvalidated opts n'"
    and "s = [] \<or> \<not> isdigit (hd s)"
  shows "unat (sb_get_value_size (fst (set_option fs n (Some (print_dec m @ s)) SB_ARG_TYPE_SIZE opts)) n') =
    (case size_suffix s of None \<Rightarrow> 0 | Some k \<Rightarrow> m * 1024 ^ k mod 2 ^ 64)"
proof -
  let ?o = "set_spec n (Some (print_dec m @ s), SB_ARG_TYPE_SIZE) (sb_find_option opts n')"
  have "opt_values ?o = [new_value\<lparr>val_data := print_dec m @ s\<rparr>]"
    using opt_values_set_spec [OF unvalidated_accepts [OF assms(5)]] by simp
  then have o: "sb_opt_to_size ?o = (case size_suffix s of None \<Rightarrow> 0 | Some k \<Rightarrow> of_nat m * 1024 ^ k)"
    by (rule sb_opt_to_size_number) (use assms(6) in simp_all)
  have "unat (of_nat m * 1024 ^ k :: u64) = m * 1024 ^ k mod 2 ^ 64" for k
    using unat_of_nat [of "m * 1024 ^ k", where ?'a = 64] by simp
  with o show ?thesis
    by (simp add: getters_find sb_find_option_set assms split: option.split)
qed

theorem size_option_value_witness:
  "unat (sb_get_value_size (fst (set_option Map.empty ''file-total-size'' (Some (print_dec 2 @ ''G'')) SB_ARG_TYPE_SIZE [])) ''file_total_size'')
     = 2147483648"
  using size_option_value [of "[]" "''file-total-size''" "''file_total_size''" "''G''" Map.empty 2]
  by (simp add: opts_wf_def unvalidated_def sb_find_option_def find_option_def size_suffix_def isdigit_def)

text \<open>
  C29 (config_file_read): a configuration file made of lines \<open>name=value,value,...\<close> that fit the
  line buffer is read to its end, and every line replaces the values of the option it names, in
  the order of the file, and of no other option.
\<close>

theorem config_file_read:
  assumes "opts_wf opts" "\<forall>e \<in> set es. config_entry_ok e" "fs f = Some (config_file es)"
  shows "opts_wf (read_config_file fs f opts) \<and>
    abs_options (read_config_file fs f opts) = fold config_spec es (abs_options opts) \<and>
    snd (read_config (config_file es) opts)"
  using read_config_refines [OF assms(1,2)] assms(3) by (simp add: read_config_file_def)

theorem config_file_read_witness:
  "abs_options (read_config_file [''my.cnf'' \<mapsto> ''mysql-host=db1,db2'' @ [newline]] ''my.cnf'' []) ''mysql_host'' =
     Some (new_option\<lparr>opt_name := ''mysql_host'', opt_values :=
       [\<lparr>val_data = ''db1'', val_ignore = False\<rparr>, \<lparr>val_data = ''db2'', val_ignore = False\<rparr>]\<rparr>)"
proof -
  have "config_entry_ok (''mysql-host'', [''db1'', ''db2''])"
    by (simp add: config_entry_ok_def config_line_def plain_value_def isspace_def MAXSTRLEN_def)
  moreover have "opts_wf []" by (simp add: opts_wf_def)
  moreover have f: "config_file [(''mysql-host'', [''db1'', ''db2''])] = ''mysql-host=db1,db2'' @ [newline]"
    by (simp add: config_file_def config_line_def)
  ultimately show ?thesis
    using config_file_read [of "[]" "[(''mysql-host'', [''db1'', ''db2''])]"
      "[''my.cnf'' \<mapsto> ''mysql-host=db1,db2'' @ [newline]]" "''my.cnf''"]
    by (simp add: config_spec_def entry_or_new_def abs_options_def new_value_def)
qed

end
