(* ===== verification/SB_Util.thy ===== *)
theory SB_Util
  imports SB_Prelude
begin

text \<open>
  Alignment macros of \<open>src/src/sb_util.h\<close> and the per-thread arrays that \<open>sysbench.c\<close>
  allocates for timers, counters and generator states.
\<close>

unbundle bit_operations_syntax

definition SB_ALIGN :: "u64 \<Rightarrow> u64 \<Rightarrow> u64" where
  "SB_ALIGN n m = (n + (m - 1)) AND NOT (m - 1)"

definition SB_PAD :: "u64 \<Rightarrow> u64 \<Rightarrow> u64" where
  "SB_PAD n m = SB_ALIGN n m - n"

text \<open>\<open>CK_MD_CACHELINE\<close> is 64 on the platforms the sources name.\<close>

definition SB_CACHELINE_PAD :: "u64 \<Rightarrow> u64" where
  "SB_CACHELINE_PAD n = SB_PAD n 64"

text \<open>
  One zeroed element per worker thread and one more, at index \<open>threads\<close>, shared by the
  background threads.
\<close>

definition sb_alloc_per_thread_array :: "nat \<Rightarrow> 'a \<Rightarrow> 'a list" where
  "sb_alloc_per_thread_array threads z = replicate (threads + 1) z"

lemma and_not_mask_word: "x AND NOT (mask k) = (x :: u64) - take_bit k x"
proof -
  have "x AND NOT (mask k) = push_bit k (drop_bit k x)"
    by (rule bit_eqI) (auto simp: bit_simps)
  then show ?thesis
    by (metis add_diff_cancel_right' bits_ident)
qed

lemma SB_ALIGN_value:
  assumes "k < 64" "unat n + 2 ^ k \<le> 2 ^ 64"
  shows "unat (SB_ALIGN n (2 ^ k)) = (unat n + (2 ^ k - 1)) div 2 ^ k * 2 ^ k"
proof -
  have m: "(2 ^ k - 1 :: u64) = mask k"
    by (simp add: mask_eq_decr_exp)
  have um: "unat (mask k :: u64) = 2 ^ k - 1"
  proof -
    have "(2 ^ k - 1 :: nat) < 2 ^ 64"
      using assms(1) power_strict_increasing [of k 64 "2 :: nat"] by linarith
    then show ?thesis
      using unat_of_nat [of "2 ^ k - 1", where ?'a = 64]
      by (simp add: mask_eq_exp_minus_1 of_nat_diff)
  qed
  let ?x = "n + mask k"
  have x: "unat ?x = unat n + (2 ^ k - 1)"
    using assms(2) um by (subst unat_add_lem [THEN iffD1]) simp_all
  have "unat (SB_ALIGN n (2 ^ k)) = unat (?x - take_bit k ?x)"
    by (simp add: SB_ALIGN_def m and_not_mask_word)
  also have "\<dots> = unat ?x - unat (take_bit k ?x)"
    by (intro unat_sub) (simp add: word_le_nat_alt unsigned_take_bit_eq)
  also have "\<dots> = unat ?x - unat ?x mod 2 ^ k"
    by (simp only: unsigned_take_bit_eq take_bit_eq_mod [where ?'a = nat])
  also have "\<dots> = unat ?x div 2 ^ k * 2 ^ k"
    by (simp add: minus_mod_eq_div_mult)
  finally show ?thesis
    by (simp add: x)
qed

lemma SB_ALIGN_least:
  assumes "k < 64" "unat n + 2 ^ k \<le> 2 ^ 64"
  shows "unat n \<le> unat (SB_ALIGN n (2 ^ k))" and "2 ^ k dvd unat (SB_ALIGN n (2 ^ k))"
    and "unat n \<le> j \<Longrightarrow> 2 ^ k dvd j \<Longrightarrow> unat (SB_ALIGN n (2 ^ k)) \<le> j"
proof -
  let ?m = "2 ^ k :: nat"
  have v: "unat (SB_ALIGN n (2 ^ k)) = (unat n + (?m - 1)) div ?m * ?m"
    by (rule SB_ALIGN_value [OF assms])
  have d: "(unat n + (?m - 1)) div ?m * ?m + (unat n + (?m - 1)) mod ?m = unat n + (?m - 1)"
    by (rule div_mult_mod_eq)
  have "(unat n + (?m - 1)) mod ?m \<le> ?m - 1"
    by (metis Suc_pred' less_Suc_eq_le mod_less_divisor zero_less_power zero_less_numeral)
  with d v show "unat n \<le> unat (SB_ALIGN n (2 ^ k))"
    by linarith
  show "2 ^ k dvd unat (SB_ALIGN n (2 ^ k))"
    by (simp add: v)
  assume "unat n \<le> j" "2 ^ k dvd j"
  then obtain q where q: "j = ?m * q" by blast
  have "unat n + (?m - 1) < ?m * q + ?m"
    using \<open>unat n \<le> j\<close> q zero_less_power [of "2 :: nat" k] by linarith
  then have "(unat n + (?m - 1)) div ?m < q + 1"
    by (simp add: less_mult_imp_div_less distrib_left mult.commute)
  then show "unat (SB_ALIGN n (2 ^ k)) \<le> j"
    by (simp add: v q)
qed

end
