(* ===== verification/SB_Counter.thy ===== *)
theory SB_Counter
  imports SB_Util
begin

text \<open>
  Per-thread event counters, \<open>src/src/sb_counter.c\<close> and \<open>src/src/sb_counter.h\<close>: one array of
  64-bit counters per worker thread, and the two aggregation routines that return what was
  counted since their previous call.

  A worker only writes its own counters, and every read of a counter is one atomic load; the
  aggregation therefore takes the function of the values its loads return, which need not come
  from a single moment when the workers are running.
\<close>

section \<open>Data\<close>

datatype sb_counter_type_t =
    SB_CNT_OTHER
  | SB_CNT_READ
  | SB_CNT_WRITE
  | SB_CNT_EVENT
  | SB_CNT_ERROR
  | SB_CNT_RECONNECT
  | SB_CNT_BYTES_READ
  | SB_CNT_BYTES_WRITTEN

definition SB_CNT_MAX :: nat where
  "SB_CNT_MAX = 8"

fun cnt_index :: "sb_counter_type_t \<Rightarrow> nat" where
  "cnt_index SB_CNT_OTHER = 0"
| "cnt_index SB_CNT_READ = 1"
| "cnt_index SB_CNT_WRITE = 2"
| "cnt_index SB_CNT_EVENT = 3"
| "cnt_index SB_CNT_ERROR = 4"
| "cnt_index SB_CNT_RECONNECT = 5"
| "cnt_index SB_CNT_BYTES_READ = 6"
| "cnt_index SB_CNT_BYTES_WRITTEN = 7"

type_synonym sb_counters_t = "u64 list"

text \<open>The two static arrays of the last reports.\<close>

record report_state =
  last_intermediate_counters :: sb_counters_t
  last_cumulative_counters :: sb_counters_t

section \<open>Operations\<close>

definition sb_counters_init :: "nat \<Rightarrow> sb_counters_t list" where
  "sb_counters_init threads = sb_alloc_per_thread_array threads (replicate SB_CNT_MAX 0)"

definition sb_counter_val :: "sb_counters_t list \<Rightarrow> nat \<Rightarrow> nat \<Rightarrow> u64" where
  "sb_counter_val cs thread_id type = cs ! thread_id ! type"

definition sb_counter_add :: "nat \<Rightarrow> sb_counter_type_t \<Rightarrow> u64 \<Rightarrow> sb_counters_t list \<Rightarrow> sb_counters_t list" where
  "sb_counter_add thread_id type val cs =
     cs[thread_id := (cs ! thread_id)[cnt_index type := sb_counter_val cs thread_id (cnt_index type) + val]]"

definition sb_counter_inc :: "nat \<Rightarrow> sb_counter_type_t \<Rightarrow> sb_counters_t list \<Rightarrow> sb_counters_t list" where
  "sb_counter_inc thread_id type = sb_counter_add thread_id type 1"

text \<open>\<open>val i t\<close> is what the load of counter \<open>t\<close> of thread \<open>i\<close> returns.\<close>

definition sb_counters_merge :: "nat \<Rightarrow> (nat \<Rightarrow> nat \<Rightarrow> u64) \<Rightarrow> sb_counters_t \<Rightarrow> sb_counters_t" where
  "sb_counters_merge threads val dst =
     fold (\<lambda>t dst. fold (\<lambda>i dst. dst[t := dst ! t + val i t]) [0..<threads] dst) [0..<SB_CNT_MAX] dst"

definition sb_counters_checkpoint :: "sb_counters_t \<Rightarrow> sb_counters_t \<Rightarrow> sb_counters_t \<times> sb_counters_t" where
  "sb_counters_checkpoint dst cp =
     fold (\<lambda>i (dst, cp). (dst[i := dst ! i - cp ! i], cp[i := dst ! i])) [0..<SB_CNT_MAX] (dst, cp)"

definition sb_counters_agg_intermediate ::
  "nat \<Rightarrow> (nat \<Rightarrow> nat \<Rightarrow> u64) \<Rightarrow> report_state \<Rightarrow> report_state \<times> sb_counters_t"
where
  "sb_counters_agg_intermediate threads val s =
     (let dst = sb_counters_merge threads val (replicate SB_CNT_MAX 0);
          (dst, cp) = sb_counters_checkpoint dst (last_intermediate_counters s)
      in (s\<lparr>last_intermediate_counters := cp\<rparr>, dst))"

definition sb_counters_agg_cumulative ::
  "nat \<Rightarrow> (nat \<Rightarrow> nat \<Rightarrow> u64) \<Rightarrow> report_state \<Rightarrow> report_state \<times> sb_counters_t"
where
  "sb_counters_agg_cumulative threads val s =
     (let dst = sb_counters_merge threads val (replicate SB_CNT_MAX 0);
          (dst, cp) = sb_counters_checkpoint dst (last_cumulative_counters s)
      in (s\<lparr>last_cumulative_counters := cp\<rparr>, dst))"

section \<open>Runs\<close>

text \<open>A sequence of reports of both kinds; each sees its own loads.\<close>

datatype report_kind = Intermediate | Cumulative

fun report :: "nat \<Rightarrow> report_kind \<times> (nat \<Rightarrow> nat \<Rightarrow> u64) \<Rightarrow> report_state \<Rightarrow> report_state \<times> sb_counters_t" where
  "report threads (Intermediate, val) s = sb_counters_agg_intermediate threads val s"
| "report threads (Cumulative, val) s = sb_counters_agg_cumulative threads val s"

fun last_of :: "report_kind \<Rightarrow> report_state \<Rightarrow> sb_counters_t" where
  "last_of Intermediate s = last_intermediate_counters s"
| "last_of Cumulative s = last_cumulative_counters s"

fun reports :: "nat \<Rightarrow> (report_kind \<times> (nat \<Rightarrow> nat \<Rightarrow> u64)) list \<Rightarrow> report_state \<Rightarrow> (report_kind \<times> sb_counters_t) list" where
  "reports threads [] s = []"
| "reports threads (r # rs) s =
     (let (s', out) = report threads r s in (fst r, out) # reports threads rs s')"

definition report_state0 :: report_state where
  "report_state0 = \<lparr>last_intermediate_counters = replicate SB_CNT_MAX 0,
     last_cumulative_counters = replicate SB_CNT_MAX 0\<rparr>"

text \<open>What the workers add, as a sequence of \<open>sb_counter_add\<close> calls.\<close>

definition counter_run :: "(nat \<times> sb_counter_type_t \<times> u64) list \<Rightarrow> sb_counters_t list \<Rightarrow> sb_counters_t list" where
  "counter_run adds cs = fold (\<lambda>(i, t, v). sb_counter_add i t v) adds cs"

definition counters_wf :: "nat \<Rightarrow> sb_counters_t list \<Rightarrow> bool" where
  "counters_wf threads cs \<longleftrightarrow> length cs = threads + 1 \<and> (\<forall>c \<in> set cs. length c = SB_CNT_MAX)"

section \<open>Lemmas\<close>

lemma cnt_index_less [simp]: "cnt_index t < SB_CNT_MAX"
  by (cases t) (simp_all add: SB_CNT_MAX_def)

lemma cnt_index_inj [simp]: "cnt_index t = cnt_index t' \<longleftrightarrow> t = t'"
  by (cases t; cases t') simp_all

lemma counters_wf_init [simp]: "counters_wf threads (sb_counters_init threads)"
  by (simp add: counters_wf_def sb_counters_init_def sb_alloc_per_thread_array_def)

lemma counters_wf_add [simp]: "counters_wf threads cs \<Longrightarrow> i \<le> threads \<Longrightarrow> counters_wf threads (sb_counter_add i t v cs)"
  by (auto simp: counters_wf_def sb_counter_add_def dest!: set_update_subset_insert [THEN subsetD])

lemma sb_counter_val_add:
  assumes "counters_wf threads cs" "i \<le> threads"
  shows "sb_counter_val (sb_counter_add i t v cs) i' (cnt_index t') =
    sb_counter_val cs i' (cnt_index t') + (if i' = i \<and> t' = t then v else 0)"
  using assms by (cases "i' = i"; cases "t' = t")
    (simp_all add: sb_counter_val_def sb_counter_add_def counters_wf_def nth_list_update)

lemma fold_add_at:
  fixes dst :: sb_counters_t
  assumes "t < length dst"
  shows "fold (\<lambda>i dst. dst[t := dst ! t + f i]) is dst = dst[t := dst ! t + sum_list (map f is)]"
  using assms by (induction "is" arbitrary: dst) (simp_all add: add.assoc)

lemma length_sb_counters_merge [simp]: "length (sb_counters_merge threads val dst) = length dst"
  unfolding sb_counters_merge_def by (intro length_fold_update) simp

lemma sb_counters_merge_nth:
  assumes "length dst = SB_CNT_MAX" "k < SB_CNT_MAX"
  shows "sb_counters_merge threads val dst ! k = dst ! k + sum_list (map (\<lambda>i. val i k) [0..<threads])"
proof -
  have "fold (\<lambda>t dst. fold (\<lambda>i dst. dst[t := dst ! t + val i t]) [0..<threads] dst) ts dst =
      fold (\<lambda>t dst. dst[t := dst ! t + sum_list (map (\<lambda>i. val i t) [0..<threads])]) ts dst"
    if "set ts \<subseteq> {..<length dst}" for ts
    using that
  proof (induction ts arbitrary: dst)
    case (Cons t ts)
    then show ?case
      using fold_add_at [of t dst "\<lambda>i. val i t"] by simp
  qed simp
  moreover have "set [0..<SB_CNT_MAX] \<subseteq> {..<length dst}"
    using assms(1) by auto
  ultimately show ?thesis
    unfolding sb_counters_merge_def using assms by (simp add: fold_add_points)
qed

lemma sb_counters_checkpoint_nth:
  assumes "length dst = SB_CNT_MAX" "length cp = SB_CNT_MAX" "sb_counters_checkpoint dst cp = (d, c)"
  shows "length d = SB_CNT_MAX" and "c = dst" and "k < SB_CNT_MAX \<Longrightarrow> d ! k = dst ! k - cp ! k"
proof -
  let ?f = "\<lambda>i (dst, cp). (dst[i := dst ! i - cp ! i], cp[i := dst ! i]) :: sb_counters_t \<times> sb_counters_t"
  define P where "P n = fold ?f [0..<n] (dst, cp)" for n
  have step: "P (Suc n) = ?f n (P n)" for n
    by (simp add: P_def)
  have "length (fst (P n)) = SB_CNT_MAX \<and> length (snd (P n)) = SB_CNT_MAX \<and>
      (\<forall>k < SB_CNT_MAX. fst (P n) ! k = (if k < n then dst ! k - cp ! k else dst ! k) \<and>
        snd (P n) ! k = (if k < n then dst ! k else cp ! k))" if "n \<le> SB_CNT_MAX" for n
    using that
  proof (induction n)
    case 0
    then show ?case using assms by (simp add: P_def)
  next
    case (Suc n)
    then show ?case
      by (auto simp: step case_prod_beta nth_list_update)
  qed
  from this [of SB_CNT_MAX] have "length d = SB_CNT_MAX \<and> length c = SB_CNT_MAX \<and>
      (\<forall>k < SB_CNT_MAX. d ! k = dst ! k - cp ! k \<and> c ! k = dst ! k)"
    using assms(3) by (simp add: P_def sb_counters_checkpoint_def)
  then show "length d = SB_CNT_MAX" "c = dst" "k < SB_CNT_MAX \<Longrightarrow> d ! k = dst ! k - cp ! k"
    using assms(1) by (simp_all add: nth_equalityI)
qed

definition report_wf :: "report_state \<Rightarrow> bool" where
  "report_wf s \<longleftrightarrow> (\<forall>k. length (last_of k s) = SB_CNT_MAX)"

lemma report_step:
  assumes "report_wf s" "report threads (kind, val) s = (s', out)"
  shows "report_wf s'" and "kind' \<noteq> kind \<Longrightarrow> last_of kind' s' = last_of kind' s"
    and "t < SB_CNT_MAX \<Longrightarrow> last_of kind s' ! t = sum_list (map (\<lambda>i. val i t) [0..<threads])"
    and "t < SB_CNT_MAX \<Longrightarrow> out ! t = last_of kind s' ! t - last_of kind s ! t"
proof -
  let ?dst = "sb_counters_merge threads val (replicate SB_CNT_MAX 0)"
  obtain d c where cp: "sb_counters_checkpoint ?dst (last_of kind s) = (d, c)"
    by (cases "sb_counters_checkpoint ?dst (last_of kind s)")
  note cps = sb_counters_checkpoint_nth [OF _ _ cp]
  have len: "length (last_of k s) = SB_CNT_MAX" for k
    using assms(1) by (simp add: report_wf_def)
  have m: "?dst ! t = sum_list (map (\<lambda>i. val i t) [0..<threads])" if "t < SB_CNT_MAX" for t
    using that by (simp add: sb_counters_merge_nth)
  have c: "c = ?dst"
    by (rule cps(2)) (simp_all add: len)
  have r: "out = d \<and> last_of kind s' = ?dst \<and> (\<forall>k. k \<noteq> kind \<longrightarrow> last_of k s' = last_of k s)"
  proof (cases kind)
    case Intermediate
    then have "s' = s\<lparr>last_intermediate_counters := ?dst\<rparr>" "out = d"
      using assms(2) cp c by (simp_all add: sb_counters_agg_intermediate_def)
    moreover have "last_of k (s\<lparr>last_intermediate_counters := x\<rparr>) = last_of k s" if "k \<noteq> Intermediate" for k x
      using that by (cases k) auto
    ultimately show ?thesis using Intermediate by simp
  next
    case Cumulative
    then have "s' = s\<lparr>last_cumulative_counters := ?dst\<rparr>" "out = d"
      using assms(2) cp c by (simp_all add: sb_counters_agg_cumulative_def)
    moreover have "last_of k (s\<lparr>last_cumulative_counters := x\<rparr>) = last_of k s" if "k \<noteq> Cumulative" for k x
      using that by (cases k) auto
    ultimately show ?thesis using Cumulative by simp
  qed
  then have r: "out = d" "last_of kind s' = ?dst" "\<And>k. k \<noteq> kind \<Longrightarrow> last_of k s' = last_of k s"
    by blast+
  show "report_wf s'"
    unfolding report_wf_def using r(2,3) len by (metis length_replicate length_sb_counters_merge)
  show "kind' \<noteq> kind \<Longrightarrow> last_of kind' s' = last_of kind' s"
    by (rule r(3))
  show "t < SB_CNT_MAX \<Longrightarrow> last_of kind s' ! t = sum_list (map (\<lambda>i. val i t) [0..<threads])"
    using m r(2) by simp
  show "t < SB_CNT_MAX \<Longrightarrow> out ! t = last_of kind s' ! t - last_of kind s ! t"
    using r(1,2) cps(3) len by simp
qed

lemma reports_telescope:
  assumes "report_wf s" "t < SB_CNT_MAX"
  shows "sum_list (map (\<lambda>(k, out). out ! t) (filter (\<lambda>(k, out). k = kind) (reports threads (rs @ [(kind, val)]) s))) =
    sum_list (map (\<lambda>i. val i t) [0..<threads]) - last_of kind s ! t"
  using assms(1)
proof (induction rs arbitrary: s)
  case Nil
  obtain s' out where r: "report threads (kind, val) s = (s', out)"
    by (cases "report threads (kind, val) s")
  with report_step [OF Nil r] assms(2) show ?case
    by simp
next
  case (Cons r rs)
  obtain k v where k: "r = (k, v)" by force
  obtain s' out where r: "report threads (k, v) s = (s', out)"
    by (cases "report threads (k, v) s")
  note st = report_step [OF Cons.prems r]
  show ?case
    using Cons.IH [OF st(1)] st(2) [of kind] st(4) [of t] assms(2) k r
    by (cases "k = kind") (simp_all add: case_prod_beta)
qed

lemma counter_run_wf:
  "counters_wf threads cs \<Longrightarrow> \<forall>(i, t, v) \<in> set adds. i \<le> threads \<Longrightarrow> counters_wf threads (counter_run adds cs)"
  by (induction adds arbitrary: cs) (auto simp: counter_run_def)

lemma counter_run_val:
  assumes "counters_wf threads cs" "\<forall>(i, t, v) \<in> set adds. i \<le> threads"
  shows "sb_counter_val (counter_run adds cs) j (cnt_index ty) =
    sb_counter_val cs j (cnt_index ty) + sum_list (map (\<lambda>(i, t, v). v) (filter (\<lambda>(i, t, v). i = j \<and> t = ty) adds))"
  using assms
proof (induction adds arbitrary: cs)
  case (Cons a adds)
  obtain i t v where a: "a = (i, t, v)" by (metis prod_cases3)
  have "counters_wf threads (sb_counter_add i t v cs)" "\<forall>(i, t, v) \<in> set adds. i \<le> threads"
    using Cons.prems a by auto
  from Cons.IH [OF this] show ?case
    using Cons.prems a sb_counter_val_add [of threads cs i t v j ty]
    by (auto simp: counter_run_def add.assoc)
qed (simp add: counter_run_def)

lemma sum_over_threads:
  fixes adds :: "(nat \<times> sb_counter_type_t \<times> u64) list"
  shows "sum_list (map (\<lambda>j. sum_list (map (\<lambda>(i, t, v). v) (filter (\<lambda>(i, t, v). i = j \<and> t = ty) adds))) [0..<threads]) =
    sum_list (map (\<lambda>(i, t, v). v) (filter (\<lambda>(i, t, v). i < threads \<and> t = ty) adds))"
proof (induction threads)
  case (Suc n)
  have "sum_list (map (\<lambda>(i, t, v). v) (filter (\<lambda>(i, t, v). i < Suc n \<and> t = ty) adds)) =
      sum_list (map (\<lambda>(i, t, v). v) (filter (\<lambda>(i, t, v). i < n \<and> t = ty) adds)) +
      sum_list (map (\<lambda>(i, t, v). v) (filter (\<lambda>(i, t, v). i = n \<and> t = ty) adds))"
    by (induction adds) (auto simp: less_Suc_eq)
  with Suc show ?case by simp
qed simp

lemma sb_counter_val_init [simp]:
  "i \<le> threads \<Longrightarrow> t < SB_CNT_MAX \<Longrightarrow> sb_counter_val (sb_counters_init threads) i t = 0"
  by (simp add: sb_counter_val_def sb_counters_init_def sb_alloc_per_thread_array_def del: replicate_Suc)

section \<open>Properties\<close>

text \<open>
  C20 (counter_reports_conserve): take any sequence of intermediate and cumulative reports, made
  while the workers run, so with arbitrary values returned by their loads, that ends in a report
  of a given kind once the workers have stopped.  The values returned by all reports of that
  kind add up, modulo \<open>2^64\<close>, to everything the worker threads added to the counter: no event is
  lost or reported twice, reports of the other kind do not disturb it, and what background
  threads added (slot \<open>threads\<close>) is left out.
\<close>

theorem counter_reports_conserve:
  assumes "\<forall>(i, t, v) \<in> set adds. i \<le> threads"
  shows "sum_list (map (\<lambda>(k, out). out ! cnt_index ty) (filter (\<lambda>(k, out). k = kind)
      (reports threads (rs @ [(kind, sb_counter_val (counter_run adds (sb_counters_init threads)))]) report_state0)))
    = sum_list (map (\<lambda>(i, t, v). v) (filter (\<lambda>(i, t, v). i < threads \<and> t = ty) adds))"
proof -
  have wf: "report_wf report_state0"
    unfolding report_wf_def by (intro allI, case_tac k) (simp_all add: report_state0_def)
  have l: "last_of kind report_state0 ! cnt_index ty = 0"
    by (cases kind) (simp_all add: report_state0_def)
  have v: "sum_list (map (\<lambda>j. sb_counter_val (counter_run adds (sb_counters_init threads)) j (cnt_index ty)) [0..<threads])
      = sum_list (map (\<lambda>j. sum_list (map (\<lambda>(i, t, v). v) (filter (\<lambda>(i, t, v). i = j \<and> t = ty) adds))) [0..<threads])"
    using counter_run_val [OF counters_wf_init assms] by (intro arg_cong [where f = sum_list] map_cong) auto
  show ?thesis
    unfolding reports_telescope [OF wf cnt_index_less] l v sum_over_threads by (rule diff_zero)
qed

theorem counter_reports_conserve_witness:
  "sum_list (map (\<lambda>(k, out). out ! cnt_index SB_CNT_READ) (filter (\<lambda>(k, out). k = Intermediate)
     (reports 2 ([(Intermediate, \<lambda>i t. 5), (Cumulative, \<lambda>i t. 6)] @
       [(Intermediate, sb_counter_val (counter_run
          [(0, SB_CNT_READ, 7), (1, SB_CNT_READ, 3), (2, SB_CNT_READ, 100)] (sb_counters_init 2)))]) report_state0))) = 10"
  by (subst counter_reports_conserve) simp_all

end
