(* ===== verification/SB_Timer.thy ===== *)
theory SB_Timer
  imports SB_Util
begin

text \<open>
  Timers, \<open>src/src/sb_timer.c\<close> and \<open>src/src/sb_timer.h\<close>.  Every operation runs under the
  timer's spinlock, so it is one step of the model; the clock reading of \<open>SB_GETTIME\<close> is the
  argument \<open>now\<close>.  All sums are 64-bit words that wrap.

  A timer stands for the list of the event durations recorded since its last reset
  (\<open>timer_rep\<close>); merging the timers of all threads stands for the concatenation.
\<close>

section \<open>Data\<close>

record timespec =
  tv_sec :: int
  tv_nsec :: int

record sb_timer_t =
  time_start :: timespec
  time_end :: timespec
  tm_events :: u64
  queue_time :: u64
  min_time :: u64
  max_time :: u64
  sum_time :: u64

definition NS_PER_SEC :: u64 where
  "NS_PER_SEC = 1000000000"

definition SEC2NS :: "int \<Rightarrow> u64" where
  "SEC2NS sec = word_of_int sec * NS_PER_SEC"

definition TIMESPEC_DIFF :: "timespec \<Rightarrow> timespec \<Rightarrow> u64" where
  "TIMESPEC_DIFF a b = SEC2NS (tv_sec a - tv_sec b) + word_of_int (tv_nsec a - tv_nsec b)"

section \<open>Operations\<close>

definition sb_nanosleep_ts :: "u64 \<Rightarrow> timespec" where
  "sb_nanosleep_ts ns = \<lparr>tv_sec = uint (ns div NS_PER_SEC), tv_nsec = uint (ns mod NS_PER_SEC)\<rparr>"

definition sb_timer_reset :: "sb_timer_t \<Rightarrow> sb_timer_t" where
  "sb_timer_reset t = t\<lparr>min_time := - 1, max_time := 0, sum_time := 0, tm_events := 0, queue_time := 0\<rparr>"

definition sb_timer_init :: "sb_timer_t \<Rightarrow> sb_timer_t" where
  "sb_timer_init t = sb_timer_reset
     (t\<lparr>time_start := \<lparr>tv_sec = 0, tv_nsec = 0\<rparr>, time_end := \<lparr>tv_sec = 0, tv_nsec = 0\<rparr>\<rparr>)"

definition sb_timer_copy :: "sb_timer_t \<Rightarrow> sb_timer_t" where
  "sb_timer_copy from = from"

definition sb_timer_running :: "sb_timer_t \<Rightarrow> bool" where
  "sb_timer_running t \<longleftrightarrow> TIMESPEC_DIFF (time_start t) (time_end t) > 0"

definition sb_timer_start :: "timespec \<Rightarrow> sb_timer_t \<Rightarrow> sb_timer_t" where
  "sb_timer_start now t = t\<lparr>time_start := now\<rparr>"

definition sb_timer_stop :: "timespec \<Rightarrow> sb_timer_t \<Rightarrow> sb_timer_t \<times> u64" where
  "sb_timer_stop now t =
     (let t = t\<lparr>time_end := now\<rparr>;
          elapsed = TIMESPEC_DIFF (time_end t) (time_start t) + queue_time t;
          t = t\<lparr>tm_events := tm_events t + 1\<rparr>;
          t = t\<lparr>sum_time := sum_time t + elapsed\<rparr>;
          t = (if elapsed < min_time t then t\<lparr>min_time := elapsed\<rparr> else t);
          t = (if elapsed > max_time t then t\<lparr>max_time := elapsed\<rparr> else t)
      in (t, elapsed))"

definition sb_timer_value :: "timespec \<Rightarrow> sb_timer_t \<Rightarrow> u64" where
  "sb_timer_value now t = TIMESPEC_DIFF now (time_start t) + queue_time t"

definition sb_timer_current :: "timespec \<Rightarrow> sb_timer_t \<Rightarrow> sb_timer_t \<times> u64" where
  "sb_timer_current now t = (t\<lparr>time_start := now\<rparr>, TIMESPEC_DIFF now (time_start t))"

text \<open>The timer after the call, and the copy left in \<open>old\<close>.\<close>

definition sb_timer_checkpoint :: "sb_timer_t \<Rightarrow> sb_timer_t \<times> sb_timer_t" where
  "sb_timer_checkpoint t = (sb_timer_reset t, t)"

definition sb_timer_avg :: "sb_timer_t \<Rightarrow> u64" where
  "sb_timer_avg t = (if tm_events t = 0 then 0 else sum_time t div tm_events t)"

definition sb_timer_sum :: "sb_timer_t \<Rightarrow> u64" where
  "sb_timer_sum t = sum_time t"

definition sb_timer_min :: "sb_timer_t \<Rightarrow> u64" where
  "sb_timer_min t = (if tm_events t = 0 then 0 else min_time t)"

definition sb_timer_max :: "sb_timer_t \<Rightarrow> u64" where
  "sb_timer_max t = max_time t"

definition timer_zero :: sb_timer_t where
  "timer_zero = \<lparr>time_start = \<lparr>tv_sec = 0, tv_nsec = 0\<rparr>, time_end = \<lparr>tv_sec = 0, tv_nsec = 0\<rparr>,
     tm_events = 0, queue_time = 0, min_time = 0, max_time = 0, sum_time = 0\<rparr>"

definition sb_timer_merge :: "sb_timer_t \<Rightarrow> sb_timer_t \<Rightarrow> sb_timer_t" where
  "sb_timer_merge t1 t2 = timer_zero\<lparr>
     sum_time := sum_time t1 + sum_time t2,
     tm_events := tm_events t1 + tm_events t2,
     max_time := (if max_time t1 > max_time t2 then max_time t1 else max_time t2),
     min_time := (if min_time t1 < min_time t2 then min_time t1 else min_time t2)\<rparr>"

section \<open>What a timer stands for\<close>

definition ts_ns :: "timespec \<Rightarrow> int" where
  "ts_ns ts = tv_sec ts * 1000000000 + tv_nsec ts"

text \<open>The durations recorded since the last reset.\<close>

definition timer_rep :: "sb_timer_t \<Rightarrow> u64 list \<Rightarrow> bool" where
  "timer_rep t es \<longleftrightarrow> tm_events t = of_nat (length es) \<and> sum_time t = sum_list es \<and>
     min_time t = fold min es (- 1) \<and> max_time t = fold max es 0"

definition timer_record :: "timespec \<times> timespec \<Rightarrow> sb_timer_t \<Rightarrow> sb_timer_t" where
  "timer_record = (\<lambda>(start, stop) t. fst (sb_timer_stop stop (sb_timer_start start t)))"

definition elapsed_ns :: "timespec \<times> timespec \<Rightarrow> u64" where
  "elapsed_ns = (\<lambda>(start, stop). TIMESPEC_DIFF stop start)"

section \<open>Statistics that merge\<close>

text \<open>
  The contract the reports rely on: a statistic stands for a list of events, recording appends
  one, and merging two statistics stands for the concatenation.
\<close>

locale mergeable =
  fixes rep :: "'s \<Rightarrow> 'e list \<Rightarrow> bool"
    and empty :: 's
    and rec :: "'e \<Rightarrow> 's \<Rightarrow> 's"
    and merge :: "'s \<Rightarrow> 's \<Rightarrow> 's"
    and ready :: "'s \<Rightarrow> bool"
  assumes rep_empty: "rep empty []"
    and rep_rec: "rep s es \<Longrightarrow> ready s \<Longrightarrow> rep (rec e s) (es @ [e])"
    and ready_rec: "ready s \<Longrightarrow> ready (rec e s)"
    and rep_merge: "rep s xs \<Longrightarrow> rep t ys \<Longrightarrow> rep (merge s t) (xs @ ys)"
begin

lemma rep_fold:
  "rep s es \<Longrightarrow> ready s \<Longrightarrow> rep (fold rec xs s) (es @ xs)"
proof (induction xs arbitrary: s es)
  case (Cons x xs)
  then show ?case
    using Cons.IH [of "rec x s" "es @ [x]"] rep_rec ready_rec by simp
qed simp

lemma rep_merge_all:
  assumes "rep s es" "list_all2 rep ts ess"
  shows "rep (foldl merge s ts) (es @ concat ess)"
  using assms(2,1)
proof (induction ts ess arbitrary: s es rule: list_all2_induct)
  case (Cons t ts xs ess)
  then show ?case
    using Cons.IH [of "merge s t" "es @ xs"] rep_merge by simp
qed simp

end

section \<open>Lemmas\<close>

lemma TIMESPEC_DIFF_ns: "TIMESPEC_DIFF a b = word_of_int (ts_ns a - ts_ns b)"
  by (simp add: TIMESPEC_DIFF_def SEC2NS_def NS_PER_SEC_def ts_ns_def algebra_simps of_int_diff of_int_mult)

lemma uint_TIMESPEC_DIFF:
  "0 \<le> ts_ns a - ts_ns b \<Longrightarrow> ts_ns a - ts_ns b < 2 ^ 64 \<Longrightarrow> uint (TIMESPEC_DIFF a b) = ts_ns a - ts_ns b"
  unfolding TIMESPEC_DIFF_ns uint_word_of_int by simp

lemma fold_min_init: "fold min xs (min a b) = min a (fold min xs (b :: 'a :: linorder))"
  by (induction xs arbitrary: a b) (simp_all add: min.assoc min.left_commute)

lemma fold_max_init: "fold max xs (max a b) = max a (fold max xs (b :: 'a :: linorder))"
  by (induction xs arbitrary: a b) (simp_all add: max.assoc max.left_commute)

lemma word_min_top [simp]: "min (x :: u64) (- 1) = x" "min (- 1) (x :: u64) = x"
  by (simp_all add: min_absorb1 min_absorb2)

lemma word_max_bot [simp]: "max (x :: u64) 0 = x" "max 0 (x :: u64) = x"
  by (simp_all add: max_def)

lemma fold_min_append: "fold min (xs @ ys) (- 1) = min (fold min xs (- 1)) (fold min ys (- 1 :: u64))"
  using fold_min_init [of ys "fold min xs (- 1)" "- 1 :: u64"] by simp

lemma fold_max_append: "fold max (xs @ ys) 0 = max (fold max xs 0) (fold max ys (0 :: u64))"
  using fold_max_init [of ys "fold max xs 0" "0 :: u64"] by simp

lemma timer_rep_reset: "timer_rep (sb_timer_reset t) []"
  by (simp add: timer_rep_def sb_timer_reset_def)

lemma timer_rep_stop:
  assumes "timer_rep t es" "sb_timer_stop now t = (t', e)"
  shows "timer_rep t' (es @ [e])" and "e = TIMESPEC_DIFF now (time_start t) + queue_time t"
    and "queue_time t' = queue_time t"
  using assms
  by (auto simp: timer_rep_def sb_timer_stop_def Let_def fold_min_append fold_max_append min_def max_def
    split: if_splits)

lemma timer_rep_merge:
  assumes "timer_rep t1 xs" "timer_rep t2 ys"
  shows "timer_rep (sb_timer_merge t1 t2) (xs @ ys)"
  using assms unfolding timer_rep_def fold_min_append fold_max_append
  by (auto simp: sb_timer_merge_def min_def max_def)

lemma timer_record_rep:
  assumes "timer_rep t es" "queue_time t = 0"
  shows "timer_rep (timer_record ev t) (es @ [elapsed_ns ev])" and "queue_time (timer_record ev t) = 0"
proof -
  obtain a b where ev: "ev = (a, b)" by force
  have r: "timer_rep (sb_timer_start a t) es" "queue_time (sb_timer_start a t) = 0"
    using assms by (simp_all add: timer_rep_def sb_timer_start_def)
  obtain t' e where st: "sb_timer_stop b (sb_timer_start a t) = (t', e)"
    by (cases "sb_timer_stop b (sb_timer_start a t)")
  have "e = elapsed_ns ev"
    using timer_rep_stop(2) [OF r(1) st] assms(2) by (simp add: ev elapsed_ns_def sb_timer_start_def)
  then show "timer_rep (timer_record ev t) (es @ [elapsed_ns ev])"
    using timer_rep_stop(1) [OF r(1) st] st by (simp add: timer_record_def ev)
  show "queue_time (timer_record ev t) = 0"
    using timer_rep_stop(3) [OF r(1) st] st r(2) by (simp add: timer_record_def ev)
qed

interpretation timers: mergeable "\<lambda>t evs. timer_rep t (map elapsed_ns evs)" "sb_timer_init timer_zero"
  timer_record sb_timer_merge "\<lambda>t. queue_time t = 0"
proof (unfold_locales, goal_cases)
  case 1
  then show ?case by (simp add: sb_timer_init_def timer_rep_reset)
next
  case (2 s es e)
  then show ?case by (simp add: timer_record_rep)
next
  case (3 s e)
  have "timer_rep (s\<lparr>tm_events := 0, sum_time := 0, min_time := - 1, max_time := 0\<rparr>) []"
    by (simp add: timer_rep_def)
  obtain a b where "e = (a, b)" by force
  with 3 show ?case
    by (simp add: timer_record_def sb_timer_stop_def sb_timer_start_def Let_def)
next
  case (4 s xs t ys)
  then show ?case using timer_rep_merge by simp
qed

lemma fold_min_Min: "es \<noteq> [] \<Longrightarrow> fold min es (- 1 :: u64) = Min (set es)"
  by (cases es) (simp_all add: Min.set_eq_fold del: List.set_simps)

lemma fold_max_Max: "es \<noteq> [] \<Longrightarrow> fold max es (0 :: u64) = Max (set es)"
  by (cases es) (simp_all add: Max.set_eq_fold del: List.set_simps)

lemma uint_Min: "finite A \<Longrightarrow> A \<noteq> {} \<Longrightarrow> uint (Min A) = Min (uint ` A)" for A :: "u64 set"
  by (rule mono_Min_commute) (simp_all add: mono_def word_le_def)

lemma uint_Max: "finite A \<Longrightarrow> A \<noteq> {} \<Longrightarrow> uint (Max A) = Max (uint ` A)" for A :: "u64 set"
  by (rule mono_Max_commute) (simp_all add: mono_def word_le_def)

lemma uint_sum_list:
  "sum_list (map uint es) < 2 ^ 64 \<Longrightarrow> uint (sum_list es) = sum_list (map uint es)" for es :: "u64 list"
proof (induction es)
  case (Cons e es)
  have "0 \<le> sum_list (map uint es)"
    by (auto intro: sum_list_nonneg)
  moreover have "sum_list (map uint es) < 2 ^ 64"
    using Cons.prems uint_ge_0 [of e] unfolding list.map sum_list.Cons by linarith
  ultimately show ?case
    using Cons by (simp add: uint_word_ariths)
qed simp

lemma elem_le_sum_list_int:
  "(\<And>x. x \<in> set xs \<Longrightarrow> 0 \<le> x) \<Longrightarrow> (y :: int) \<in> set xs \<Longrightarrow> y \<le> sum_list xs"
proof (induction xs)
  case (Cons x xs)
  have "0 \<le> sum_list xs"
    using Cons.prems(1) by (intro sum_list_nonneg) simp
  with Cons show ?case by force
qed simp

text \<open>The exact duration of an event, as an integer.\<close>

definition duration :: "timespec \<times> timespec \<Rightarrow> int" where
  "duration = (\<lambda>(start, stop). ts_ns stop - ts_ns start)"

lemma map_uint_elapsed:
  assumes "\<forall>ev \<in> set evs. 0 \<le> duration ev" "sum_list (map duration evs) < 2 ^ 64"
  shows "map uint (map elapsed_ns evs) = map duration evs"
proof -
  have "uint (elapsed_ns ev) = duration ev" if "ev \<in> set evs" for ev
  proof -
    have "duration ev \<le> sum_list (map duration evs)"
      using that assms(1) by (intro elem_le_sum_list_int) auto
    then have "0 \<le> duration ev" "duration ev < 2 ^ 64"
      using that assms by auto
    then show ?thesis
      by (cases ev) (simp add: elapsed_ns_def duration_def uint_TIMESPEC_DIFF)
  qed
  then show ?thesis by simp
qed

lemma timer_rep_exact:
  assumes "timer_rep t (map elapsed_ns evs)" "\<forall>ev \<in> set evs. 0 \<le> duration ev"
    and "sum_list (map duration evs) < 2 ^ 64" "evs \<noteq> []" "length evs < 2 ^ 64"
  shows "uint (tm_events t) = int (length evs)" and "uint (sum_time t) = sum_list (map duration evs)"
    and "uint (min_time t) = Min (duration ` set evs)" and "uint (max_time t) = Max (duration ` set evs)"
proof -
  let ?es = "map elapsed_ns evs"
  have u: "map uint ?es = map duration evs"
    by (rule map_uint_elapsed [OF assms(2,3)])
  then have img: "uint ` set ?es = duration ` set evs"
    by (metis set_map)
  show "uint (tm_events t) = int (length evs)"
    using assms(1,5) unat_of_nat [of "length evs", where ?'a = 64]
    by (simp add: timer_rep_def uint_nat)
  show "uint (sum_time t) = sum_list (map duration evs)"
    using assms(1,3) uint_sum_list [of ?es] by (simp only: timer_rep_def u)
  show "uint (min_time t) = Min (duration ` set evs)"
    using assms(1,4) uint_Min [of "set ?es"] by (simp add: timer_rep_def fold_min_Min img del: set_map)
  show "uint (max_time t) = Max (duration ` set evs)"
    using assms(1,4) uint_Max [of "set ?es"] by (simp add: timer_rep_def fold_max_Max img del: set_map)
qed

text \<open>Thread timers initialised, used for their events, then merged into a fresh timer.\<close>

definition merged_timer :: "(timespec \<times> timespec) list list \<Rightarrow> sb_timer_t" where
  "merged_timer evss = foldl sb_timer_merge (sb_timer_init timer_zero)
     (map (\<lambda>evs. fold timer_record evs (sb_timer_init timer_zero)) evss)"

lemma merged_timer_rep: "timer_rep (merged_timer evss) (map elapsed_ns (concat evss))"
proof -
  have "queue_time (sb_timer_init timer_zero) = 0"
    by (simp add: sb_timer_init_def sb_timer_reset_def)
  from timers.rep_fold [OF timers.rep_empty this]
  have "list_all2 (\<lambda>t evs. timer_rep t (map elapsed_ns evs))
      (map (\<lambda>evs. fold timer_record evs (sb_timer_init timer_zero)) evss) evss"
    by (simp add: list_all2_conv_all_nth)
  from timers.rep_merge_all [OF timers.rep_empty this] show ?thesis
    by (simp add: merged_timer_def)
qed

section \<open>Properties\<close>

text \<open>
  C21 (merged_timer_stats): when every thread times its own events and the report merges all the
  timers, the report gives exactly the number of events, their total, smallest, largest and
  (truncated) average duration in nanoseconds, for any number of threads and any split of the
  events between them, as long as the total fits 64 bits.
\<close>

theorem merged_timer_stats:
  assumes "\<forall>ev \<in> set (concat evss). 0 \<le> duration ev"
    and "sum_list (map duration (concat evss)) < 2 ^ 64"
    and "concat evss \<noteq> []" "length (concat evss) < 2 ^ 64"
  shows "uint (tm_events (merged_timer evss)) = int (length (concat evss)) \<and>
    uint (sb_timer_sum (merged_timer evss)) = sum_list (map duration (concat evss)) \<and>
    uint (sb_timer_min (merged_timer evss)) = Min (duration ` set (concat evss)) \<and>
    uint (sb_timer_max (merged_timer evss)) = Max (duration ` set (concat evss)) \<and>
    uint (sb_timer_avg (merged_timer evss)) =
      sum_list (map duration (concat evss)) div int (length (concat evss))"
proof -
  note ex = timer_rep_exact [OF merged_timer_rep assms]
  have "uint (tm_events (merged_timer evss)) \<noteq> 0"
    using ex(1) assms(3) by (cases "concat evss") auto
  then have "tm_events (merged_timer evss) \<noteq> 0"
    by auto
  then show ?thesis
    using ex by (simp add: sb_timer_sum_def sb_timer_min_def sb_timer_max_def sb_timer_avg_def uint_div)
qed

theorem merged_timer_stats_witness:
  "uint (sb_timer_avg (merged_timer
     [[(\<lparr>tv_sec = 1, tv_nsec = 5\<rparr>, \<lparr>tv_sec = 2, tv_nsec = 0\<rparr>)], [(\<lparr>tv_sec = 7, tv_nsec = 0\<rparr>, \<lparr>tv_sec = 7, tv_nsec = 10\<rparr>)]]))
   = 500000002"
  using merged_timer_stats [of "[[(\<lparr>tv_sec = 1, tv_nsec = 5\<rparr>, \<lparr>tv_sec = 2, tv_nsec = 0\<rparr>)],
    [(\<lparr>tv_sec = 7, tv_nsec = 0\<rparr>, \<lparr>tv_sec = 7, tv_nsec = 10\<rparr>)]]"]
  by (simp add: duration_def ts_ns_def)

text \<open>
  A checkpoint moves the statistics of the events so far into
  the copy and restarts the timer with none, so consecutive checkpoints partition the events of
  a timer; the running start time is kept.
\<close>

theorem timer_checkpoint_conserves:
  assumes "timer_rep t es" "sb_timer_checkpoint t = (t', old)"
  shows "timer_rep old es \<and> timer_rep t' [] \<and> time_start t' = time_start t \<and> queue_time t' = 0"
  using assms timer_rep_reset [of t] by (auto simp: sb_timer_checkpoint_def sb_timer_reset_def)

theorem timer_checkpoint_conserves_witness:
  "timer_rep (snd (sb_timer_checkpoint (merged_timer [[(\<lparr>tv_sec = 1, tv_nsec = 0\<rparr>, \<lparr>tv_sec = 1, tv_nsec = 9\<rparr>)]]))) [9]"
  using timer_checkpoint_conserves [OF merged_timer_rep prod.collapse [symmetric],
    of "[[(\<lparr>tv_sec = 1, tv_nsec = 0\<rparr>, \<lparr>tv_sec = 1, tv_nsec = 9\<rparr>)]]"]
  by (simp add: elapsed_ns_def TIMESPEC_DIFF_ns ts_ns_def)

text \<open>
  The difference of start and end is unsigned, so \<open>sb_timer_running\<close>
  holds as soon as the two times differ: a timer that was started and then stopped at a later
  time still counts as running.
\<close>

theorem timer_running_iff:
  assumes "\<bar>ts_ns (time_start t) - ts_ns (time_end t)\<bar> < 2 ^ 64"
  shows "sb_timer_running t \<longleftrightarrow> ts_ns (time_start t) \<noteq> ts_ns (time_end t)"
proof -
  let ?d = "ts_ns (time_start t) - ts_ns (time_end t)"
  have "sb_timer_running t \<longleftrightarrow> (word_of_int ?d :: u64) \<noteq> 0"
    by (simp add: sb_timer_running_def TIMESPEC_DIFF_ns word_gt_0 del: of_int_diff)
  also have "(word_of_int ?d :: u64) \<noteq> 0 \<longleftrightarrow> \<not> 2 ^ 64 dvd ?d"
    by (simp add: word_of_int_eq_0_iff del: of_int_diff)
  also have "2 ^ 64 dvd ?d \<longleftrightarrow> ?d = 0"
    using assms dvd_imp_le_int [of ?d "2 ^ 64"] by auto
  finally show ?thesis by simp
qed

theorem timer_running_iff_witness:
  "sb_timer_running (timer_zero\<lparr>time_start := \<lparr>tv_sec = 1, tv_nsec = 0\<rparr>, time_end := \<lparr>tv_sec = 2, tv_nsec = 0\<rparr>\<rparr>)"
  using timer_running_iff [of "timer_zero\<lparr>time_start := \<lparr>tv_sec = 1, tv_nsec = 0\<rparr>,
    time_end := \<lparr>tv_sec = 2, tv_nsec = 0\<rparr>\<rparr>"]
  by (simp add: ts_ns_def)

end
