(* ===== verification/C_Double.thy ===== *)
theory C_Double
  imports Complex_Main "HOL-Library.Log_Nat" SB_Prelude
begin

text \<open>
  Floating point as the sources use it.  The operations of type \<open>double\<close> and of \<open>libm\<close> are the
  fields of a record, so that a definition computes with whatever arithmetic it is given:
  \<open>fp_of\<close> converts an integer or the value of a literal, \<open>fp_floor\<close> is \<open>floor\<close> followed by the
  conversion to an integer type.

  \<open>round_double\<close> is rounding to nearest, ties to even, with a 53-bit significand on rationals
  (without exponent bounds: no value of the programs comes near them); \<open>rounded_ops\<close> is the
  arithmetic in which every operation rounds its exact result.  The locale \<open>fp_rounding\<close> lists
  what the range proofs use of a rounding function.
\<close>

section \<open>Operations\<close>

record 'd fp_ops =
  fp_of :: "rat \<Rightarrow> 'd"
  fp_add :: "'d \<Rightarrow> 'd \<Rightarrow> 'd"
  fp_sub :: "'d \<Rightarrow> 'd \<Rightarrow> 'd"
  fp_mul :: "'d \<Rightarrow> 'd \<Rightarrow> 'd"
  fp_div :: "'d \<Rightarrow> 'd \<Rightarrow> 'd"
  fp_lt :: "'d \<Rightarrow> 'd \<Rightarrow> bool"
  fp_le :: "'d \<Rightarrow> 'd \<Rightarrow> bool"
  fp_abs :: "'d \<Rightarrow> 'd"
  fp_neg :: "'d \<Rightarrow> 'd"
  fp_floor :: "'d \<Rightarrow> int"
  fp_log :: "'d \<Rightarrow> 'd"
  fp_exp :: "'d \<Rightarrow> 'd"
  fp_log1p :: "'d \<Rightarrow> 'd"
  fp_expm1 :: "'d \<Rightarrow> 'd"
  fp_pow :: "'d \<Rightarrow> 'd \<Rightarrow> 'd"

definition fp_of_u64 :: "'d fp_ops \<Rightarrow> u64 \<Rightarrow> 'd" where
  "fp_of_u64 fp w = fp_of fp (of_int (uint w))"

definition fp_of_u32 :: "'d fp_ops \<Rightarrow> u32 \<Rightarrow> 'd" where
  "fp_of_u32 fp w = fp_of fp (of_int (uint w))"

definition fp_of_nat :: "'d fp_ops \<Rightarrow> nat \<Rightarrow> 'd" where
  "fp_of_nat fp n = fp_of fp (of_nat n)"

text \<open>Conversion of a non-negative double to \<open>uint32_t\<close>: truncation.\<close>

definition fp_to_u32 :: "'d fp_ops \<Rightarrow> 'd \<Rightarrow> u32" where
  "fp_to_u32 fp d = word_of_int (fp_floor fp d)"

text \<open>
  Arithmetic on rationals that rounds every result by \<open>rnd\<close>, with the transcendental functions
  given by \<open>f\<close> and the power function by \<open>p\<close>.
\<close>

definition rounded_ops :: "(rat \<Rightarrow> rat) \<Rightarrow> (rat \<Rightarrow> rat) \<Rightarrow> (rat \<Rightarrow> rat \<Rightarrow> rat) \<Rightarrow> rat fp_ops" where
  "rounded_ops rnd f p = \<lparr>fp_of = rnd, fp_add = (\<lambda>a b. rnd (a + b)), fp_sub = (\<lambda>a b. rnd (a - b)),
     fp_mul = (\<lambda>a b. rnd (a * b)), fp_div = (\<lambda>a b. rnd (a / b)), fp_lt = (<), fp_le = (\<le>), fp_abs = abs, fp_neg = uminus,
     fp_floor = floor, fp_log = f, fp_exp = f, fp_log1p = f, fp_expm1 = f, fp_pow = p\<rparr>"

section \<open>Rounding to nearest, ties to even\<close>

definition round_half_even :: "rat \<Rightarrow> int" where
  "round_half_even y =
     (let f = \<lfloor>y\<rfloor>; r = y - of_int f
      in if r < 1 / 2 then f else if 1 / 2 < r then f + 1 else if even f then f else f + 1)"

text \<open>The binary exponent of a positive number.\<close>

definition flog2 :: "rat \<Rightarrow> int" where
  "flog2 x = (if 1 \<le> x then int (floorlog 2 (nat \<lfloor>x\<rfloor>)) - 1
     else - int (floorlog 2 (nat (\<lceil>1 / x\<rceil> - 1))))"

definition round_double :: "rat \<Rightarrow> rat" where
  "round_double x =
     (if x = 0 then 0
      else let u = 2 powi (flog2 \<bar>x\<bar> - 52) in of_int (round_half_even (x / u)) * u)"

text \<open>
  The integer square root, and the correctly rounded square root of a positive double: the
  argument is scaled so that its root has 53 bits.  A scaled double is an integer, so its root is
  never half way between two results.
\<close>

fun isqrt :: "nat \<Rightarrow> nat" where
  "isqrt n =
     (if n = 0 then 0
      else let r = 2 * isqrt (n div 4) in if (r + 1) * (r + 1) \<le> n then r + 1 else r)"

declare isqrt.simps [simp del]

definition sqrt_double :: "rat \<Rightarrow> rat" where
  "sqrt_double x =
     (if x \<le> 0 then 0
      else let k = 52 - flog2 x div 2; s = x * 4 powi k; m = isqrt (nat \<lfloor>s\<rfloor>)
           in (if of_nat ((2 * m + 1) * (2 * m + 1)) < 4 * s then of_nat (m + 1) else of_nat m) / 2 powi k)"

text \<open>IEEE arithmetic; the transcendental functions are arguments.\<close>

abbreviation ieee_ops :: "(rat \<Rightarrow> rat) \<Rightarrow> (rat \<Rightarrow> rat \<Rightarrow> rat) \<Rightarrow> rat fp_ops" where
  "ieee_ops \<equiv> rounded_ops round_double"

locale fp_rounding =
  fixes rnd :: "rat \<Rightarrow> rat"
  assumes rnd_mono: "0 \<le> x \<Longrightarrow> x \<le> y \<Longrightarrow> rnd x \<le> rnd y"
    and rnd_exact: "m < 2 ^ 53 \<Longrightarrow> rnd (of_nat m * 2 powi e) = of_nat m * 2 powi e"
begin

lemma rnd_nat: "n < 2 ^ 53 \<Longrightarrow> rnd (of_nat n) = of_nat n"
  using rnd_exact [of n 0] by simp

lemma rnd_scaled: "m < 2 ^ 53 \<Longrightarrow> rnd (of_nat m / 2 ^ k) = of_nat m / 2 ^ k"
  using rnd_exact [of m "- int k"] by (simp add: power_int_minus divide_inverse)

lemma rnd_between:
  assumes "m < 2 ^ 53" "n < 2 ^ 53" "of_nat m / 2 ^ k \<le> x" "x \<le> of_nat n / 2 ^ j"
  shows "of_nat m / 2 ^ k \<le> rnd x" and "rnd x \<le> of_nat n / 2 ^ j"
proof -
  have "0 \<le> (of_nat m / 2 ^ k :: rat)" by simp
  moreover from this assms(3) have "0 \<le> x" by (rule order_trans)
  ultimately show "of_nat m / 2 ^ k \<le> rnd x" "rnd x \<le> of_nat n / 2 ^ j"
    using rnd_mono [of "of_nat m / 2 ^ k" x] rnd_mono [of x "of_nat n / 2 ^ j"] assms rnd_scaled
    by simp_all
qed

end

section \<open>Lemmas on rounding\<close>

lemma rounded_ops_sel [simp]:
  "fp_of (rounded_ops rnd f p) = rnd" "fp_add (rounded_ops rnd f p) x y = rnd (x + y)"
  "fp_sub (rounded_ops rnd f p) x y = rnd (x - y)" "fp_mul (rounded_ops rnd f p) x y = rnd (x * y)"
  "fp_div (rounded_ops rnd f p) x y = rnd (x / y)" "fp_floor (rounded_ops rnd f p) x = \<lfloor>x\<rfloor>"
  by (simp_all add: rounded_ops_def)

lemma round_half_even_int [simp]: "round_half_even (of_int n) = n"
  by (simp add: round_half_even_def)

lemma round_half_even_mono:
  assumes "x \<le> y"
  shows "round_half_even x \<le> round_half_even y"
proof (cases "\<lfloor>x\<rfloor> = \<lfloor>y\<rfloor>")
  case True
  then show ?thesis
    using assms by (auto simp: round_half_even_def Let_def)
next
  case False
  then have "\<lfloor>x\<rfloor> + 1 \<le> \<lfloor>y\<rfloor>"
    using floor_mono [OF assms] by linarith
  moreover have "round_half_even x \<le> \<lfloor>x\<rfloor> + 1" "\<lfloor>y\<rfloor> \<le> round_half_even y"
    by (auto simp: round_half_even_def Let_def)
  ultimately show ?thesis by linarith
qed

lemma two_power_le_of_nat: "2 ^ k \<le> n \<Longrightarrow> (2 :: rat) ^ k \<le> of_nat n"
  by (metis of_nat_le_iff of_nat_numeral of_nat_power)

lemma of_nat_le_two_power: "n + 1 \<le> 2 ^ k \<Longrightarrow> of_nat n + 1 \<le> (2 :: rat) ^ k"
  using of_nat_mono [of "n + 1" "2 ^ k", where ?'a = rat] by simp

lemma flog2_bounds:
  assumes "0 < x"
  shows "2 powi flog2 x \<le> x" and "x < 2 powi (flog2 x + 1)"
proof -
  have "2 powi flog2 x \<le> x \<and> x < 2 powi (flog2 x + 1)"
  proof (cases "1 \<le> x")
    case True
    define n where "n = nat \<lfloor>x\<rfloor>"
    define f where "f = floorlog 2 n"
    have n: "0 < n" "of_nat n \<le> x" "x < of_nat n + 1"
      using True floor_correct [of x] by (simp_all add: n_def)
    have f: "2 ^ (f - 1) \<le> n" "n < 2 ^ f" "0 < f"
      using floorlog_bounds [of n 2] n(1) by (auto simp: f_def floorlog_def)
    have "(2 :: rat) ^ (f - 1) \<le> x"
      using n(2) two_power_le_of_nat [OF f(1)] by (simp only: order_trans order.strict_trans1)
    moreover have "x < 2 ^ f"
    proof -
      have "n + 1 \<le> 2 ^ f" using f(2) by simp
      then have "of_nat n + 1 \<le> (2 :: rat) ^ f"
        by (rule of_nat_le_two_power)
      then show ?thesis using n(3) by simp
    qed
    moreover have e: "flog2 x = int (f - 1)" "flog2 x + 1 = int f"
      using True f(3) by (simp_all add: flog2_def f_def n_def of_nat_diff)
    have "2 powi flog2 x = (2 :: rat) ^ (f - 1)" "2 powi (flog2 x + 1) = (2 :: rat) ^ f"
      by (simp_all only: e(1) power_int_of_nat) (simp only: e(1) [symmetric] e(2) power_int_of_nat)
    ultimately show ?thesis by simp
  next
    case False
    define n where "n = nat (\<lceil>1 / x\<rceil> - 1)"
    define f where "f = floorlog 2 n"
    have inv: "1 < 1 / x"
      using assms False by simp
    then have "2 \<le> \<lceil>1 / x\<rceil>"
      by linarith
    then have n: "0 < n" "of_nat n < 1 / x" "1 / x \<le> of_nat n + 1"
      by (simp_all add: n_def) linarith+
    have f: "2 ^ (f - 1) \<le> n" "n < 2 ^ f" "0 < f"
      using floorlog_bounds [of n 2] n(1) by (auto simp: f_def floorlog_def)
    have "(2 :: rat) ^ (f - 1) < 1 / x"
      using n(2) two_power_le_of_nat [OF f(1)] by (simp only: order_trans order.strict_trans1)
    moreover have "1 / x \<le> 2 ^ f"
    proof -
      have "n + 1 \<le> 2 ^ f" using f(2) by simp
      then have "of_nat n + 1 \<le> (2 :: rat) ^ f"
        by (rule of_nat_le_two_power)
      then show ?thesis using n(3) by simp
    qed
    ultimately have "1 / 2 ^ f \<le> x" "x < 1 / 2 ^ (f - 1)"
      using assms by (simp_all add: field_simps)
    moreover have e: "flog2 x = - int f" "flog2 x + 1 = - int (f - 1)"
      using False f(3) by (simp_all add: flog2_def f_def n_def of_nat_diff)
    have "2 powi flog2 x = 1 / (2 :: rat) ^ f" "2 powi (flog2 x + 1) = 1 / (2 :: rat) ^ (f - 1)"
      by (simp_all only: e(1) power_int_minus power_int_of_nat inverse_eq_divide)
        (simp only: e(1) [symmetric] e(2) power_int_minus power_int_of_nat inverse_eq_divide)
    ultimately show ?thesis by simp
  qed
  then show "2 powi flog2 x \<le> x" and "x < 2 powi (flog2 x + 1)" by blast+
qed

lemma flog2_less:
  assumes "0 < x" "x < 2 powi e"
  shows "flog2 x < e"
proof (rule ccontr)
  assume "\<not> flog2 x < e"
  then have "(2 :: rat) powi e \<le> 2 powi flog2 x"
    by (intro power_int_increasing) simp_all
  with flog2_bounds(1) [OF assms(1)] assms(2) show False by simp
qed

lemma flog2_mono:
  assumes "0 < x" "x \<le> y"
  shows "flog2 x \<le> flog2 y"
proof -
  have "x < 2 powi (flog2 y + 1)"
    using flog2_bounds(2) [of y] assms by simp
  from flog2_less [OF assms(1) this] show ?thesis by simp
qed

text \<open>A rounded positive number stays within its binade.\<close>

lemma round_double_binade:
  assumes "0 < x"
  shows "2 powi flog2 x \<le> round_double x" and "round_double x \<le> 2 powi (flog2 x + 1)"
proof -
  let ?u = "2 powi (flog2 x - 52) :: rat"
  have u: "0 < ?u" by simp
  have r: "round_double x = of_int (round_half_even (x / ?u)) * ?u"
    using assms by (simp add: round_double_def Let_def)
  have lo: "2 powi flog2 x = 2 ^ 52 * ?u" and hi: "2 powi (flog2 x + 1) = 2 ^ 53 * ?u"
    by (simp_all add: power_int_add power_int_diff)
  have "of_int (2 ^ 52) \<le> x / ?u" "x / ?u \<le> of_int (2 ^ 53)"
    using flog2_bounds [OF assms] u unfolding lo hi by (simp_all add: pos_le_divide_eq pos_divide_le_eq)
  from this [THEN round_half_even_mono]
  have "2 ^ 52 \<le> round_half_even (x / ?u)" "round_half_even (x / ?u) \<le> 2 ^ 53"
    by (simp_all only: round_half_even_int)
  then have "(2 :: rat) ^ 52 \<le> of_int (round_half_even (x / ?u))" "of_int (round_half_even (x / ?u)) \<le> (2 :: rat) ^ 53"
    by (metis of_int_le_iff of_int_numeral of_int_power)+
  with u show "2 powi flog2 x \<le> round_double x" and "round_double x \<le> 2 powi (flog2 x + 1)"
    unfolding r lo hi by (simp_all only: mult_right_mono less_imp_le)
qed

lemma round_double_mono:
  assumes "0 \<le> x" "x \<le> y"
  shows "round_double x \<le> round_double y"
proof (cases "x = 0")
  case True
  have "0 \<le> round_double y"
  proof (cases "y = 0")
    case False
    then have "0 < y" using assms by simp
    from round_double_binade(1) [OF this] show ?thesis
      by (meson less_le_trans less_imp_le zero_less_numeral zero_less_power_int)
  qed (simp add: round_double_def)
  with True show ?thesis by (simp add: round_double_def)
next
  case False
  then have x: "0 < x" and y: "0 < y" using assms by simp_all
  show ?thesis
  proof (cases "flog2 x = flog2 y")
    case True
    let ?u = "2 powi (flog2 y - 52) :: rat"
    have "x / ?u \<le> y / ?u"
      using assms(2) by (simp add: divide_right_mono)
    then have "of_int (round_half_even (x / ?u)) * ?u \<le> of_int (round_half_even (y / ?u)) * ?u"
      by (intro mult_right_mono) (simp_all add: round_half_even_mono)
    with True x y show ?thesis
      by (simp add: round_double_def Let_def)
  next
    case False
    then have "flog2 x + 1 \<le> flog2 y"
      using flog2_mono [OF x assms(2)] by simp
    then have "(2 :: rat) powi (flog2 x + 1) \<le> 2 powi flog2 y"
      by (intro power_int_increasing) simp_all
    then show ?thesis
      using round_double_binade(2) [OF x] round_double_binade(1) [OF y] by simp
  qed
qed

lemma round_double_exact:
  assumes "m < 2 ^ 53"
  shows "round_double (of_nat m * 2 powi e) = of_nat m * 2 powi e"
proof (cases "m = 0")
  case False
  let ?x = "of_nat m * 2 powi e :: rat"
  have x: "0 < ?x" using False by simp
  have "(of_nat m :: rat) < 2 ^ 53"
    using assms by (metis of_nat_less_iff of_nat_numeral of_nat_power)
  then have "?x < 2 ^ 53 * 2 powi e"
    by (intro mult_strict_right_mono) simp_all
  also have "2 ^ 53 * 2 powi e = (2 :: rat) powi (53 + e)"
    by (simp add: power_int_add)
  finally have "flog2 ?x < 53 + e"
    by (rule flog2_less [OF x])
  then have "flog2 ?x - 52 \<le> e" by simp
  define u where "u = (2 powi (flog2 ?x - 52) :: rat)"
  define k where "k = nat (e - (flog2 ?x - 52))"
  have k: "flog2 ?x - 52 + int k = e"
    using \<open>flog2 ?x - 52 \<le> e\<close> by (simp add: k_def)
  have "2 powi (g + int k) = 2 powi g * (2 :: rat) ^ k" for g
    by (simp add: power_int_add)
  from this [of "flog2 ?x - 52"] have p: "2 powi e = u * 2 ^ k"
    unfolding k u_def [symmetric] .
  have u: "u \<noteq> 0"
    by (simp add: u_def)
  have "round_double ?x = of_int (round_half_even (?x / u)) * u"
    using x False by (simp add: round_double_def Let_def u_def abs_mult)
  also have "?x / u = of_int (int m * 2 ^ k)"
    using u by (simp add: p)
  also have "of_int (round_half_even (of_int (int m * 2 ^ k))) * u = ?x"
    unfolding round_half_even_int by (simp add: p)
  finally show ?thesis .
qed (simp add: round_double_def)

interpretation ieee: fp_rounding round_double
  by unfold_locales (simp_all add: round_double_mono round_double_exact)

lemma flog2_eqI:
  assumes "2 powi e \<le> x" "x < 2 powi (e + 1)"
  shows "flog2 x = e"
proof -
  have x: "0 < x" using assms(1) by (meson less_le_trans zero_less_numeral zero_less_power_int)
  have "2 powi e < (2 :: rat) powi (flog2 x + 1)"
    using assms(1) flog2_bounds(2) [OF x] by simp
  then have "e < flog2 x + 1"
    by (metis not_less power_int_increasing one_le_numeral)
  with flog2_less [OF x assms(2)] show ?thesis by simp
qed

lemma round_double_eval:
  assumes "2 ^ k \<le> x" "x < 2 ^ (k + 1)" "k \<le> 52"
  shows "round_double x = of_int (round_half_even (x * 2 ^ (52 - k))) / 2 ^ (52 - k)"
proof -
  have "2 powi int k \<le> x" "x < 2 powi (int k + 1)"
    using assms by (simp_all add: power_int_add)
  from flog2_eqI [OF this] have f: "flog2 x = int k" .
  have x: "0 < x" using assms(1) by (meson less_le_trans zero_less_numeral zero_less_power)
  have e: "int k - 52 = - int (52 - k)" using assms(3) by simp
  show ?thesis
    unfolding round_double_def Let_def using x
    by (simp add: f) (simp only: e power_int_minus power_int_of_nat, simp add: divide_inverse)
qed

lemma isqrt_bounds: "isqrt n * isqrt n \<le> n \<and> n < (isqrt n + 1) * (isqrt n + 1)"
proof (induction n rule: isqrt.induct)
  case (1 n)
  show ?case
  proof (cases "n = 0")
    case False
    define r where "r = isqrt (n div 4)"
    have r: "r * r \<le> n div 4" "n div 4 < (r + 1) * (r + 1)"
      using 1 [OF False] by (simp_all add: r_def)
    have "4 * (r * r) \<le> n" using r(1) by linarith
    moreover have "n < 4 * ((r + 1) * (r + 1))" using r(2) by linarith
    ultimately show ?thesis
      using False by (subst (1 2 3 4) isqrt.simps) (simp add: Let_def r_def [symmetric] algebra_simps)
  qed (simp add: isqrt.simps)
qed

text \<open>The comparison of an integer with a rounded square root is the exact one.\<close>

lemma sqrt_double_le_iff:
  assumes "0 < c" "c < 2 ^ 40" "l < 2 ^ 30"
  shows "of_nat l \<le> sqrt_double (of_nat c) \<longleftrightarrow> l * l \<le> c"
proof -
  have c1: "(1 :: rat) \<le> of_nat c" using assms(1) by simp
  have fl: "0 \<le> flog2 (of_nat c)" "flog2 (of_nat c) < 40"
  proof -
    have "2 powi 0 \<le> (of_nat c :: rat)" using c1 by simp
    then show "0 \<le> flog2 (of_nat c)"
      using flog2_mono [of "1" "of_nat c"] flog2_eqI [of 0 1] c1 by simp
    have "(of_nat c :: rat) < 2 powi 40"
      using assms(2) by (metis of_nat_less_iff of_nat_numeral of_nat_power power_int_numeral)
    then show "flog2 (of_nat c) < 40"
      using flog2_less [of "of_nat c" 40] assms(1) by simp
  qed
  define k where "k = nat (52 - flog2 (of_nat c) div 2)"
  have k: "52 - flog2 (of_nat c :: rat) div 2 = int k" "32 \<le> k" "k \<le> 52"
    using fl by (auto simp: k_def)
  define m where "m = isqrt (c * 4 ^ k)"
  have s: "of_nat c * 4 powi int k = (of_nat (c * 4 ^ k) :: rat)" by simp
  have v: "sqrt_double (of_nat c) =
      (if (2 * m + 1) * (2 * m + 1) < 4 * (c * 4 ^ k) then of_nat (m + 1) else of_nat m) / 2 ^ k"
  proof -
    have "(of_nat ((2 * m + 1) * (2 * m + 1)) < (4 :: rat) * of_nat (c * 4 ^ k)) \<longleftrightarrow>
        (2 * m + 1) * (2 * m + 1) < 4 * (c * 4 ^ k)"
      by (metis of_nat_less_iff of_nat_mult of_nat_numeral)
    then show ?thesis
      unfolding sqrt_double_def Let_def k(1) s floor_of_nat nat_int m_def [symmetric]
      using assms(1) by simp
  qed
  define n where "n = (if (2 * m + 1) * (2 * m + 1) < 4 * (c * 4 ^ k) then m + 1 else m)"
  have "of_nat l \<le> sqrt_double (of_nat c) \<longleftrightarrow> (of_nat (l * 2 ^ k) :: rat) \<le> of_nat n"
    unfolding v n_def by (simp add: pos_le_divide_eq)
  also have "\<dots> \<longleftrightarrow> l * 2 ^ k \<le> n" by (rule of_nat_le_iff)
  also have "\<dots> \<longleftrightarrow> l * l \<le> c"
  proof
    have m: "m * m \<le> c * 4 ^ k" "c * 4 ^ k < (m + 1) * (m + 1)"
      using isqrt_bounds [of "c * 4 ^ k"] by (simp_all add: m_def)
    have four: "(4 :: nat) ^ k = 2 ^ k * 2 ^ k" by (simp add: power_mult_distrib [symmetric])
    {
      assume "l * l \<le> c"
      then have "l * 2 ^ k * (l * 2 ^ k) \<le> c * 4 ^ k"
        using mult_le_mono1 [of "l * l" c "4 ^ k"] by (simp add: four mult_ac)
      then have "l * 2 ^ k * (l * 2 ^ k) < (m + 1) * (m + 1)" using m(2) by linarith
      then have "l * 2 ^ k < m + 1" by (metis mult_le_mono not_le)
      then show "l * 2 ^ k \<le> n" by (simp add: n_def)
    next
      assume a: "l * 2 ^ k \<le> n"
      show "l * l \<le> c"
      proof (rule ccontr)
        assume "\<not> l * l \<le> c"
        then have c: "c + 1 \<le> l * l" by simp
        then have "(c + 1) * 4 ^ k \<le> l * l * 4 ^ k" by (rule mult_le_mono1)
        then have big: "c * 4 ^ k + 4 ^ k \<le> l * 2 ^ k * (l * 2 ^ k)" by (simp add: four algebra_simps)
        have "(4 :: nat) * 2 ^ 30 \<le> 2 ^ k" using power_increasing [of 32 k "2 :: nat"] k(2) by simp
        then have lk: "4 * l < 2 ^ k" using assms(3) by linarith
        have "l * 2 ^ k * 4 \<le> 4 ^ k"
          using mult_le_mono1 [of "4 * l" "2 ^ k" "2 ^ k"] lk by (simp add: four mult_ac)
        moreover have sq: "4 * (n * n) \<le> 4 * (c * 4 ^ k) + 4 * n"
          using m(1) by (auto simp: n_def algebra_simps)
        have "m * m < l * 2 ^ k * (l * 2 ^ k)" using big m(1) by (metis add_lessD1 le_less_trans le_less not_add_less1 zero_less_power zero_less_numeral less_add_same_cancel1 less_le_trans)
        then have "m < l * 2 ^ k" by (metis mult_le_mono not_le)
        with a have n: "n = l * 2 ^ k" by (auto simp: n_def split: if_splits)
        moreover have "4 * (l * 2 ^ k * (l * 2 ^ k)) \<le> 4 * (c * 4 ^ k) + 4 * (l * 2 ^ k)"
          using sq by (simp only: n)
        moreover have "(0 :: nat) < 4 ^ k" by simp
        ultimately show False using big by linarith
      qed
    }
  qed
  finally show ?thesis .
qed

end
