(* ===== verification/SB_Histogram.thy ===== *)
theory SB_Histogram
  imports C_Double
begin

text \<open>
  Latency histograms, \<open>src/src/sb_histogram.c\<close>.  Updates add one to a bucket of one of 128
  intermediate slots without taking a lock; the percentile routines move the slots into the
  cumulative array by atomic fetch-and-store, one element at a time, under the write lock.

  \<open>fp\<close> is the floating-point arithmetic and \<open>rnd\<close> the random word that picks the slot.  An
  operation that waits for a lock that is never released has the result \<open>None\<close>.
\<close>

section \<open>Data\<close>

definition SB_HISTOGRAM_NSLOTS :: nat where
  "SB_HISTOGRAM_NSLOTS = 128"

record 'd sb_histogram_t =
  cumulative_array :: "u64 list"
  cumulative_nevents :: u64
  temp_array :: "u64 list"
  interm_slots :: "u64 list list"
  array_size :: nat
  range_min :: 'd
  range_max :: 'd
  range_deduct :: 'd
  range_mult :: 'd
  hist_locked :: bool

section \<open>Operations\<close>

text \<open>\<open>alloc_ok\<close> tells whether both allocations succeed.\<close>

definition sb_histogram_init ::
  "'d fp_ops \<Rightarrow> bool \<Rightarrow> nat \<Rightarrow> 'd \<Rightarrow> 'd \<Rightarrow> 'd sb_histogram_t \<Rightarrow> 'd sb_histogram_t \<times> nat"
where
  "sb_histogram_init fp alloc_ok sz rmin rmax h =
     (if \<not> alloc_ok then (h, 1)
      else
        (let h = h\<lparr>cumulative_array := replicate sz 0,
                   temp_array := replicate sz 0,
                   interm_slots := replicate SB_HISTOGRAM_NSLOTS (replicate sz 0)\<rparr>;
             h = h\<lparr>range_deduct := fp_log fp rmin\<rparr>;
             h = h\<lparr>range_mult := fp_div fp (fp_of_u64 fp (of_nat sz - 1))
                                   (fp_sub fp (fp_log fp rmax) (range_deduct h))\<rparr>
         in (h\<lparr>range_min := rmin, range_max := rmax, array_size := sz, hist_locked := False\<rparr>, 0)))"

definition slot_inc :: "nat \<Rightarrow> nat \<Rightarrow> u64 list list \<Rightarrow> u64 list list" where
  "slot_inc s i slots = slots[s := (slots ! s)[i := slots ! s ! i + 1]]"

definition bucket :: "'d fp_ops \<Rightarrow> 'd sb_histogram_t \<Rightarrow> 'd \<Rightarrow> nat" where
  "bucket fp h v =
     (let i = fp_floor fp (fp_add fp (fp_mul fp (fp_sub fp (fp_log fp v) (range_deduct h)) (range_mult h))
                (fp_of fp (1 / 2)))
      in nat (if i < 0 then 0 else if i \<ge> int (array_size h) then int (array_size h) - 1 else i))"

definition sb_histogram_update ::
  "'d fp_ops \<Rightarrow> u64 \<Rightarrow> 'd \<Rightarrow> 'd sb_histogram_t \<Rightarrow> 'd sb_histogram_t"
where
  "sb_histogram_update fp rnd v h =
     h\<lparr>interm_slots := slot_inc (unat rnd mod SB_HISTOGRAM_NSLOTS) (bucket fp h v) (interm_slots h)\<rparr>"

text \<open>
  \<open>ck_pr_fas_64\<close> of one element, stored or added into \<open>array[i]\<close> and counted: one atomic step
  of the merging loops.
\<close>

type_synonym merge_state = "u64 list list \<times> u64 list \<times> u64"

definition fas_set :: "nat \<Rightarrow> nat \<Rightarrow> merge_state \<Rightarrow> merge_state" where
  "fas_set s i = (\<lambda>(slots, array, nevents).
     let t = slots ! s ! i in (slots[s := (slots ! s)[i := 0]], array[i := t], nevents + t))"

definition fas_add :: "nat \<Rightarrow> nat \<Rightarrow> merge_state \<Rightarrow> merge_state" where
  "fas_add s i = (\<lambda>(slots, array, nevents).
     let t = slots ! s ! i in (slots[s := (slots ! s)[i := 0]], array[i := array ! i + t], nevents + t))"

definition percentile_nmax :: "'d fp_ops \<Rightarrow> u64 \<Rightarrow> 'd \<Rightarrow> u64" where
  "percentile_nmax fp nevents percentile =
     word_of_int (fp_floor fp (fp_add fp (fp_div fp (fp_mul fp (fp_of_u64 fp nevents) percentile)
       (fp_of fp 100)) (fp_of fp (1 / 2))))"

fun percentile_scan :: "u64 \<Rightarrow> u64 \<Rightarrow> u64 list \<Rightarrow> nat \<Rightarrow> nat" where
  "percentile_scan nmax ncur [] i = i"
| "percentile_scan nmax ncur (a # as) i =
     (if ncur + a \<ge> nmax then i else percentile_scan nmax (ncur + a) as (Suc i))"

definition bucket_value :: "'d fp_ops \<Rightarrow> 'd sb_histogram_t \<Rightarrow> nat \<Rightarrow> 'd" where
  "bucket_value fp h i = fp_exp fp (fp_add fp (fp_div fp (fp_of_nat fp i) (range_mult h)) (range_deduct h))"

definition wrlock :: "'d sb_histogram_t \<Rightarrow> 'd sb_histogram_t option" where
  "wrlock h = (if hist_locked h then None else Some (h\<lparr>hist_locked := True\<rparr>))"

definition unlock :: "'d sb_histogram_t \<Rightarrow> 'd sb_histogram_t" where
  "unlock h = h\<lparr>hist_locked := False\<rparr>"

definition merge_into_temp :: "nat \<Rightarrow> merge_state \<Rightarrow> merge_state" where
  "merge_into_temp sz st =
     fold (\<lambda>s. fold (fas_add s) [0..<sz]) [1..<SB_HISTOGRAM_NSLOTS] (fold (fas_set 0) [0..<sz] st)"

definition add_arrays :: "nat \<Rightarrow> u64 list \<Rightarrow> u64 list \<Rightarrow> u64 list" where
  "add_arrays sz array cumulative = fold (\<lambda>i c. c[i := c ! i + array ! i]) [0..<sz] cumulative"

definition sb_histogram_get_pct_intermediate ::
  "'d fp_ops \<Rightarrow> 'd \<Rightarrow> 'd sb_histogram_t \<Rightarrow> ('d sb_histogram_t \<times> 'd) option"
where
  "sb_histogram_get_pct_intermediate fp percentile h = do {
     h \<leftarrow> wrlock h;
     let (slots, array, nevents) = merge_into_temp (array_size h) (interm_slots h, temp_array h, 0);
     let h = h\<lparr>interm_slots := slots, temp_array := array\<rparr>;
     let nmax = percentile_nmax fp nevents percentile;
     let i = percentile_scan nmax 0 (take (array_size h) array) 0;
     let res = bucket_value fp h i;
     let h = h\<lparr>cumulative_array := add_arrays (array_size h) array (cumulative_array h)\<rparr>;
     let h = h\<lparr>cumulative_nevents := cumulative_nevents h + nevents\<rparr>;
     Some (unlock h, res)
   }"

definition merge_intermediate_into_cumulative :: "'d sb_histogram_t \<Rightarrow> 'd sb_histogram_t" where
  "merge_intermediate_into_cumulative h =
     (let (slots, array, nevents) = fold (\<lambda>s. fold (fas_add s) [0..<array_size h]) [0..<SB_HISTOGRAM_NSLOTS]
            (interm_slots h, cumulative_array h, cumulative_nevents h)
      in h\<lparr>interm_slots := slots, cumulative_array := array, cumulative_nevents := nevents\<rparr>)"

definition get_pct_cumulative :: "'d fp_ops \<Rightarrow> 'd \<Rightarrow> 'd sb_histogram_t \<Rightarrow> 'd" where
  "get_pct_cumulative fp percentile h =
     (let nmax = percentile_nmax fp (cumulative_nevents h) percentile;
          i = percentile_scan nmax 0 (take (array_size h) (cumulative_array h)) 0
      in bucket_value fp h i)"

definition sb_histogram_get_pct_cumulative ::
  "'d fp_ops \<Rightarrow> 'd \<Rightarrow> 'd sb_histogram_t \<Rightarrow> ('d sb_histogram_t \<times> 'd) option"
where
  "sb_histogram_get_pct_cumulative fp percentile h = do {
     h \<leftarrow> wrlock h;
     let h = merge_intermediate_into_cumulative h;
     let res = get_pct_cumulative fp percentile h;
     Some (unlock h, res)
   }"

definition sb_histogram_get_pct_checkpoint ::
  "'d fp_ops \<Rightarrow> 'd \<Rightarrow> 'd sb_histogram_t \<Rightarrow> ('d sb_histogram_t \<times> 'd) option"
where
  "sb_histogram_get_pct_checkpoint fp percentile h = do {
     h \<leftarrow> wrlock h;
     let h = merge_intermediate_into_cumulative h;
     let res = get_pct_cumulative fp percentile h;
     let h = h\<lparr>cumulative_array := replicate (array_size h) 0, cumulative_nevents := 0\<rparr>;
     Some (unlock h, res)
   }"

text \<open>The rows printed: value, width of the bar and count.  The early return keeps the lock.\<close>

definition sb_histogram_print ::
  "'d fp_ops \<Rightarrow> 'd sb_histogram_t \<Rightarrow> ('d sb_histogram_t \<times> ('d \<times> int \<times> u64) list) option"
where
  "sb_histogram_print fp h = do {
     h \<leftarrow> wrlock h;
     let h = merge_intermediate_into_cumulative h;
     let array = take (array_size h) (cumulative_array h);
     let maxcnt = foldl (\<lambda>m a. if a > m then a else m) 0 array;
     if maxcnt = 0 then Some (h, [])
     else Some (unlock h,
       map (\<lambda>(i, a). (bucket_value fp h i,
              fp_floor fp (fp_add fp (fp_div fp (fp_mul fp (fp_of_u64 fp a) (fp_of fp 40)) (fp_of_u64 fp maxcnt))
                (fp_of fp (1 / 2))), a))
         (filter (\<lambda>(i, a). a \<noteq> 0) (enumerate 0 array)))
   }"

text \<open>
  A histogram from \<open>malloc\<close>: \<open>garbage\<close> is the content of the memory before initialisation.
\<close>

definition sb_histogram_new ::
  "'d fp_ops \<Rightarrow> bool \<Rightarrow> bool \<Rightarrow> 'd sb_histogram_t \<Rightarrow> nat \<Rightarrow> 'd \<Rightarrow> 'd \<Rightarrow> 'd sb_histogram_t option"
where
  "sb_histogram_new fp malloc_ok alloc_ok garbage sz rmin rmax =
     (if \<not> malloc_ok then None
      else (case sb_histogram_init fp alloc_ok sz rmin rmax garbage of
              (h, rc) \<Rightarrow> if rc \<noteq> 0 then None else Some h))"

section \<open>Specification\<close>

definition col :: "u64 list list \<Rightarrow> nat \<Rightarrow> u64" where
  "col slots b = sum_list (map (\<lambda>r. r ! b) slots)"

text \<open>All events counted in a bucket and not yet discarded by a checkpoint.\<close>

definition hist_count :: "'d sb_histogram_t \<Rightarrow> nat \<Rightarrow> u64" where
  "hist_count h b = col (interm_slots h) b + cumulative_array h ! b"

definition slots_wf :: "nat \<Rightarrow> u64 list list \<Rightarrow> bool" where
  "slots_wf sz slots \<longleftrightarrow> length slots = SB_HISTOGRAM_NSLOTS \<and> (\<forall>r \<in> set slots. length r = sz)"

definition hist_wf :: "'d sb_histogram_t \<Rightarrow> bool" where
  "hist_wf h \<longleftrightarrow> 0 < array_size h \<and> slots_wf (array_size h) (interm_slots h) \<and>
     length (temp_array h) = array_size h \<and> length (cumulative_array h) = array_size h \<and>
     cumulative_nevents h = sum_list (cumulative_array h)"

text \<open>The atomic steps of updates and of a merge, in the order in which they happen.\<close>

datatype hist_step = Inc nat nat | Fas nat nat

fun exec_step :: "hist_step \<Rightarrow> merge_state \<Rightarrow> merge_state" where
  "exec_step (Inc s i) (slots, array, nevents) = (slot_inc s i slots, array, nevents)"
| "exec_step (Fas s i) st = fas_add s i st"

fun step_ok :: "nat \<Rightarrow> hist_step \<Rightarrow> bool" where
  "step_ok sz (Inc s i) \<longleftrightarrow> s < SB_HISTOGRAM_NSLOTS \<and> i < sz"
| "step_ok sz (Fas s i) \<longleftrightarrow> s < SB_HISTOGRAM_NSLOTS \<and> i < sz"

fun incs_of :: "nat \<Rightarrow> hist_step \<Rightarrow> nat" where
  "incs_of b (Inc s i) = (if i = b then 1 else 0)"
| "incs_of b (Fas s i) = 0"

definition merge_wf :: "nat \<Rightarrow> merge_state \<Rightarrow> bool" where
  "merge_wf sz = (\<lambda>(slots, array, nevents). slots_wf sz slots \<and> length array = sz)"

definition bucket_total :: "nat \<Rightarrow> merge_state \<Rightarrow> u64" where
  "bucket_total b = (\<lambda>(slots, array, nevents). col slots b + array ! b)"

definition uncounted :: "merge_state \<Rightarrow> u64" where
  "uncounted = (\<lambda>(slots, array, nevents). nevents - sum_list array)"

section \<open>Lemmas: atomic steps\<close>

lemma slots_wf_update:
  "slots_wf sz slots \<Longrightarrow> s < SB_HISTOGRAM_NSLOTS \<Longrightarrow> slots_wf sz (slots[s := (slots ! s)[i := v]])"
  by (auto simp: slots_wf_def dest!: set_update_subset_insert [THEN subsetD])

lemma col_update:
  assumes "slots_wf sz slots" "s < SB_HISTOGRAM_NSLOTS" "i < sz"
  shows "col (slots[s := (slots ! s)[i := v]]) b = col slots b + (if i = b then v - slots ! s ! b else 0)"
proof -
  have "length slots = SB_HISTOGRAM_NSLOTS" "length (slots ! s) = sz"
    using assms by (auto simp: slots_wf_def)
  then show ?thesis
    using assms by (simp add: col_def map_update sum_list_update_word nth_list_update)
qed

lemma exec_step_inv:
  assumes "merge_wf sz st" "step_ok sz e"
  shows "merge_wf sz (exec_step e st)"
    and "b < sz \<Longrightarrow> bucket_total b (exec_step e st) = bucket_total b st + of_nat (incs_of b e)"
    and "uncounted (exec_step e st) = uncounted st"
proof -
  obtain slots array nev where st: "st = (slots, array, nev)" by (metis prod_cases3)
  have wf: "slots_wf sz slots" "length array = sz"
    using assms(1) by (simp_all add: merge_wf_def st)
  show "merge_wf sz (exec_step e st)"
    using assms(2) wf by (cases e) (simp_all add: st merge_wf_def slot_inc_def fas_add_def Let_def slots_wf_update)
  show "b < sz \<Longrightarrow> bucket_total b (exec_step e st) = bucket_total b st + of_nat (incs_of b e)"
    using assms(2) wf col_update [OF wf(1)]
    by (cases e) (simp_all add: st bucket_total_def slot_inc_def fas_add_def Let_def nth_list_update)
  show "uncounted (exec_step e st) = uncounted st"
    using assms(2) wf
    by (cases e) (simp_all add: st uncounted_def fas_add_def Let_def sum_list_update_word)
qed

lemma exec_steps_inv:
  assumes "merge_wf sz st" "\<forall>e \<in> set es. step_ok sz e"
  shows "merge_wf sz (fold exec_step es st)"
    and "b < sz \<Longrightarrow> bucket_total b (fold exec_step es st) = bucket_total b st + of_nat (sum_list (map (incs_of b) es))"
    and "uncounted (fold exec_step es st) = uncounted st"
  using assms by (induction es arbitrary: st) (simp_all add: exec_step_inv add.assoc)

text \<open>A merge is the list of its fetch-and-store steps.\<close>

definition merge_steps :: "nat list \<Rightarrow> nat \<Rightarrow> hist_step list" where
  "merge_steps ss sz = concat (map (\<lambda>s. map (Fas s) [0..<sz]) ss)"

lemma fold_fas_add: "fold (\<lambda>s. fold (fas_add s) [0..<sz]) ss st = fold exec_step (merge_steps ss sz) st"
proof -
  have "fold (fas_add s) is st = fold exec_step (map (Fas s) is) st" for s "is" st
    by (induction "is" arbitrary: st) simp_all
  then show ?thesis
    by (induction ss arbitrary: st) (simp_all add: merge_steps_def)
qed

lemma merge_steps_ok: "set ss \<subseteq> {..<SB_HISTOGRAM_NSLOTS} \<Longrightarrow> \<forall>e \<in> set (merge_steps ss sz). step_ok sz e"
  by (auto simp: merge_steps_def)

lemma incs_merge_steps: "sum_list (map (incs_of b) (merge_steps ss sz)) = 0"
  by (induction ss) (simp_all add: merge_steps_def comp_def)

lemma fas_add_clears:
  assumes "merge_wf sz st" "s < SB_HISTOGRAM_NSLOTS" "i < sz"
  shows "fst (fas_add s i st) ! s' ! j = (if s' = s \<and> j = i then 0 else fst st ! s' ! j)"
proof -
  obtain slots array nev where st: "st = (slots, array, nev)" by (metis prod_cases3)
  then have "length slots = SB_HISTOGRAM_NSLOTS" "length (slots ! s) = sz"
    using assms by (auto simp: merge_wf_def slots_wf_def)
  with assms st show ?thesis
    by (cases "s' = s"; cases "j = i") (simp_all add: fas_add_def Let_def)
qed

lemma exec_fas_clears:
  assumes "merge_wf sz st" "\<forall>e \<in> set es. step_ok sz e" "\<forall>e \<in> set es. \<exists>s i. e = Fas s i"
  shows "fst (fold exec_step es st) ! s' ! j = (if Fas s' j \<in> set es then 0 else fst st ! s' ! j)"
  using assms
proof (induction es arbitrary: st)
  case (Cons e es)
  then obtain s i where e: "e = Fas s i" by auto
  have "merge_wf sz (fas_add s i st)"
    using exec_step_inv(1) [OF Cons.prems(1), of e] Cons.prems(2) e by simp
  then show ?case
    using Cons e fas_add_clears [OF Cons.prems(1), of s i s' j] by auto
qed simp

lemma fas_set_as_add:
  assumes "length array = sz" "n \<le> sz" "fold (fas_set 0) [0..<n] (slots, array, nev) = (S, A, N)"
  shows "length A = sz \<and> fold (fas_add 0) [0..<n] (slots, replicate sz 0, nev) = (S, take n A @ replicate (sz - n) 0, N)"
  using assms(2,3)
proof (induction n arbitrary: S A N)
  case 0
  then show ?case using assms(1) by simp
next
  case (Suc n)
  obtain S0 A0 N0 where f: "fold (fas_set 0) [0..<n] (slots, array, nev) = (S0, A0, N0)"
    by (metis prod_cases3)
  with Suc have ih: "length A0 = sz" "fold (fas_add 0) [0..<n] (slots, replicate sz 0, nev) = (S0, take n A0 @ replicate (sz - n) 0, N0)"
    by auto
  have r: "replicate (sz - n) (0 :: u64) = 0 # replicate (sz - Suc n) 0"
    using Suc.prems(1) by (metis Suc_diff_Suc Suc_le_lessD replicate_Suc)
  have "fas_set 0 n (S0, A0, N0) = (S, A, N)"
    using Suc.prems(2) f by simp
  then have A: "S = S0[0 := (S0 ! 0)[n := 0]]" "A = A0[n := S0 ! 0 ! n]" "N = N0 + S0 ! 0 ! n"
    by (simp_all add: fas_set_def Let_def)
  have "fold (fas_add 0) [0..<Suc n] (slots, replicate sz 0, nev) = fas_add 0 n (S0, take n A0 @ replicate (sz - n) 0, N0)"
    using ih(2) by simp
  also have "\<dots> = (S, take (Suc n) A @ replicate (sz - Suc n) 0, N)"
    using ih(1) A Suc.prems(1)
    by (simp add: fas_add_def Let_def r nth_append take_Suc_conv_app_nth min_absorb2 list_update_append)
  finally show ?case
    using ih(1) A(2) by simp
qed

lemma merge_into_temp_steps:
  assumes "length array = sz"
  shows "merge_into_temp sz (slots, array, nev) =
    fold exec_step (merge_steps [0..<SB_HISTOGRAM_NSLOTS] sz) (slots, replicate sz 0, nev)"
proof -
  obtain S A N where f: "fold (fas_set 0) [0..<sz] (slots, array, nev) = (S, A, N)"
    by (metis prod_cases3)
  from fas_set_as_add [OF assms order_refl f]
  have "fold (fas_set 0) [0..<sz] (slots, array, nev) = fold (fas_add 0) [0..<sz] (slots, replicate sz 0, nev)"
    using f by simp
  moreover have "[0..<SB_HISTOGRAM_NSLOTS] = 0 # [1..<SB_HISTOGRAM_NSLOTS]"
    by (simp add: SB_HISTOGRAM_NSLOTS_def upt_conv_Cons)
  ultimately show ?thesis
    by (simp add: merge_into_temp_def fold_fas_add [symmetric])
qed

lemma merge_steps_result:
  assumes "slots_wf sz slots" "length array = sz"
    and "fold exec_step (merge_steps [0..<SB_HISTOGRAM_NSLOTS] sz) (slots, array, nev) = (S, A, N)"
  shows "slots_wf sz S" and "length A = sz" and "b < sz \<Longrightarrow> col S b = 0"
    and "b < sz \<Longrightarrow> A ! b = col slots b + array ! b" and "N - sum_list A = nev - sum_list array"
proof -
  let ?es = "merge_steps [0..<SB_HISTOGRAM_NSLOTS] sz"
  have wf: "merge_wf sz (slots, array, nev)"
    using assms(1,2) by (simp add: merge_wf_def)
  have ok: "\<forall>e \<in> set ?es. step_ok sz e"
    by (intro merge_steps_ok) auto
  note inv = exec_steps_inv [OF wf ok, unfolded assms(3)]
  show S: "slots_wf sz S" and "length A = sz"
    using inv(1) by (simp_all add: merge_wf_def)
  show "N - sum_list A = nev - sum_list array"
    using inv(3) by (simp add: uncounted_def)
  assume b: "b < sz"
  have "S ! s ! b = 0" if "s < SB_HISTOGRAM_NSLOTS" for s
  proof -
    have "Fas s b \<in> set ?es" "\<forall>e \<in> set ?es. \<exists>s i. e = Fas s i"
      using that b by (force simp: merge_steps_def)+
    then show ?thesis
      using exec_fas_clears [OF wf ok, of s b] assms(3) by simp
  qed
  then have "map (\<lambda>r. r ! b) S = replicate SB_HISTOGRAM_NSLOTS 0"
    using S by (intro nth_equalityI) (simp_all add: slots_wf_def)
  then show c: "col S b = 0"
    by (simp add: col_def sum_list_replicate)
  show "A ! b = col slots b + array ! b"
    using inv(2) [OF b] c by (simp add: bucket_total_def incs_merge_steps)
qed

lemma sum_list_col:
  assumes "slots_wf sz slots" "fold exec_step (merge_steps [0..<SB_HISTOGRAM_NSLOTS] sz) (slots, replicate sz 0, 0) = (S, A, N)"
  shows "A = map (col slots) [0..<sz]" and "N = sum_list A"
  using merge_steps_result [OF assms(1) _ assms(2)] by (auto intro: nth_equalityI simp: sum_list_replicate)

lemma merge_cumulative_result:
  assumes "hist_wf h"
  defines "h' \<equiv> merge_intermediate_into_cumulative h"
  shows "hist_wf h'" and "cumulative_array h' = map (hist_count h) [0..<array_size h]"
    and "b < array_size h \<Longrightarrow> col (interm_slots h') b = 0"
    and "array_size h' = array_size h" "range_mult h' = range_mult h" "range_deduct h' = range_deduct h"
    and "hist_locked h' = hist_locked h"
proof -
  obtain S A N where f: "fold exec_step (merge_steps [0..<SB_HISTOGRAM_NSLOTS] (array_size h))
      (interm_slots h, cumulative_array h, cumulative_nevents h) = (S, A, N)"
    by (metis prod_cases3)
  have wf: "slots_wf (array_size h) (interm_slots h)" "length (cumulative_array h) = array_size h"
    using assms(1) by (simp_all add: hist_wf_def)
  note r = merge_steps_result [OF wf f]
  have h': "h' = h\<lparr>interm_slots := S, cumulative_array := A, cumulative_nevents := N\<rparr>"
    using f by (simp add: h'_def merge_intermediate_into_cumulative_def fold_fas_add)
  have "A = map (hist_count h) [0..<array_size h]"
    using r(2,4) by (intro nth_equalityI) (simp_all add: hist_count_def)
  moreover have "N = sum_list A"
    using r(5) assms(1) by (simp add: hist_wf_def)
  ultimately show "hist_wf h'" and "cumulative_array h' = map (hist_count h) [0..<array_size h]"
    and "b < array_size h \<Longrightarrow> col (interm_slots h') b = 0"
    and "array_size h' = array_size h" "range_mult h' = range_mult h" "range_deduct h' = range_deduct h"
    and "hist_locked h' = hist_locked h"
    using assms(1) r by (simp_all add: h' hist_wf_def)
qed

lemma percentile_scan_least:
  assumes "unat ncur + sum_list (map unat as) < 2 ^ 64"
  shows "\<exists>i. percentile_scan nmax ncur as k = k + i \<and> i \<le> length as \<and>
    (\<forall>j < i. unat ncur + sum_list (map unat (take (Suc j) as)) < unat nmax) \<and>
    (i < length as \<longrightarrow> unat nmax \<le> unat ncur + sum_list (map unat (take (Suc i) as)))"
  using assms
proof (induction as arbitrary: ncur k)
  case Nil
  then show ?case by simp
next
  case (Cons a as)
  have na: "unat (ncur + a) = unat ncur + unat a"
    using Cons.prems by (intro unat_add_lem [THEN iffD1]) simp
  show ?case
  proof (cases "nmax \<le> ncur + a")
    case True
    then show ?thesis
      using na by (intro exI [of _ 0]) (simp add: word_le_nat_alt)
  next
    case False
    from Cons.IH [of "ncur + a" "Suc k"] na Cons.prems obtain i where i:
      "percentile_scan nmax (ncur + a) as (Suc k) = Suc k + i" "i \<le> length as"
      "\<forall>j < i. unat (ncur + a) + sum_list (map unat (take (Suc j) as)) < unat nmax"
      "i < length as \<longrightarrow> unat nmax \<le> unat (ncur + a) + sum_list (map unat (take (Suc i) as))"
      by auto
    have "unat ncur + sum_list (map unat (take (Suc j) (a # as))) < unat nmax" if "j < Suc i" for j
      using that i(3) na False by (cases j) (auto simp: word_le_nat_alt not_le add.assoc)
    then show ?thesis
      using i na False by (intro exI [of _ "Suc i"]) (auto simp: add.assoc)
  qed
qed

text \<open>Number of events in the first \<open>n\<close> buckets, given the counts.\<close>

definition prefix_events :: "(nat \<Rightarrow> u64) \<Rightarrow> nat \<Rightarrow> nat" where
  "prefix_events c n = (\<Sum>b < n. unat (c b))"

text \<open>The bucket \<open>i\<close> is the first at which the prefix reaches \<open>nmax\<close>, or \<open>sz\<close> if none does.\<close>

definition first_reaching :: "(nat \<Rightarrow> u64) \<Rightarrow> nat \<Rightarrow> nat \<Rightarrow> nat \<Rightarrow> bool" where
  "first_reaching c sz nmax i \<longleftrightarrow> i \<le> sz \<and> (\<forall>j < i. prefix_events c (Suc j) < nmax) \<and>
     (i < sz \<longrightarrow> nmax \<le> prefix_events c (Suc i))"

lemma percentile_scan_first:
  assumes "prefix_events c sz < 2 ^ 64"
  shows "first_reaching c sz (unat nmax) (percentile_scan nmax 0 (map c [0..<sz]) 0)"
proof -
  have pre: "sum_list (map unat (take n (map c [0..<sz]))) = prefix_events c n" if "n \<le> sz" for n
    using that by (simp add: prefix_events_def take_map min_absorb2 comp_def interv_sum_list_conv_sum_set_nat lessThan_atLeast0)
  have "unat (0 :: u64) + sum_list (map unat (map c [0..<sz])) < 2 ^ 64"
    using assms pre [of sz] by simp
  from percentile_scan_least [OF this, of nmax 0] obtain i where i:
    "percentile_scan nmax 0 (map c [0..<sz]) 0 = i" "i \<le> sz"
    "\<forall>j < i. sum_list (map unat (take (Suc j) (map c [0..<sz]))) < unat nmax"
    "i < sz \<longrightarrow> unat nmax \<le> sum_list (map unat (take (Suc i) (map c [0..<sz])))"
    by auto
  then show ?thesis
    using pre by (auto simp: first_reaching_def simp del: take_Suc_conv_app_nth take_map)
qed

lemma bucket_less: "0 < array_size h \<Longrightarrow> bucket fp h v < array_size h"
  by (auto simp: bucket_def Let_def)

lemma bucket_value_cong:
  "range_mult h' = range_mult h \<Longrightarrow> range_deduct h' = range_deduct h \<Longrightarrow> bucket_value fp h' i = bucket_value fp h i"
  by (simp add: bucket_value_def)

lemma sum_list_counts: "sum_list (map c [0..<n]) = (of_nat (prefix_events c n) :: u64)"
  by (induction n) (simp_all add: prefix_events_def)

lemma prefix_events_2: "prefix_events c 2 = unat (c 0) + unat (c 1)"
  by (simp add: prefix_events_def numeral_2_eq_2)

lemma prefix_events_3: "prefix_events c 3 = unat (c 0) + unat (c 1) + unat (c 2)"
  by (simp add: prefix_events_def numeral_3_eq_3 numeral_2_eq_2)

section \<open>Properties\<close>

text \<open>
  An update, whatever the value and the floating-point arithmetic, adds
  one event to exactly one bucket inside the array, values outside the tracked range going to
  the first or last bucket, and keeps the histogram well formed.
\<close>

theorem hist_update_counts:
  assumes "hist_wf h"
  shows "bucket fp h v < array_size h \<and> hist_wf (sb_histogram_update fp rnd v h) \<and>
    (\<forall>b < array_size h. hist_count (sb_histogram_update fp rnd v h) b =
       hist_count h b + (if b = bucket fp h v then 1 else 0))"
proof -
  let ?s = "unat rnd mod SB_HISTOGRAM_NSLOTS" and ?i = "bucket fp h v"
  have s: "?s < SB_HISTOGRAM_NSLOTS"
    by (simp add: SB_HISTOGRAM_NSLOTS_def)
  have i: "?i < array_size h"
    using assms by (simp add: hist_wf_def bucket_less)
  have wf: "slots_wf (array_size h) (interm_slots h)"
    using assms by (simp add: hist_wf_def)
  show ?thesis
    using assms i slots_wf_update [OF wf s] col_update [OF wf s i]
    by (auto simp: sb_histogram_update_def slot_inc_def hist_wf_def hist_count_def)
qed

theorem hist_update_counts_witness:
  "hist_wf (sb_histogram_update (rounded_ops (\<lambda>x. x) (\<lambda>x. x) (\<lambda>x y. x)) 300 7
     \<lparr>cumulative_array = [0, 0, 0], cumulative_nevents = 0, temp_array = [0, 0, 0],
      interm_slots = replicate 128 [0, 0, 0], array_size = 3, range_min = 1, range_max = 3,
      range_deduct = 1, range_mult = 1, hist_locked = False\<rparr>)"
  using hist_update_counts [of "\<lparr>cumulative_array = [0, 0, 0], cumulative_nevents = 0, temp_array = [0, 0, 0],
      interm_slots = replicate 128 [0, 0, 0], array_size = 3, range_min = 1, range_max = 3,
      range_deduct = 1, range_mult = 1, hist_locked = False\<rparr>" "rounded_ops (\<lambda>x. x) (\<lambda>x. x) (\<lambda>x y. x)" 7 300]
  by (simp add: hist_wf_def slots_wf_def SB_HISTOGRAM_NSLOTS_def)

text \<open>
  C10 (hist_interleaved_merge): updates take no lock, so their increments may fall between any
  two of the fetch-and-store steps of a merge.  In every interleaving, each bucket keeps its
  total: what is left in the slots plus what was merged grows by exactly the increments made,
  and the event counter stays in step with the merged array.  No concurrent update is lost or
  counted twice.
\<close>

theorem hist_interleaved_merge:
  assumes "slots_wf sz slots" "length array = sz" "\<forall>e \<in> set es. step_ok sz e" "b < sz"
    and "fold exec_step es (slots, array, nevents) = (slots', array', nevents')"
  shows "col slots' b + array' ! b = col slots b + array ! b + of_nat (sum_list (map (incs_of b) es)) \<and>
    nevents' - nevents = sum_list array' - sum_list array"
proof -
  have "merge_wf sz (slots, array, nevents)"
    using assms(1,2) by (simp add: merge_wf_def)
  from exec_steps_inv(2,3) [OF this assms(3)] assms(4,5) show ?thesis
    by (simp add: bucket_total_def uncounted_def algebra_simps)
qed

theorem hist_interleaved_merge_witness:
  "col (fst (fold exec_step [Fas 0 1, Inc 0 1, Fas 5 1, Inc 3 1] (replicate 128 [4, 2], [0, 0], 0))) 1 +
   fst (snd (fold exec_step [Fas 0 1, Inc 0 1, Fas 5 1, Inc 3 1] (replicate 128 [4, 2], [0, 0], 0))) ! 1 =
   col (replicate 128 [4, 2]) 1 + 0 + 2"
proof -
  let ?es = "[Fas 0 1, Inc 0 1, Fas 5 1, Inc 3 1]"
  obtain S A N where f: "fold exec_step ?es (replicate 128 [4, 2], [0, 0], 0) = (S, A, N)"
    by (metis prod_cases3)
  have "slots_wf 2 (replicate 128 [4, 2])" "\<forall>e \<in> set ?es. step_ok 2 e"
    by (simp_all add: slots_wf_def SB_HISTOGRAM_NSLOTS_def)
  from hist_interleaved_merge [OF this(1) _ this(2) _ f, of 1] f show ?thesis
    by simp
qed

text \<open>
  C26 (hist_percentile_cumulative): with the lock free, the cumulative percentile routine returns;
  its result is the value of the first bucket at which the number of events counted so far
  reaches the share of the total that the percentile asks for.  No count changes, so repeated
  reports see every event; the checkpoint variant returns the same value and leaves every count
  at zero.  Both release the lock.
\<close>

theorem hist_percentile_cumulative:
  assumes "hist_wf h" "\<not> hist_locked h" "prefix_events (hist_count h) (array_size h) < 2 ^ 64"
  shows "\<exists>h1 h2 i. sb_histogram_get_pct_cumulative fp p h = Some (h1, bucket_value fp h i) \<and>
    sb_histogram_get_pct_checkpoint fp p h = Some (h2, bucket_value fp h i) \<and>
    first_reaching (hist_count h) (array_size h)
      (unat (percentile_nmax fp (of_nat (prefix_events (hist_count h) (array_size h))) p)) i \<and>
    hist_wf h1 \<and> \<not> hist_locked h1 \<and> (\<forall>b < array_size h. hist_count h1 b = hist_count h b) \<and>
    hist_wf h2 \<and> \<not> hist_locked h2 \<and> (\<forall>b < array_size h. hist_count h2 b = 0)"
proof -
  let ?hl = "h\<lparr>hist_locked := True\<rparr>"
  let ?m = "merge_intermediate_into_cumulative ?hl"
  have wf: "hist_wf ?hl"
    using assms(1) by (simp add: hist_wf_def)
  note r = merge_cumulative_result [OF wf]
  have count: "hist_count ?hl = hist_count h"
    by (simp add: hist_count_def fun_eq_iff)
  let ?i = "percentile_scan (percentile_nmax fp (of_nat (prefix_events (hist_count h) (array_size h))) p) 0
    (map (hist_count h) [0..<array_size h]) 0"
  have nev: "cumulative_nevents ?m = of_nat (prefix_events (hist_count h) (array_size h))"
    using r(1,2) by (simp add: hist_wf_def count sum_list_counts)
  have pct: "get_pct_cumulative fp p ?m = bucket_value fp h ?i"
    using r(2,4-6) by (simp add: get_pct_cumulative_def nev count bucket_value_def)
  have "hist_count ?m b = hist_count h b" if "b < array_size h" for b
    using that r(2,3) by (simp add: hist_count_def [of ?m] count)
  then show ?thesis
    using assms(2) r(1,3,4) pct percentile_scan_first [OF assms(3)]
    by (intro exI [of _ "unlock ?m"] exI [of _ "unlock (?m\<lparr>cumulative_array := replicate (array_size ?m) 0,
        cumulative_nevents := 0\<rparr>)"] exI [of _ ?i])
      (simp add: sb_histogram_get_pct_cumulative_def sb_histogram_get_pct_checkpoint_def wrlock_def unlock_def
        hist_wf_def hist_count_def sum_list_replicate)
qed

theorem hist_percentile_cumulative_witness:
  "\<exists>h1 v. sb_histogram_get_pct_cumulative (rounded_ops (\<lambda>x. x) (\<lambda>x. x) (\<lambda>x y. x)) 95
     \<lparr>cumulative_array = [1, 9, 0], cumulative_nevents = 10, temp_array = [0, 0, 0],
      interm_slots = replicate 128 [0, 0, 0], array_size = 3, range_min = 1, range_max = 3,
      range_deduct = 1, range_mult = 1, hist_locked = False\<rparr> = Some (h1, v) \<and> \<not> hist_locked h1"
proof -
  let ?h = "\<lparr>cumulative_array = [1, 9, 0], cumulative_nevents = 10, temp_array = [0, 0, 0],
      interm_slots = replicate 128 [0, 0, 0], array_size = 3, range_min = 1, range_max = 3,
      range_deduct = 1, range_mult = 1, hist_locked = False\<rparr> :: rat sb_histogram_t"
  have "hist_count ?h 0 = 1" "hist_count ?h 1 = 9" "hist_count ?h 2 = 0"
    by (simp_all add: hist_count_def col_def sum_list_replicate)
  then have "prefix_events (hist_count ?h) (array_size ?h) < 2 ^ 64"
    using prefix_events_3 [of "hist_count ?h"] by simp
  moreover have "hist_wf ?h" "\<not> hist_locked ?h"
    by (simp_all add: hist_wf_def slots_wf_def SB_HISTOGRAM_NSLOTS_def)
  ultimately show ?thesis
    using hist_percentile_cumulative [of ?h "rounded_ops (\<lambda>x. x) (\<lambda>x. x) (\<lambda>x y. x)" 95] by blast
qed

lemma intermediate_result:
  assumes "hist_wf h" "\<not> hist_locked h"
  shows "\<exists>h'. sb_histogram_get_pct_intermediate fp p h =
      Some (h', bucket_value fp h (percentile_scan (percentile_nmax fp
        (of_nat (prefix_events (col (interm_slots h)) (array_size h))) p) 0 (map (col (interm_slots h)) [0..<array_size h]) 0)) \<and>
    hist_wf h' \<and> \<not> hist_locked h' \<and> array_size h' = array_size h \<and>
    (\<forall>b < array_size h. hist_count h' b = hist_count h b \<and> col (interm_slots h') b = 0)"
proof -
  let ?sz = "array_size h" and ?c = "col (interm_slots h)"
  obtain S A N where f: "merge_into_temp ?sz (interm_slots h, temp_array h, 0) = (S, A, N)"
    by (metis prod_cases3)
  have wf: "slots_wf ?sz (interm_slots h)" "length (temp_array h) = ?sz" "length (cumulative_array h) = ?sz"
    using assms(1) by (simp_all add: hist_wf_def)
  have g: "fold exec_step (merge_steps [0..<SB_HISTOGRAM_NSLOTS] ?sz) (interm_slots h, replicate ?sz 0, 0) = (S, A, N)"
    using f merge_into_temp_steps [OF wf(2)] by simp
  have A: "A = map ?c [0..<?sz]" and N: "N = of_nat (prefix_events ?c ?sz)"
    using sum_list_col [OF wf(1) g] by (simp_all add: sum_list_counts)
  note r = merge_steps_result [OF wf(1) _ g]
  let ?C = "add_arrays ?sz A (cumulative_array h)"
  have len: "length ?C = ?sz"
    using wf(3) by (simp add: add_arrays_def length_fold_update)
  have C: "?C ! b = cumulative_array h ! b + ?c b" if "b < ?sz" for b
  proof -
    have "set [0..<?sz] \<subseteq> {..<length (cumulative_array h)}"
      using wf(3) by auto
    then show ?thesis
      using that wf(3) fold_add_points [of "[0..<?sz]" "cumulative_array h" b "nth A"]
      by (simp add: add_arrays_def A)
  qed
  then have "?C = map (\<lambda>b. cumulative_array h ! b + ?c b) [0..<?sz]"
    using len by (intro nth_equalityI) simp_all
  then have "sum_list ?C = sum_list (map (nth (cumulative_array h)) [0..<?sz]) + sum_list (map ?c [0..<?sz])"
    by (simp only: sum_list_addf)
  moreover have "map (nth (cumulative_array h)) [0..<?sz] = cumulative_array h"
    using map_nth [of "cumulative_array h"] by (simp only: wf(3))
  ultimately have sum: "sum_list ?C = cumulative_nevents h + N"
    using assms(1) sum_list_counts [of ?c ?sz] by (simp only: hist_wf_def N)
  show ?thesis
    using assms r(1,3) C len sum f A N
    by (intro exI [of _ "h\<lparr>interm_slots := S, temp_array := A, cumulative_array := ?C,
        cumulative_nevents := cumulative_nevents h + N\<rparr>"])
      (simp add: sb_histogram_get_pct_intermediate_def wrlock_def unlock_def hist_wf_def hist_count_def bucket_value_def)
qed

text \<open>
  The intermediate routine computes its percentile from the
  events since the previous merge only, then adds them to the cumulative counts: bucket totals
  are kept, the slots are empty afterwards and the lock is released.
\<close>

theorem hist_percentile_intermediate:
  assumes "hist_wf h" "\<not> hist_locked h" "prefix_events (col (interm_slots h)) (array_size h) < 2 ^ 64"
  shows "\<exists>h' i. sb_histogram_get_pct_intermediate fp p h = Some (h', bucket_value fp h i) \<and>
    first_reaching (col (interm_slots h)) (array_size h)
      (unat (percentile_nmax fp (of_nat (prefix_events (col (interm_slots h)) (array_size h))) p)) i \<and>
    hist_wf h' \<and> \<not> hist_locked h' \<and>
    (\<forall>b < array_size h. hist_count h' b = hist_count h b \<and> col (interm_slots h') b = 0)"
  using intermediate_result [OF assms(1,2), of fp p] percentile_scan_first [OF assms(3)] by blast

theorem hist_percentile_intermediate_witness:
  "\<exists>h' v. sb_histogram_get_pct_intermediate (rounded_ops (\<lambda>x. x) (\<lambda>x. x) (\<lambda>x y. x)) 95
     \<lparr>cumulative_array = [1, 9], cumulative_nevents = 10, temp_array = [0, 0],
      interm_slots = replicate 128 [0, 1], array_size = 2, range_min = 1, range_max = 3,
      range_deduct = 1, range_mult = 1, hist_locked = False\<rparr> = Some (h', v) \<and> \<not> hist_locked h'"
proof -
  let ?h = "\<lparr>cumulative_array = [1, 9], cumulative_nevents = 10, temp_array = [0, 0],
      interm_slots = replicate 128 [0, 1], array_size = 2, range_min = 1, range_max = 3,
      range_deduct = 1, range_mult = 1, hist_locked = False\<rparr> :: rat sb_histogram_t"
  have "col (interm_slots ?h) 0 = 0" "col (interm_slots ?h) 1 = 128"
    by (simp_all add: col_def sum_list_replicate)
  then have "prefix_events (col (interm_slots ?h)) (array_size ?h) < 2 ^ 64"
    using prefix_events_2 [of "col (interm_slots ?h)"] by simp
  moreover have "hist_wf ?h" "\<not> hist_locked ?h"
    by (simp_all add: hist_wf_def slots_wf_def SB_HISTOGRAM_NSLOTS_def)
  ultimately show ?thesis
    using hist_percentile_intermediate [of ?h "rounded_ops (\<lambda>x. x) (\<lambda>x. x) (\<lambda>x y. x)" 95] by blast
qed

section \<open>Deviations\<close>

text \<open>
  Printing a histogram without events returns with the write lock held: the next percentile
  report never gets the lock.
\<close>

lemma hist_print_keeps_lock:
  assumes "hist_wf h" "\<not> hist_locked h" "\<forall>b < array_size h. hist_count h b = 0"
  shows "\<exists>h'. sb_histogram_print fp h = Some (h', []) \<and> hist_locked h' \<and>
    sb_histogram_get_pct_cumulative fp p h' = None"
proof -
  let ?m = "merge_intermediate_into_cumulative (h\<lparr>hist_locked := True\<rparr>)"
  have "hist_wf (h\<lparr>hist_locked := True\<rparr>)"
    using assms(1) by (simp add: hist_wf_def)
  note r = merge_cumulative_result [OF this]
  have "cumulative_array ?m = replicate (array_size h) 0"
    using r(2) assms(3) by (intro nth_equalityI) (simp_all add: hist_count_def)
  moreover have "foldl (\<lambda>m a. if a > m then a else m) (0 :: u64) (replicate n 0) = 0" for n
    by (induction n) simp_all
  ultimately have "sb_histogram_print fp h = Some (?m, [])"
    using assms(2) r(4) by (simp add: sb_histogram_print_def wrlock_def)
  moreover have "hist_locked ?m"
    using r(7) by simp
  ultimately show ?thesis
    by (simp add: sb_histogram_get_pct_cumulative_def wrlock_def)
qed

text \<open>
  \<open>sb_histogram_init\<close> does not set \<open>cumulative_nevents\<close>, so a histogram from
  \<open>sb_histogram_new\<close> starts with whatever the allocated memory held.
\<close>

lemma hist_new_keeps_garbage:
  "sb_histogram_new fp True True garbage sz a b = Some h \<Longrightarrow> cumulative_nevents h = cumulative_nevents garbage"
  by (auto simp: sb_histogram_new_def sb_histogram_init_def Let_def)

end
