(* ===== verification/SB_Primes.thy ===== *)
theory SB_Primes
  imports Complex_Main
begin

text \<open>
  The number theory behind the unique-number generator of \<open>src/src/sb_rand.c\<close>: Fermat's little
  theorem, a primality criterion of Pocklington's kind with prime powers, the primality of
  4294967291, and squares modulo a prime that is 3 modulo 4.
\<close>

section \<open>Primes\<close>

definition is_prime :: "nat \<Rightarrow> bool" where
  "is_prime p \<longleftrightarrow> 1 < p \<and> (\<forall>d. d dvd p \<longrightarrow> d = 1 \<or> d = p)"

text \<open>Modular exponentiation by squaring, to evaluate the powers of a certificate.\<close>

fun pow_mod :: "nat \<Rightarrow> nat \<Rightarrow> nat \<Rightarrow> nat" where
  "pow_mod a e n =
     (if e = 0 then 1 mod n
      else let h = pow_mod (a * a mod n) (e div 2) n in if e mod 2 = 1 then a * h mod n else h)"

declare pow_mod.simps [simp del]

lemma pow_mod_correct: "pow_mod a e n = a ^ e mod n"
proof (induction a e n rule: pow_mod.induct)
  case (1 a e n)
  show ?case
  proof (cases "e = 0")
    case True
    then show ?thesis by (simp add: pow_mod.simps)
  next
    case False
    then have h: "pow_mod (a * a mod n) (e div 2) n = (a * a) ^ (e div 2) mod n"
      using 1 by (simp add: power_mod)
    have sq: "(a * a) ^ (e div 2) = a ^ (2 * (e div 2))"
      by (simp add: power_mult power2_eq_square)
    show ?thesis
    proof (cases "e mod 2 = 1")
      case True
      then have "e = Suc (2 * (e div 2))" by presburger
      then have "a ^ e = a * (a * a) ^ (e div 2)"
        unfolding sq by (metis power_Suc)
      with True False show ?thesis
        by (subst pow_mod.simps) (simp add: h Let_def mod_mult_right_eq)
    next
      case False
      then have "e = 2 * (e div 2)" by presburger
      then have "a ^ e = (a * a) ^ (e div 2)"
        unfolding sq by metis
      with False \<open>e \<noteq> 0\<close> show ?thesis
        by (subst pow_mod.simps) (simp add: h Let_def)
    qed
  qed
qed

lemma is_prime_coprime: "is_prime p \<Longrightarrow> \<not> p dvd a \<Longrightarrow> coprime p a"
  unfolding is_prime_def by (metis coprime_iff_gcd_eq_1 gcd_dvd1 gcd_dvd2)

lemma is_prime_dvd_mult: "is_prime p \<Longrightarrow> p dvd a * b \<Longrightarrow> p dvd a \<or> p dvd b"
  using is_prime_coprime coprime_dvd_mult_right_iff by blast

lemma prime_divisor_exists:
  assumes "1 < n"
  shows "\<exists>p. is_prime p \<and> p dvd n"
proof -
  define p where "p = (LEAST d. 1 < d \<and> d dvd n)"
  have p: "1 < p" "p dvd n"
    using LeastI [of "\<lambda>d. 1 < d \<and> d dvd n" n] assms by (auto simp: p_def)
  have "d = 1 \<or> d = p" if "d dvd p" for d
  proof (rule ccontr)
    assume "\<not> (d = 1 \<or> d = p)"
    moreover have "0 < d" "d \<le> p"
      using that p(1) by (cases d; auto dest: dvd_imp_le)+
    ultimately have "1 < d" "d < p" by auto
    moreover have "d dvd n"
      using that p(2) dvd_trans by blast
    ultimately show False
      using not_less_Least [of d "\<lambda>d. 1 < d \<and> d dvd n"] by (simp add: p_def)
  qed
  with p show ?thesis
    by (auto simp: is_prime_def)
qed

lemma prime_by_small_divisors:
  assumes "1 < n" "\<And>r. is_prime r \<Longrightarrow> r dvd n \<Longrightarrow> n < r * r"
  shows "is_prime n"
proof -
  obtain p where p: "is_prime p" "p dvd n"
    using prime_divisor_exists [OF assms(1)] by blast
  then obtain m where m: "n = p * m" by blast
  have "m = 1"
  proof (rule ccontr)
    assume "m \<noteq> 1"
    moreover have "m \<noteq> 0" using m assms(1) by (cases m) auto
    ultimately obtain q where q: "is_prime q" "q dvd m"
      using prime_divisor_exists [of m] by auto
    then have "q \<le> m"
      using \<open>m \<noteq> 0\<close> by (simp add: dvd_imp_le)
    have "q dvd n" using q(2) m by simp
    then have "n < p * p" "n < q * q"
      using assms(2) p q(1) by blast+
    then have "m < p"
      using m by simp
    then have "m * m \<le> n" "q * q \<le> m * m"
      using m \<open>q \<le> m\<close> by (simp_all add: mult_le_mono)
    then show False
      using \<open>n < q * q\<close> by simp
  qed
  with p m show ?thesis by simp
qed

section \<open>Fermat's little theorem\<close>

lemma prime_dvd_choose:
  assumes "is_prime p" "0 < k" "k < p"
  shows "p dvd (p choose k)"
proof -
  have "k * (p choose k) = p * ((p - 1) choose (k - 1))"
    using Suc_times_binomial_eq [of "p - 1" "k - 1"] assms(2,3) by (simp add: mult.commute)
  then have "p dvd k * (p choose k)" by simp
  moreover have "\<not> p dvd k"
    using assms(2,3) by (auto dest: dvd_imp_le)
  ultimately show ?thesis
    using is_prime_dvd_mult [OF assms(1)] by blast
qed

lemma fermat_self:
  assumes "is_prime p"
  shows "a ^ p mod p = a mod p"
proof (induction a)
  case 0
  then show ?case
    using assms by (simp add: is_prime_def power_0_left)
next
  case (Suc a)
  have p: "0 < p"
    using assms by (simp add: is_prime_def)
  have split: "{..p} = insert 0 (insert p {1..<p})"
    using p by auto
  have "Suc a ^ p = (a + 1) ^ p" by simp
  also have "\<dots> = (\<Sum>k\<le>p. (p choose k) * a ^ k)"
    by (subst binomial_ring) simp
  also have "\<dots> = 1 + a ^ p + (\<Sum>k = 1..<p. (p choose k) * a ^ k)"
    using p by (simp add: split)
  finally have "Suc a ^ p mod p = (1 + a ^ p + (\<Sum>k = 1..<p. (p choose k) * a ^ k)) mod p"
    by simp
  also have "p dvd (\<Sum>k = 1..<p. (p choose k) * a ^ k)"
    using assms by (intro dvd_sum dvd_mult2 prime_dvd_choose) auto
  then have "(1 + a ^ p + (\<Sum>k = 1..<p. (p choose k) * a ^ k)) mod p = (1 + a ^ p) mod p"
    by (metis add.right_neutral mod_add_right_eq mod_eq_0_iff_dvd)
  also have "\<dots> = Suc a mod p"
    using Suc by (metis Suc_eq_plus1_left mod_add_right_eq)
  finally show ?case .
qed

lemma cong_cancel:
  assumes "is_prime p" "\<not> p dvd (a :: nat)" "a * b mod p = a * c mod p"
  shows "b mod p = c mod p"
proof -
  have "b mod p = c mod p" if "a * b mod p = a * c mod p" "c \<le> b" for b c
  proof -
    have "p dvd a * b - a * c"
      using that by (metis mod_eq_dvd_iff_nat mult_le_mono2)
    then have "p dvd a * (b - c)"
      by (simp add: diff_mult_distrib2)
    then show ?thesis
      using is_prime_dvd_mult [OF assms(1)] assms(2) that(2) by (metis mod_eq_dvd_iff_nat)
  qed
  from this [of b c] this [of c b] assms(3) show ?thesis
    by (metis nat_le_linear)
qed

lemma fermat:
  assumes "is_prime p" "\<not> p dvd a"
  shows "a ^ (p - 1) mod p = 1"
proof -
  have p: "1 < p"
    using assms(1) by (simp add: is_prime_def)
  have "a * a ^ (p - 1) = a ^ p"
    using p by (metis less_trans power_eq_if zero_less_one less_numeral_extra(3))
  then have "a * a ^ (p - 1) mod p = a * 1 mod p"
    using fermat_self [OF assms(1), of a] by simp
  from cong_cancel [OF assms this] p show ?thesis
    by simp
qed

section \<open>A primality criterion\<close>

text \<open>A proper divisor of a prime power divides the next smaller power.\<close>

lemma prime_power_divisor:
  assumes "is_prime q" "d dvd q ^ Suc k" "d \<noteq> q ^ Suc k"
  shows "d dvd q ^ k"
proof -
  obtain e where e: "q ^ Suc k = d * e"
    using assms(2) by blast
  have "q dvd e"
  proof (rule ccontr)
    assume "\<not> q dvd e"
    then have "coprime (q ^ Suc k) e"
      using is_prime_coprime [OF assms(1)] by simp
    moreover have "e dvd q ^ Suc k"
      using e by simp
    ultimately have "e dvd 1"
      by (metis coprime_common_divisor dvd_refl)
    then show False
      using e assms(3) by simp
  qed
  then obtain e' where "e = q * e'" by blast
  moreover have "q \<noteq> 0"
    using assms(1) by (simp add: is_prime_def)
  ultimately have "q ^ k = d * e'"
    using e by simp
  then show ?thesis by simp
qed

lemma power_one_mult:
  assumes "1 < (n :: nat)" "b ^ m mod n = 1"
  shows "b ^ (m * k) mod n = 1"
proof -
  have "(b ^ m) ^ k mod n = (b ^ m mod n) ^ k mod n"
    by (rule power_mod [symmetric])
  then show ?thesis
    using assms by (simp add: power_mult)
qed

lemma power_one_gcd:
  assumes "1 < (n :: nat)" "b ^ x mod n = 1" "b ^ y mod n = 1" "x \<noteq> 0"
  shows "b ^ gcd x y mod n = 1"
proof -
  obtain u v where uv: "u * x = v * y + gcd x y"
    using bezout_nat [OF assms(4), of y] by (metis mult.commute)
  have one: "b ^ (k * m) mod n = 1" if "b ^ m mod n = 1" for k m
    using power_one_mult [OF assms(1) that, of k] by (simp add: mult.commute)
  have "b ^ (v * y) * b ^ gcd x y mod n = 1"
    using one [OF assms(2), of u] by (simp add: uv power_add)
  then show ?thesis
    using one [OF assms(3), of v] assms(1)
    by (metis mod_mult_left_eq mult_1)
qed

lemma pocklington:
  assumes "1 < n" "is_prime q" "n - 1 = q ^ Suc k * m" "n < q ^ Suc k * q ^ Suc k"
    and "a ^ (n - 1) mod n = 1" "coprime (a ^ ((n - 1) div q) - 1) n" "0 < a"
  shows "is_prime n"
proof (rule prime_by_small_divisors [OF assms(1)])
  fix r
  assume r: "is_prime r" "r dvd n"
  let ?b = "a ^ m"
  have r1: "1 < r"
    using r(1) by (simp add: is_prime_def)
  have q0: "q \<noteq> 0"
    using assms(2) by (simp add: is_prime_def)
  have "a ^ (n - 1) mod r = 1"
  proof -
    have "a ^ (n - 1) mod n mod r = a ^ (n - 1) mod r"
      by (rule mod_mod_cancel [OF r(2)])
    then show ?thesis using assms(5) r1 by simp
  qed
  then have b1: "?b ^ (q ^ Suc k) mod r = 1"
    unfolding assms(3) by (simp add: power_mult [symmetric] mult.commute)
  have "\<not> r dvd a"
  proof
    assume "r dvd a"
    moreover have "0 < n - 1" using assms(1) by simp
    ultimately have "r dvd a ^ (n - 1)"
      by (metis dvd_power dvd_trans)
    then show False
      using \<open>a ^ (n - 1) mod r = 1\<close> by simp
  qed
  then have "\<not> r dvd ?b"
  proof (induction m)
    case 0
    then show ?case using r1 by simp
  next
    case (Suc m)
    then show ?case using is_prime_dvd_mult [OF r(1)] by auto
  qed
  then have b2: "?b ^ (r - 1) mod r = 1"
    by (rule fermat [OF r(1)])
  let ?g = "gcd (q ^ Suc k) (r - 1)"
  have bg: "?b ^ ?g mod r = 1"
    using q0 by (intro power_one_gcd [OF r1 b1 b2]) simp
  have "?g = q ^ Suc k"
  proof (rule ccontr)
    assume "?g \<noteq> q ^ Suc k"
    then have "?g dvd q ^ k"
      by (rule prime_power_divisor [OF assms(2) gcd_dvd1])
    then obtain c where c: "q ^ k = ?g * c" by blast
    have "?b ^ (q ^ k) mod r = 1"
      unfolding c by (rule power_one_mult [OF r1 bg])
    moreover have "(n - 1) div q = m * q ^ k"
      unfolding assms(3) using q0 by (simp add: mult.assoc mult.commute [of m])
    ultimately have "a ^ ((n - 1) div q) mod r = 1 mod r"
      using r1 by (simp add: power_mult)
    moreover have "1 \<le> a ^ ((n - 1) div q)"
      using assms(7) by (simp add: Suc_leI)
    ultimately have "r dvd a ^ ((n - 1) div q) - 1"
      using mod_eq_dvd_iff_nat by blast
    with r(2) assms(6) have "r dvd 1"
      by (metis coprime_common_divisor)
    then show False using r1 by simp
  qed
  then have "q ^ Suc k dvd r - 1"
    by (metis gcd_dvd2)
  then have "q ^ Suc k \<le> r - 1"
    using r1 by (simp add: dvd_imp_le)
  then have "q ^ Suc k < r"
    using r1 by simp
  then show "n < r * r"
    using assms(4) by (meson less_imp_le mult_le_mono order.strict_trans2)
qed

text \<open>The coprimality condition, from the reduced power.\<close>

lemma coprime_power_minus_one:
  assumes "pow_mod a e n = c" "0 < c" "coprime (c - 1) n" "0 < a"
  shows "coprime (a ^ e - 1) n"
proof -
  have "a ^ e mod n = c"
    using assms(1) by (simp add: pow_mod_correct)
  then have "a ^ e - 1 = n * (a ^ e div n) + (c - 1)"
    using mult_div_mod_eq [of n "a ^ e"] assms(2) by simp
  then have "gcd (a ^ e - 1) n = gcd (c - 1) n"
    by (metis gcd.commute gcd_add_mult mult.commute add.commute)
  then show ?thesis
    using assms(3) by (simp add: coprime_iff_gcd_eq_1)
qed

lemma prime_181: "is_prime 181"
proof (rule prime_by_small_divisors)
  fix r :: nat
  assume r: "is_prime r" "r dvd 181"
  show "181 < r * r"
  proof (rule ccontr)
    assume "\<not> 181 < r * r"
    then have "r < 14"
      using mult_le_mono [of 14 r 14 r] by linarith
    moreover have "1 < r"
      using r(1) by (simp add: is_prime_def)
    ultimately have "r = 2 \<or> r = 3 \<or> r = 4 \<or> r = 5 \<or> r = 6 \<or> r = 7 \<or> r = 8 \<or> r = 9 \<or> r = 10 \<or>
        r = 11 \<or> r = 12 \<or> r = 13"
      by presburger
    with r(2) show False by auto
  qed
qed simp

lemma prime_22605091: "is_prime 22605091"
proof (rule pocklington [OF _ prime_181, of _ 1 690 2])
  have c: "pow_mod 2 124890 22605091 = 13954217"
    by (simp add: pow_mod.simps)
  have "coprime (13954217 - 1) (22605091 :: nat)"
    by (simp add: coprime_iff_gcd_eq_1 gcd_non_0_nat)
  moreover have e: "(22605091 - 1) div 181 = (124890 :: nat)" "22605091 - 1 = (22605090 :: nat)"
    by simp_all
  ultimately show "coprime (2 ^ ((22605091 - 1) div 181) - 1) (22605091 :: nat)"
    unfolding e(1) by (intro coprime_power_minus_one [OF c]) simp_all
  have "pow_mod 2 22605090 22605091 = 1"
    by (simp add: pow_mod.simps)
  then show "2 ^ (22605091 - 1) mod 22605091 = (1 :: nat)"
    unfolding e(2) pow_mod_correct .
qed simp_all

text \<open>The modulus of \<open>rand_unique_permute\<close>.\<close>

lemma prime_4294967291: "is_prime 4294967291"
proof (rule pocklington [OF _ prime_22605091, of _ 0 190 2])
  have c: "pow_mod 2 190 4294967291 = 1073745729"
    by (simp add: pow_mod.simps)
  have "coprime (1073745729 - 1) (4294967291 :: nat)"
    by (simp add: coprime_iff_gcd_eq_1 gcd_non_0_nat)
  moreover have e: "(4294967291 - 1) div 22605091 = (190 :: nat)" "4294967291 - 1 = (4294967290 :: nat)"
    by simp_all
  ultimately show "coprime (2 ^ ((4294967291 - 1) div 22605091) - 1) (4294967291 :: nat)"
    unfolding e(1) by (intro coprime_power_minus_one [OF c]) simp_all
  have "pow_mod 2 4294967290 4294967291 = 1"
    by (simp add: pow_mod.simps)
  then show "2 ^ (4294967291 - 1) mod 4294967291 = (1 :: nat)"
    unfolding e(2) pow_mod_correct .
qed simp_all

section \<open>Squares modulo a prime\<close>

lemma square_inj_half:
  assumes "is_prime p" "odd p" "x \<le> p div 2" "y \<le> p div 2" "x * x mod p = y * y mod p"
  shows "x = y"
proof -
  have "x = y" if "x * x mod p = y * y mod p" "y \<le> x" "x \<le> p div 2" for x y
  proof (rule ccontr)
    assume "x \<noteq> y"
    have "x + y \<noteq> 0" "x + y < p" "x - y \<noteq> 0" "x - y < p"
      using \<open>x \<noteq> y\<close> that(2,3) assms(2) by (auto elim!: oddE)
    then have "\<not> p dvd x + y" "\<not> p dvd x - y"
      by (auto dest: dvd_imp_le)
    moreover have "p dvd x * x - y * y"
      using that(1,2) by (metis mod_eq_dvd_iff_nat mult_le_mono)
    moreover have "x * x - y * y = (x + y) * (x - y)"
    proof -
      obtain d where "x = y + d"
        using \<open>y \<le> x\<close> by (metis le_add_diff_inverse)
      then show ?thesis by (simp add: algebra_simps)
    qed
    ultimately show False
      using is_prime_dvd_mult [OF assms(1)] by metis
  qed
  from this [of x y] this [of y x] assms(3-5) show ?thesis
    by (metis nat_le_linear)
qed

text \<open>\<open>-1\<close> is not a square modulo a prime that is 3 modulo 4.\<close>

lemma sum_of_squares:
  assumes "is_prime p" "p mod 4 = 3" "p dvd x * x + y * y"
  shows "p dvd y"
proof (rule ccontr)
  assume y: "\<not> p dvd y"
  have x: "\<not> p dvd x"
  proof
    assume "p dvd x"
    then have "p dvd y * y"
      using assms(3) by (metis dvd_add_right_iff dvd_mult2)
    with y show False
      using is_prime_dvd_mult [OF assms(1)] by blast
  qed
  define e where "e = (p - 1) div 2"
  have e: "p - 1 = 2 * e" "odd e"
    unfolding e_def using assms(2) by presburger+
  have pow: "(int z * int z) ^ e mod int p = 1" if "\<not> p dvd z" for z
  proof -
    have "(int z * int z) ^ e = int (z ^ (p - 1))"
      unfolding e(1) by (simp add: power_mult power2_eq_square)
    then show ?thesis
      using fermat [OF assms(1) that] by (metis of_nat_1 zmod_int)
  qed
  have "int p dvd int x * int x - - (int y * int y)"
    using assms(3) by (metis diff_minus_eq_add int_dvd_int_iff of_nat_add of_nat_mult)
  then have "int p dvd (int x * int x) ^ e - (- (int y * int y)) ^ e"
    unfolding power_diff_sumr2 by (rule dvd_mult2)
  then have "int p dvd (int x * int x) ^ e + (int y * int y) ^ e"
    using e(2) by simp
  then have "((int x * int x) ^ e + (int y * int y) ^ e) mod int p = 0"
    by simp
  then have "(1 + 1) mod int p = 0"
    using pow [OF x] pow [OF y] by (metis mod_add_eq)
  moreover have "2 < p"
    using assms(2) by (cases "p < 3") (auto simp: less_Suc_eq numeral_3_eq_3)
  ultimately show False by simp
qed

text \<open>The map \<open>x \<mapsto> x\<^sup>2\<close> on the lower half and \<open>x \<mapsto> p - x\<^sup>2\<close> on the upper half.\<close>

definition signed_square :: "nat \<Rightarrow> nat \<Rightarrow> nat" where
  "signed_square p x = (if x \<le> p div 2 then x * x mod p else p - x * x mod p)"

lemma signed_square_inj:
  assumes "is_prime p" "p mod 4 = 3"
  shows "inj_on (signed_square p) {..<p}" and "signed_square p ` {..<p} \<subseteq> {..<p}"
proof -
  have p: "odd p" "1 < p"
    using assms by (auto simp: is_prime_def)
  have nz: "x * x mod p \<noteq> 0" if "0 < x" "x < p" for x
  proof
    assume "x * x mod p = 0"
    then have "p dvd x"
      using is_prime_dvd_mult [OF assms(1), of x x] by blast
    then have "p \<le> x"
      using that(1) by (rule dvd_imp_le)
    then show False using that(2) by simp
  qed
  have upper: "x * x mod p = (p - x) * (p - x) mod p" if "x < p" for x
  proof -
    have "(p - x) * (p - x) + p * (2 * x) = x * x + p * p"
    proof -
      obtain d where "p = x + d"
        using \<open>x < p\<close> by (metis le_add_diff_inverse less_imp_le)
      then show ?thesis by (simp add: algebra_simps)
    qed
    then show ?thesis
      by (metis mod_mult_self2 mult.commute)
  qed
  show "inj_on (signed_square p) {..<p}"
  proof (rule inj_onI)
    fix x y
    assume xy: "x \<in> {..<p}" "y \<in> {..<p}" "signed_square p x = signed_square p y"
    have mixed: False if "u \<le> p div 2" "\<not> v \<le> p div 2" "v < p" "u * u mod p = p - v * v mod p" for u v
    proof -
      have "u * u mod p + v * v mod p = p"
        using that(4) p by (metis le_add_diff_inverse2 less_imp_le mod_less_divisor less_trans zero_less_one)
      then have "(u * u + v * v) mod p = 0"
        by (metis mod_add_eq mod_self)
      then have "p dvd u * u + v * v"
        by (rule mod_0_imp_dvd)
      then have "p dvd v"
        by (rule sum_of_squares [OF assms])
      moreover have "0 < v"
        using that(2) by simp
      ultimately have "p \<le> v"
        by (rule dvd_imp_le)
      then show False
        using that(3) by simp
    qed
    consider "x \<le> p div 2" "y \<le> p div 2" | "x \<le> p div 2" "\<not> y \<le> p div 2" |
      "\<not> x \<le> p div 2" "y \<le> p div 2" | "\<not> x \<le> p div 2" "\<not> y \<le> p div 2"
      by blast
    then show "x = y"
    proof cases
      case 1
      then show ?thesis
        using xy(3) square_inj_half [OF assms(1) p(1)] by (simp add: signed_square_def)
    next
      case 2
      then show ?thesis
        using xy mixed [of x y] by (simp add: signed_square_def)
    next
      case 3
      then show ?thesis
        using xy mixed [of y x] by (simp add: signed_square_def)
    next
      case 4
      have "x * x mod p < p" "y * y mod p < p" using p(2) by simp_all
      then have "x * x mod p = y * y mod p"
        using 4 xy(3) by (simp add: signed_square_def)
      then have "(p - x) * (p - x) mod p = (p - y) * (p - y) mod p"
        using upper xy(1,2) by simp
      moreover have "p - x \<le> p div 2" "p - y \<le> p div 2"
        using 4 by linarith+
      ultimately have "p - x = p - y"
        using square_inj_half [OF assms(1) p(1)] by blast
      then show ?thesis
        using xy(1,2) by simp
    qed
  qed
  show "signed_square p ` {..<p} \<subseteq> {..<p}"
    using p(2) nz by (auto simp: signed_square_def)
qed

end
