(* ===== verification/SB_Rand.thy ===== *)
theory SB_Rand
  imports C_Double SB_Options SB_Primes
begin

text \<open>
  Random numbers, \<open>src/src/sb_rand.c\<close>, \<open>src/src/sb_rand.h\<close> and
  \<open>src/src/xoroshiro128plus.h\<close>: the generator, the distributions, random strings and the
  sequence of unique numbers.

  The thread-local generator state is passed explicitly, the static parameters are a record,
  \<open>fp\<close> is the floating-point arithmetic, and the values that successive calls of the C
  library's \<open>random\<close> return are an argument of the seeding routines.
\<close>

unbundle bit_operations_syntax

section \<open>The generator\<close>

type_synonym sb_rng_state_t = "u64 \<times> u64"

definition xoroshiro_rotl :: "u64 \<Rightarrow> nat \<Rightarrow> u64" where
  "xoroshiro_rotl x k = push_bit k x OR drop_bit (64 - k) x"

definition xoroshiro_next :: "sb_rng_state_t \<Rightarrow> u64 \<times> sb_rng_state_t" where
  "xoroshiro_next = (\<lambda>(s0, s1).
     (let result = s0 + s1; s1 = s1 XOR s0
      in (result, (xoroshiro_rotl s0 55 XOR s1 XOR push_bit 14 s1, xoroshiro_rotl s1 36))))"

definition JUMP :: "u64 list" where
  "JUMP = [0xbeac0467eba5facb, 0xd86b048b86aa9922]"

definition xoroshiro_jump :: "sb_rng_state_t \<Rightarrow> sb_rng_state_t" where
  "xoroshiro_jump s =
     fst (fold (\<lambda>i. fold (\<lambda>b ((s0, s1), s).
            ((if bit (JUMP ! i) b then (s0 XOR fst s, s1 XOR snd s) else (s0, s1)), snd (xoroshiro_next s)))
          [0..<64]) [0..<length JUMP] ((0, 0), s))"

definition sb_rand_uniform_uint64 :: "sb_rng_state_t \<Rightarrow> u64 \<times> sb_rng_state_t" where
  "sb_rand_uniform_uint64 s = xoroshiro_next s"

text \<open>The value of the bits of a positive normal \<open>double\<close>.\<close>

definition double_of_bits :: "u64 \<Rightarrow> rat" where
  "double_of_bits i = (1 + of_nat (unat (take_bit 52 i)) / 2 ^ 52) * 2 powi (int (unat (drop_bit 52 i)) - 1023)"

definition uniform_bits :: "u64 \<Rightarrow> u64" where
  "uniform_bits x = push_bit 52 0x3FF OR drop_bit 12 x"

definition sb_rand_uniform_double :: "'d fp_ops \<Rightarrow> sb_rng_state_t \<Rightarrow> 'd \<times> sb_rng_state_t" where
  "sb_rand_uniform_double fp s =
     (let (x, s) = sb_rand_uniform_uint64 s
      in (fp_sub fp (fp_of fp (double_of_bits (uniform_bits x))) (fp_of fp 1), s))"

section \<open>Parameters\<close>

datatype rand_dist_t = DIST_TYPE_UNIFORM | DIST_TYPE_GAUSSIAN | DIST_TYPE_PARETO | DIST_TYPE_ZIPFIAN

record 'd rand_state =
  sb_rand_seed :: int
  rand_type :: rand_dist_t
  rand_iter :: u32
  rand_pct :: u32
  rand_res :: u32
  rand_iter_mult :: 'd
  rand_pct_mult :: 'd
  rand_pct_2_mult :: 'd
  rand_res_mult :: 'd
  pareto_h :: 'd
  pareto_power :: 'd
  zipf_exp :: 'd
  zipf_s :: 'd
  zipf_hIntegralX1 :: 'd
  rand_unique_index :: u32
  rand_unique_offset :: u32

definition rand_args :: "sb_arg_t list" where
  "rand_args =
    [sb_opt ''rand-type'' ''random numbers distribution {uniform, gaussian, pareto, zipfian} to use by default''
       (Some ''uniform'') SB_ARG_TYPE_STRING,
     sb_opt ''rand-seed'' ''seed for random number generator. When 0, the current time is used as an RNG seed.''
       (Some ''0'') SB_ARG_TYPE_INT,
     sb_opt ''rand-pareto-h'' ''shape parameter for the Pareto distribution'' (Some ''0.2'') SB_ARG_TYPE_DOUBLE,
     sb_opt ''rand-zipfian-exp'' ''shape parameter (exponent, theta) for the Zipfian distribution''
       (Some ''0.8'') SB_ARG_TYPE_DOUBLE]"

definition sb_rand_register :: "file_system \<Rightarrow> options \<Rightarrow> options" where
  "sb_rand_register fs opts = fst (sb_register_arg_set fs rand_args opts)"

section \<open>The Zipfian helpers\<close>

definition helper1 :: "'d fp_ops \<Rightarrow> 'd \<Rightarrow> 'd" where
  "helper1 fp x =
     (if fp_lt fp (fp_of fp (1 / 10 ^ 8)) (fp_abs fp x) then fp_div fp (fp_log1p fp x) x
      else fp_sub fp (fp_of fp 1) (fp_mul fp x (fp_sub fp (fp_of fp (1 / 2))
             (fp_mul fp x (fp_sub fp (fp_of fp (33333333333333333 / 10 ^ 17)) (fp_mul fp (fp_of fp (1 / 4)) x))))))"

definition helper2 :: "'d fp_ops \<Rightarrow> 'd \<Rightarrow> 'd" where
  "helper2 fp x =
     (if fp_lt fp (fp_of fp (1 / 10 ^ 8)) (fp_abs fp x) then fp_div fp (fp_expm1 fp x) x
      else fp_add fp (fp_of fp 1) (fp_mul fp (fp_mul fp x (fp_of fp (1 / 2)))
             (fp_add fp (fp_of fp 1) (fp_mul fp (fp_mul fp x (fp_of fp (33333333333333333 / 10 ^ 17)))
                (fp_add fp (fp_of fp 1) (fp_mul fp (fp_of fp (1 / 4)) x))))))"

definition hIntegral :: "'d fp_ops \<Rightarrow> 'd \<Rightarrow> 'd \<Rightarrow> 'd" where
  "hIntegral fp x e =
     (let logX = fp_log fp x in fp_mul fp (helper2 fp (fp_mul fp (fp_sub fp (fp_of fp 1) e) logX)) logX)"

definition zipf_h :: "'d fp_ops \<Rightarrow> 'd \<Rightarrow> 'd \<Rightarrow> 'd" where
  "zipf_h fp x e = fp_exp fp (fp_mul fp (fp_neg fp e) (fp_log fp x))"

definition hIntegralInverse :: "'d fp_ops \<Rightarrow> 'd \<Rightarrow> 'd \<Rightarrow> 'd" where
  "hIntegralInverse fp x e =
     (let t = fp_mul fp x (fp_sub fp (fp_of fp 1) e);
          t = (if fp_lt fp t (fp_of fp (- 1)) then fp_of fp (- 1) else t)
      in fp_exp fp (fp_mul fp (helper1 fp t) x))"

text \<open>One draw of the rejection loop: the candidate, whether it is accepted, the new state.\<close>

definition zipf_draw ::
  "'d fp_ops \<Rightarrow> u32 \<Rightarrow> 'd \<Rightarrow> 'd \<Rightarrow> 'd \<Rightarrow> sb_rng_state_t \<Rightarrow> u32 \<times> bool \<times> sb_rng_state_t"
where
  "zipf_draw fp n e s hIntegralX1 st =
     (let hN = hIntegral fp (fp_add fp (fp_of_u32 fp n) (fp_of fp (1 / 2))) e;
          (d, st) = sb_rand_uniform_double fp st;
          u = fp_add fp hN (fp_mul fp d (fp_sub fp hIntegralX1 hN));
          x = hIntegralInverse fp u e;
          k = fp_to_u32 fp (fp_add fp x (fp_of fp (1 / 2)));
          k = (if k < 1 then 1 else if k > n then n else k);
          kd = fp_of_u32 fp k
      in (k, fp_le fp (fp_sub fp kd x) s \<or>
             fp_le fp (fp_sub fp (hIntegral fp (fp_add fp kd (fp_of fp (1 / 2))) e) (zipf_h fp kd e)) u, st))"

partial_function (option) sb_rand_zipfian_int ::
  "'d fp_ops \<Rightarrow> u32 \<Rightarrow> 'd \<Rightarrow> 'd \<Rightarrow> 'd \<Rightarrow> sb_rng_state_t \<Rightarrow> (u32 \<times> sb_rng_state_t) option"
where
  "sb_rand_zipfian_int fp n e s hIntegralX1 st =
     (case zipf_draw fp n e s hIntegralX1 st of
        (k, accepted, st') \<Rightarrow>
          if accepted then Some (k, st') else sb_rand_zipfian_int fp n e s hIntegralX1 st')"

section \<open>Unique numbers\<close>

definition unique_prime :: u32 where
  "unique_prime = 4294967291"

definition rand_unique_permute :: "u32 \<Rightarrow> u32" where
  "rand_unique_permute x =
     (if x \<ge> unique_prime then x
      else
        (let residue = ucast ((ucast x * ucast x :: u64) mod ucast unique_prime) :: u32
         in if x \<le> unique_prime div 2 then residue else unique_prime - residue))"

definition rand_unique_seed :: "u32 \<Rightarrow> u32 \<Rightarrow> u32 \<times> u32" where
  "rand_unique_seed index offset =
     (rand_unique_permute (rand_unique_permute index + 0x682f0161),
      rand_unique_permute (rand_unique_permute offset + 0x46790905))"

text \<open>\<open>ck_pr_faa_32\<close> returns the old index and stores the incremented one.\<close>

definition sb_rand_unique :: "u32 \<times> u32 \<Rightarrow> u32 \<times> (u32 \<times> u32)" where
  "sb_rand_unique = (\<lambda>(index, offset).
     (rand_unique_permute ((rand_unique_permute index + offset) XOR 0x5bf03635), (index + 1, offset)))"

section \<open>Initialisation\<close>

text \<open>
  \<open>r k\<close> is the value of the \<open>k\<close>-th call of \<open>random\<close>; C leaves the order of calls within one
  expression open, the model takes them from left to right.
\<close>

definition sb_rand_thread_init :: "(nat \<Rightarrow> u64) \<Rightarrow> sb_rng_state_t" where
  "sb_rand_thread_init r =
     (push_bit 32 (r 0) OR (r 1 AND 0xFFFFFFFF), push_bit 32 (r 2) OR (r 3 AND 0xFFFFFFFF))"

datatype rand_error =
    Rand_exit exit_failure
  | Rand_null_type
  | Invalid_distribution string
  | Invalid_zipfian_exp

fun rand_dist_of :: "string \<Rightarrow> rand_dist_t option" where
  "rand_dist_of s =
     (if s = ''uniform'' then Some DIST_TYPE_UNIFORM
      else if s = ''gaussian'' then Some DIST_TYPE_GAUSSIAN
      else if s = ''pareto'' then Some DIST_TYPE_PARETO
      else if s = ''zipfian'' then Some DIST_TYPE_ZIPFIAN else None)"

text \<open>An integer option, or the end of the program.\<close>

definition get_int :: "options \<Rightarrow> string \<Rightarrow> (int \<Rightarrow> rand_error + 'a) \<Rightarrow> rand_error + 'a" where
  "get_int opts n k = (case sb_get_value_int opts n of Inl e \<Rightarrow> Inl (Rand_exit e) | Inr i \<Rightarrow> k i)"

definition sb_rand_init ::
  "'d fp_ops \<Rightarrow> (string \<Rightarrow> 'd) \<Rightarrow> (nat \<Rightarrow> u64) \<Rightarrow> options \<Rightarrow> rand_error + 'd rand_state \<times> sb_rng_state_t"
where
  "sb_rand_init fp strtod r opts =
     get_int opts ''rand-seed'' (\<lambda>seed.
       case sb_get_value_string opts ''rand-type'' of
         None \<Rightarrow> Inl Rand_null_type
       | Some s \<Rightarrow>
         (case rand_dist_of s of
            None \<Rightarrow> Inl (Invalid_distribution s)
          | Some ty \<Rightarrow>
            get_int opts ''rand-spec-iter'' (\<lambda>iter.
            get_int opts ''rand-spec-pct'' (\<lambda>pct.
            get_int opts ''rand-spec-res'' (\<lambda>res.
              let iter = word_of_int iter :: u32; pct = word_of_int pct :: u32; res = word_of_int res :: u32;
                  ph = sb_get_value_double strtod (fp_of fp 0) opts ''rand-pareto-h'';
                  ze = sb_get_value_double strtod (fp_of fp 0) opts ''rand-zipfian-exp''
              in if fp_lt fp ze (fp_of fp 0) then Inl Invalid_zipfian_exp
                 else
                   let (idx, off) = rand_unique_seed (ucast (r 4)) (ucast (r 5))
                   in Inr (\<lparr>sb_rand_seed = seed, rand_type = ty,
                        rand_iter = iter, rand_pct = pct, rand_res = res,
                        rand_iter_mult = fp_div fp (fp_of fp 1) (fp_of_u32 fp iter),
                        rand_pct_mult = fp_div fp (fp_of_u32 fp pct) (fp_of fp 100),
                        rand_pct_2_mult = fp_div fp (fp_of_u32 fp pct) (fp_of fp 200),
                        rand_res_mult = fp_div fp (fp_of fp 100) (fp_sub fp (fp_of fp 100) (fp_of_u32 fp res)),
                        pareto_h = ph,
                        pareto_power = fp_div fp (fp_log fp ph) (fp_log fp (fp_sub fp (fp_of fp 1) ph)),
                        zipf_exp = ze,
                        zipf_s = fp_sub fp (fp_of fp 2)
                          (hIntegralInverse fp (fp_sub fp (hIntegral fp (fp_of fp (5 / 2)) ze) (zipf_h fp (fp_of fp 2) ze)) ze),
                        zipf_hIntegralX1 = fp_sub fp (hIntegral fp (fp_of fp (3 / 2)) ze) (fp_of fp 1),
                        rand_unique_index = idx, rand_unique_offset = off\<rparr>,
                      sb_rand_thread_init r))))))"

section \<open>Distributions\<close>

definition sb_rand_uniform :: "'d fp_ops \<Rightarrow> u32 \<Rightarrow> u32 \<Rightarrow> sb_rng_state_t \<Rightarrow> u32 \<times> sb_rng_state_t" where
  "sb_rand_uniform fp a b s =
     (let (d, s) = sb_rand_uniform_double fp s
      in (fp_to_u32 fp (fp_add fp (fp_of_u32 fp a) (fp_mul fp d (fp_of_u32 fp (b - a + 1)))), s))"

fun gaussian_sum :: "'d fp_ops \<Rightarrow> 'd \<Rightarrow> nat \<Rightarrow> 'd \<Rightarrow> sb_rng_state_t \<Rightarrow> 'd \<times> sb_rng_state_t" where
  "gaussian_sum fp t 0 acc s = (acc, s)"
| "gaussian_sum fp t (Suc n) acc s =
     (let (d, s) = sb_rand_uniform_double fp s in gaussian_sum fp t n (fp_add fp acc (fp_mul fp d t)) s)"

definition sb_rand_gaussian :: "'d fp_ops \<Rightarrow> 'd rand_state \<Rightarrow> u32 \<Rightarrow> u32 \<Rightarrow> sb_rng_state_t \<Rightarrow> u32 \<times> sb_rng_state_t" where
  "sb_rand_gaussian fp p a b s =
     (let t = fp_of_u32 fp (b - a + 1);
          (acc, s) = gaussian_sum fp t (unat (rand_iter p)) (fp_of fp 0) s
      in (a + fp_to_u32 fp (fp_mul fp acc (rand_iter_mult p)), s))"

definition sb_rand_pareto :: "'d fp_ops \<Rightarrow> 'd rand_state \<Rightarrow> u32 \<Rightarrow> u32 \<Rightarrow> sb_rng_state_t \<Rightarrow> u32 \<times> sb_rng_state_t" where
  "sb_rand_pareto fp p a b s =
     (let (d, s) = sb_rand_uniform_double fp s
      in (a + fp_to_u32 fp (fp_mul fp (fp_of_u32 fp (b - a + 1)) (fp_pow fp d (pareto_power p))), s))"

definition sb_rand_zipfian ::
  "'d fp_ops \<Rightarrow> 'd rand_state \<Rightarrow> u32 \<Rightarrow> u32 \<Rightarrow> sb_rng_state_t \<Rightarrow> (u32 \<times> sb_rng_state_t) option"
where
  "sb_rand_zipfian fp p a b s = do {
     (k, s) \<leftarrow> sb_rand_zipfian_int fp (b - a + 1) (zipf_exp p) (zipf_s p) (zipf_hIntegralX1 p) s;
     Some (a + k - 1, s)
   }"

definition sb_rand_default ::
  "'d fp_ops \<Rightarrow> 'd rand_state \<Rightarrow> u32 \<Rightarrow> u32 \<Rightarrow> sb_rng_state_t \<Rightarrow> (u32 \<times> sb_rng_state_t) option"
where
  "sb_rand_default fp p a b s =
     (case rand_type p of
        DIST_TYPE_UNIFORM \<Rightarrow> Some (sb_rand_uniform fp a b s)
      | DIST_TYPE_GAUSSIAN \<Rightarrow> Some (sb_rand_gaussian fp p a b s)
      | DIST_TYPE_PARETO \<Rightarrow> Some (sb_rand_pareto fp p a b s)
      | DIST_TYPE_ZIPFIAN \<Rightarrow> sb_rand_zipfian fp p a b s)"

text \<open>Storing an unsigned value in a \<open>char\<close>, and the code of a character constant.\<close>

definition char_of_u32 :: "u32 \<Rightarrow> char" where
  "char_of_u32 w = char_of (unat w)"

definition u32_of_char :: "char \<Rightarrow> u32" where
  "u32_of_char c = of_nat (of_char c)"

fun sb_rand_str :: "'d fp_ops \<Rightarrow> string \<Rightarrow> sb_rng_state_t \<Rightarrow> string \<times> sb_rng_state_t" where
  "sb_rand_str fp [] s = ([], s)"
| "sb_rand_str fp (c # fmt) s =
     (let (x, s) = (if c = CHR ''#'' then
                      (let (w, s) = sb_rand_uniform fp (u32_of_char (CHR ''0'')) (u32_of_char (CHR ''9'')) s
                       in (char_of_u32 w, s))
                    else if c = CHR ''@'' then
                      (let (w, s) = sb_rand_uniform fp (u32_of_char (CHR ''a'')) (u32_of_char (CHR ''z'')) s
                       in (char_of_u32 w, s))
                    else (c, s));
          (rest, s) = sb_rand_str fp fmt s
      in (x # rest, s))"

fun rand_chars :: "'d fp_ops \<Rightarrow> nat \<Rightarrow> sb_rng_state_t \<Rightarrow> string \<times> sb_rng_state_t" where
  "rand_chars fp 0 s = ([], s)"
| "rand_chars fp (Suc n) s =
     (let (w, s) = sb_rand_uniform fp (u32_of_char (CHR ''0'')) (u32_of_char (CHR ''z'')) s;
          (rest, s) = rand_chars fp n s
      in (char_of_u32 w # rest, s))"

definition sb_rand_varstr :: "'d fp_ops \<Rightarrow> u32 \<Rightarrow> u32 \<Rightarrow> sb_rng_state_t \<Rightarrow> string \<times> u32 \<times> sb_rng_state_t" where
  "sb_rand_varstr fp min_len max_len s =
     (if max_len = 0 then ([], 0, s)
      else
        (let min_len = (if min_len > max_len then 1 else min_len);
             (num_chars, s) = sb_rand_uniform fp min_len max_len s;
             (buf, s) = rand_chars fp (unat num_chars) s
         in (buf, num_chars, s)))"

section \<open>Notions of the properties\<close>

text \<open>The first \<open>n\<close> numbers that successive calls return.\<close>

fun unique_numbers :: "nat \<Rightarrow> u32 \<times> u32 \<Rightarrow> u32 list" where
  "unique_numbers 0 st = []"
| "unique_numbers (Suc n) st = (let (v, st) = sb_rand_unique st in v # unique_numbers n st)"

text \<open>The 52 random bits of one draw.\<close>

definition draw52 :: "sb_rng_state_t \<Rightarrow> nat" where
  "draw52 s = unat (fst (xoroshiro_next s)) div 2 ^ 12"

text \<open>The top of the range lies in the binade of its size, or the range starts at 0 or 1.\<close>

definition same_binade :: "nat \<Rightarrow> nat \<Rightarrow> bool" where
  "same_binade a b \<longleftrightarrow> a \<le> 1 \<or> (\<exists>e. 2 ^ e \<le> b - a + 1 \<and> b + 1 \<le> 2 ^ (e + 1))"

definition zipf_step :: "'d fp_ops \<Rightarrow> u32 \<Rightarrow> 'd \<Rightarrow> 'd \<Rightarrow> 'd \<Rightarrow> sb_rng_state_t \<Rightarrow> sb_rng_state_t" where
  "zipf_step fp n e s h st = snd (snd (zipf_draw fp n e s h st))"

definition zipf_accepts :: "'d fp_ops \<Rightarrow> u32 \<Rightarrow> 'd \<Rightarrow> 'd \<Rightarrow> 'd \<Rightarrow> sb_rng_state_t \<Rightarrow> bool" where
  "zipf_accepts fp n e s h st = fst (snd (zipf_draw fp n e s h st))"

section \<open>Lemmas: unique numbers\<close>

lemma rand_unique_permute_nat:
  "unat (rand_unique_permute x) =
     (if unat x \<ge> 4294967291 then unat x else signed_square 4294967291 (unat x))"
proof (cases "unat x \<ge> 4294967291")
  case True
  then show ?thesis
    by (simp add: rand_unique_permute_def unique_prime_def word_le_nat_alt)
next
  case False
  let ?p = "4294967291 :: nat"
  have x: "unat x < ?p" using False by simp
  have sq: "unat (ucast x * ucast x :: u64) = unat x * unat x"
  proof -
    have "unat x * unat x < 2 ^ 64"
    proof -
      have "unat x * unat x \<le> ?p * ?p" using x by (intro mult_le_mono) simp_all
      then show ?thesis by simp
    qed
    moreover have "unat (ucast x :: u64) = unat x" by (rule unat_ucast_u64)
    ultimately show ?thesis by (subst unat_mult_lem [THEN iffD1]) simp_all
  qed
  define r where "r = (ucast ((ucast x * ucast x :: u64) mod ucast unique_prime) :: u32)"
  have "unat ((ucast x * ucast x :: u64) mod ucast unique_prime) = unat x * unat x mod ?p"
    by (simp add: unat_mod sq unique_prime_def)
  then have r: "unat r = unat x * unat x mod ?p"
    by (simp add: r_def unsigned_ucast_eq take_bit_eq_mod)
  have "unat x * unat x mod ?p < ?p" by simp
  moreover have "unat (unique_prime - r) = ?p - unat x * unat x mod ?p"
    using r by (subst unat_sub) (simp_all add: word_le_nat_alt unique_prime_def less_imp_le)
  moreover have "(x \<le> unique_prime div 2) = (unat x \<le> ?p div 2)"
    by (simp add: word_le_nat_alt unique_prime_def)
  moreover have "rand_unique_permute x = (if x \<le> unique_prime div 2 then r else unique_prime - r)"
    using False by (simp add: rand_unique_permute_def Let_def r_def word_le_nat_alt unique_prime_def)
  ultimately show ?thesis
    using False r by (simp add: signed_square_def)
qed

lemma inj_rand_unique_permute: "inj rand_unique_permute"
proof (rule injI)
  fix x y
  assume "rand_unique_permute x = rand_unique_permute y"
  then have eq: "unat (rand_unique_permute x) = unat (rand_unique_permute y)" by simp
  let ?p = "4294967291 :: nat"
  have "?p mod 4 = 3" by simp
  note ss = signed_square_inj [OF prime_4294967291 this]
  have lt: "signed_square ?p (unat z) < ?p" if "\<not> unat z \<ge> ?p" for z :: u32
    using that subsetD [OF ss(2) imageI, of "unat z"] by simp
  have "unat x = unat y"
  proof (cases "unat x \<ge> ?p \<or> unat y \<ge> ?p")
    case True
    then show ?thesis
      using eq lt [of x] lt [of y] by (auto simp: rand_unique_permute_nat split: if_splits)
  next
    case False
    then show ?thesis
      using eq inj_onD [OF ss(1), of "unat x" "unat y"] by (simp add: rand_unique_permute_nat)
  qed
  then show "x = y"
    by (simp add: word_eq_iff_unsigned [where ?'a = nat])
qed

lemma unique_numbers_map:
  "unique_numbers n (index, offset) =
     map (\<lambda>k. fst (sb_rand_unique (index + of_nat k, offset))) [0..<n]"
proof (induction n arbitrary: index)
  case (Suc n)
  have "[0..<Suc n] = 0 # map Suc [0..<n]"
    by (simp add: map_Suc_upt upt_conv_Cons del: upt_Suc)
  then show ?case
    using Suc [of "index + 1"] by (simp add: sb_rand_unique_def Let_def add.assoc del: upt_Suc)
qed simp

lemma inj_sb_rand_unique: "inj (\<lambda>i. fst (sb_rand_unique (i, offset)))"
proof (rule injI)
  fix x y
  assume "fst (sb_rand_unique (x, offset)) = fst (sb_rand_unique (y, offset))"
  then have "(rand_unique_permute x + offset) XOR 0x5bf03635 = (rand_unique_permute y + offset) XOR 0x5bf03635"
    using inj_rand_unique_permute by (auto simp: sb_rand_unique_def dest: injD)
  then have "((rand_unique_permute x + offset) XOR 0x5bf03635) XOR 0x5bf03635 =
      ((rand_unique_permute y + offset) XOR 0x5bf03635) XOR 0x5bf03635"
    by simp
  then have "rand_unique_permute x = rand_unique_permute y"
    by (simp add: xor.assoc)
  then show "x = y"
    using inj_rand_unique_permute by (auto dest: injD)
qed

section \<open>Lemmas: uniform doubles\<close>

lemma take_bit_uniform_bits: "take_bit 52 (uniform_bits x) = drop_bit 12 x"
proof (rule bit_word_eqI)
  fix n
  assume "n < LENGTH(64)"
  then show "bit (take_bit 52 (uniform_bits x)) n = bit (drop_bit 12 x) n"
    by (auto simp: uniform_bits_def bit_simps dest: bit_imp_le_length)
qed

lemma drop_bit_uniform_bits: "drop_bit 52 (uniform_bits x) = 0x3FF"
proof -
  have "drop_bit 52 (drop_bit 12 x) = 0"
    by (rule bit_word_eqI) (auto simp: bit_simps)
  moreover have "drop_bit 52 (push_bit 52 0x3FF :: u64) = 0x3FF"
    by (simp add: push_bit_eq_mult drop_bit_eq_div)
  ultimately show ?thesis
    by (simp add: uniform_bits_def drop_bit_or)
qed

lemma double_of_bits_uniform:
  "double_of_bits (uniform_bits x) = of_nat (2 ^ 52 + unat x div 2 ^ 12) / 2 ^ 52"
proof -
  define q where "q = unat x div 2 ^ 12"
  have "unat (drop_bit 12 x) = q"
    by (simp add: q_def unat_drop_bit_eq) (simp add: drop_bit_eq_div)
  moreover have "unat (0x3FF :: u64) = 1023" by simp
  ultimately have "double_of_bits (uniform_bits x) = (1 + of_nat q / 2 ^ 52) * 2 powi (int 1023 - 1023)"
    unfolding double_of_bits_def take_bit_uniform_bits drop_bit_uniform_bits by (simp only:)
  then show ?thesis
    unfolding q_def [symmetric] by (simp add: field_simps)
qed

lemma draw52_less: "draw52 s < 2 ^ 52"
  using unat_less_two_power_u64 [of "fst (xoroshiro_next s)"] by (simp add: draw52_def less_mult_imp_div_less)

context fp_rounding begin

lemma uniform_double_exact:
  "fst (sb_rand_uniform_double (rounded_ops rnd f p) s) = of_nat (draw52 s) / 2 ^ 52"
proof -
  have k: "2 ^ 52 + draw52 s < 2 ^ 53" "draw52 s < 2 ^ 53"
    using draw52_less [of s] by simp_all
  have one: "rnd 1 = 1" using rnd_nat [of 1] by simp
  have "rnd (of_nat (2 ^ 52 + draw52 s) / 2 ^ 52) = of_nat (2 ^ 52 + draw52 s) / 2 ^ 52"
    by (rule rnd_scaled [OF k(1)])
  moreover have "of_nat (2 ^ 52 + draw52 s) / 2 ^ 52 - 1 = (of_nat (draw52 s) / 2 ^ 52 :: rat)"
    by (simp add: field_simps)
  ultimately have "rnd (rnd (of_nat (2 ^ 52 + draw52 s) / 2 ^ 52) - rnd 1) = of_nat (draw52 s) / 2 ^ 52"
    by (simp only: one rnd_scaled [OF k(2)])
  then show ?thesis
    by (simp add: sb_rand_uniform_double_def sb_rand_uniform_uint64_def case_prod_beta rounded_ops_def
      double_of_bits_uniform draw52_def)
qed

text \<open>The product of a draw and the size \<open>n\<close> of the range stays one unit below \<open>n\<close>.\<close>

lemma scaled_draw:
  assumes "k < 2 ^ 52" "2 ^ e \<le> n" "n < 2 ^ (e + 1)" "e \<le> 52"
  shows "0 \<le> rnd (of_nat k / 2 ^ 52 * of_nat n)"
    and "rnd (of_nat k / 2 ^ 52 * of_nat n) \<le> of_nat (n * 2 ^ (52 - e) - 1) / 2 ^ (52 - e)"
proof -
  let ?x = "of_nat k / 2 ^ 52 * of_nat n :: rat"
  have e: "(2 :: nat) ^ 52 = 2 ^ (52 - e) * 2 ^ e"
    using assms(4) by (metis le_add_diff_inverse2 power_add)
  have m: "n * 2 ^ (52 - e) - 1 < 2 ^ 53"
  proof -
    have "n * 2 ^ (52 - e) < 2 ^ (e + 1) * 2 ^ (52 - e)"
      using assms(3) by simp
    also have "\<dots> = 2 ^ 53"
      using assms(4) by (simp flip: power_add)
    finally show ?thesis by simp
  qed
  have "k * n \<le> (n * 2 ^ (52 - e) - 1) * 2 ^ e"
  proof -
    have "k * n + n \<le> n * 2 ^ 52"
      using assms(1) mult_le_mono1 [of "k + 1" "2 ^ 52" n] by simp
    then have "k * n \<le> n * 2 ^ 52 - 2 ^ e"
      using assms(2) by linarith
    moreover have "(n * 2 ^ (52 - e) - 1) * 2 ^ e = n * 2 ^ 52 - 2 ^ e"
      unfolding e by (simp only: diff_mult_distrib mult_1 mult.assoc)
    ultimately show ?thesis by (simp only:)
  qed
  then have "of_nat (k * n) \<le> (of_nat ((n * 2 ^ (52 - e) - 1) * 2 ^ e) :: rat)"
    by (rule of_nat_mono)
  then have "of_nat (k * n) / (2 ^ (52 - e) * 2 ^ e) \<le> of_nat ((n * 2 ^ (52 - e) - 1) * 2 ^ e) / (2 ^ (52 - e) * 2 ^ e :: rat)"
    by (rule divide_right_mono) simp
  moreover have "(2 :: rat) ^ 52 = 2 ^ (52 - e) * 2 ^ e"
    using assms(4) by (metis le_add_diff_inverse2 power_add)
  then have "?x = of_nat (k * n) / (2 ^ (52 - e) * 2 ^ e)"
    by (simp only: of_nat_mult times_divide_eq_left)
  ultimately have "?x \<le> of_nat (n * 2 ^ (52 - e) - 1) / 2 ^ (52 - e)"
    by (simp only: of_nat_mult of_nat_power of_nat_numeral) simp
  then show "rnd ?x \<le> of_nat (n * 2 ^ (52 - e) - 1) / 2 ^ (52 - e)" and "0 \<le> rnd ?x"
    using rnd_between [of 0 "n * 2 ^ (52 - e) - 1" 0 ?x "52 - e"] m by simp_all
qed

lemma uniform_sum:
  assumes "k < 2 ^ 52" "2 ^ e \<le> n" "n < 2 ^ (e + 1)" "e \<le> 52" "a + n < 2 ^ 33"
  defines "r \<equiv> rnd (of_nat a + rnd (of_nat k / 2 ^ 52 * of_nat n))"
  shows "of_nat a \<le> r" and "r \<le> of_nat (a + n)" and "a + n \<le> 2 ^ (e + 1) \<Longrightarrow> r < of_nat (a + n)"
proof -
  let ?p = "rnd (of_nat k / 2 ^ 52 * of_nat n)"
  note sd = scaled_draw [OF assms(1-4)]
  have n: "0 < n * 2 ^ (52 - e)" using assms(2) by (cases n) simp_all
  have eq: "of_nat (n * 2 ^ (52 - e) - 1) / 2 ^ (52 - e) = (of_nat n - 1 / 2 ^ (52 - e) :: rat)"
    using n by (simp add: of_nat_diff Suc_leI diff_divide_distrib)
  have lo: "of_nat a / 2 ^ 0 \<le> of_nat a + ?p" using sd(1) by simp
  have hi: "of_nat a + ?p \<le> of_nat (a + n) / 2 ^ 0"
  proof -
    have "(0 :: rat) \<le> 1 / 2 ^ (52 - e)" by simp
    then show ?thesis
      using sd(2) unfolding eq of_nat_add power_0 div_by_1 by linarith
  qed
  have "a < 2 ^ 53" "a + n < 2 ^ 53" using assms(5) by simp_all
  from rnd_between [OF this lo hi] show "of_nat a \<le> r" "r \<le> of_nat (a + n)"
    by (simp_all add: r_def)
  assume an: "a + n \<le> 2 ^ (e + 1)"
  let ?m = "(a + n) * 2 ^ (52 - e) - 1"
  have "?m < 2 ^ 53"
  proof -
    have "(a + n) * 2 ^ (52 - e) \<le> 2 ^ (e + 1) * 2 ^ (52 - e)"
      using an by simp
    also have "\<dots> = 2 ^ 53"
      using assms(4) by (simp flip: power_add)
    finally show ?thesis using n by simp
  qed
  moreover have mm: "of_nat ?m / 2 ^ (52 - e) = (of_nat (a + n) - 1 / 2 ^ (52 - e) :: rat)"
    using n by (simp add: of_nat_diff Suc_leI diff_divide_distrib add_divide_distrib distrib_right)
  moreover have "of_nat a + ?p \<le> of_nat (a + n) - 1 / 2 ^ (52 - e)"
    using sd(2) unfolding eq by simp
  ultimately have "r \<le> of_nat (a + n) - 1 / 2 ^ (52 - e)"
    using rnd_between(2) [OF \<open>a < 2 ^ 53\<close> _ lo, of ?m "52 - e"] by (simp add: r_def)
  moreover have "(0 :: rat) < 1 / 2 ^ (52 - e)" by simp
  ultimately show "r < of_nat (a + n)" by linarith
qed

end

lemma fp_of_u32_ieee: "fp_of_u32 (ieee_ops f p) w = of_nat (unat w)"
proof -
  have "unat w < 2 ^ 53"
    using unat_less_two_power_u32 [of w] by simp
  from ieee.rnd_nat [OF this] show ?thesis
    unfolding fp_of_u32_def rounded_ops_sel uint_nat of_int_of_nat_eq .
qed

lemma sb_rand_uniform_value:
  "fst (sb_rand_uniform (ieee_ops f p) a b s) =
     word_of_int \<lfloor>round_double (of_nat (unat a) + round_double (of_nat (draw52 s) / 2 ^ 52 * of_nat (unat (b - a + 1))))\<rfloor>"
  by (simp add: sb_rand_uniform_def case_prod_beta fp_to_u32_def fp_of_u32_ieee ieee.uniform_double_exact)

lemma unat_range_size:
  fixes a b :: u32
  assumes "a \<le> b" "b < 0xFFFFFFFF"
  shows "unat (b - a + 1) = unat b - unat a + 1" and "unat b + 1 < 2 ^ 32"
proof -
  have b: "unat b < 4294967295"
    using assms(2) by (simp add: word_less_nat_alt)
  then show "unat b + 1 < 2 ^ 32" by simp
  have "unat (b - a) = unat b - unat a"
    using assms(1) by (rule unat_sub)
  then show "unat (b - a + 1) = unat b - unat a + 1"
    using b by (subst unat_add_lem [THEN iffD1]) simp_all
qed

lemma binade_exists: "0 < n \<Longrightarrow> \<exists>e. 2 ^ e \<le> n \<and> n < 2 ^ (e + 1)" for n :: nat
  using floorlog_bounds [of n 2] by (intro exI [of _ "floorlog 2 n - 1"]) (auto simp: floorlog_def)

lemma uniform_floor:
  assumes "k < 2 ^ 52" "a \<le> b" "b + 1 < 2 ^ 32"
  defines "R \<equiv> round_double (of_nat a + round_double (of_nat k / 2 ^ 52 * of_nat (b - a + 1)))"
  shows "int a \<le> \<lfloor>R\<rfloor>" and "\<lfloor>R\<rfloor> \<le> int b + 1" and "same_binade a b \<Longrightarrow> \<lfloor>R\<rfloor> \<le> int b"
proof -
  let ?n = "b - a + 1"
  have n: "a + ?n = b + 1" using assms(2) by simp
  obtain e where e: "2 ^ e \<le> ?n" "?n < 2 ^ (e + 1)"
    using binade_exists [of ?n] by auto
  have "(2 :: nat) ^ e < 2 ^ 32"
    using e(1) n assms(3) by linarith
  then have "e \<le> 52"
    using power_less_imp_less_exp [of "2 :: nat" e 32] by simp
  moreover have "a + ?n < 2 ^ 33" using n assms(3) by simp
  ultimately have us: "of_nat a \<le> R" "R \<le> of_nat (b + 1)" "b + 1 \<le> 2 ^ (e + 1) \<Longrightarrow> R < of_nat (b + 1)"
    using ieee.uniform_sum [OF assms(1) e, of a] n unfolding R_def by simp_all
  show "int a \<le> \<lfloor>R\<rfloor>" using us(1) by (simp add: le_floor_iff)
  show "\<lfloor>R\<rfloor> \<le> int b + 1" using us(2) by (simp add: floor_le_iff)
  assume "same_binade a b"
  then have "b + 1 \<le> 2 ^ (e + 1)"
  proof (unfold same_binade_def, elim disjE exE conjE)
    assume "a \<le> 1"
    then show ?thesis using e(2) n by linarith
  next
    fix e'
    assume e': "2 ^ e' \<le> b - a + 1" "b + 1 \<le> 2 ^ (e' + 1)"
    have "(2 :: nat) ^ e' < 2 ^ (e + 1)"
      using e'(1) e(2) by (rule order.strict_trans1)
    then have "e' < e + 1"
      by (rule power_less_imp_less_exp [rotated]) simp
    then have "(2 :: nat) ^ (e' + 1) \<le> 2 ^ (e + 1)" by simp
    with e'(2) show ?thesis by (rule order_trans)
  qed
  from us(3) [OF this] show "\<lfloor>R\<rfloor> \<le> int b" by (simp add: floor_le_iff)
qed

lemma uniform_bounds:
  assumes "a \<le> b" "b < 0xFFFFFFFF"
  shows "a \<le> fst (sb_rand_uniform (ieee_ops f p) a b s) \<and>
    fst (sb_rand_uniform (ieee_ops f p) a b s) \<le> b + 1 \<and>
    (same_binade (unat a) (unat b) \<longrightarrow> fst (sb_rand_uniform (ieee_ops f p) a b s) \<le> b)"
proof -
  define R where "R = round_double (of_nat (unat a) + round_double (of_nat (draw52 s) / 2 ^ 52 * of_nat (unat b - unat a + 1)))"
  note sz = unat_range_size [OF assms]
  have "unat a \<le> unat b" using assms(1) by (simp add: word_le_nat_alt)
  note fl = uniform_floor [OF draw52_less this sz(2), of s, folded R_def]
  have "fst (sb_rand_uniform (ieee_ops f p) a b s) = word_of_int \<lfloor>R\<rfloor>"
    by (simp only: sb_rand_uniform_value sz(1) R_def)
  moreover have "uint (word_of_int \<lfloor>R\<rfloor> :: u32) = \<lfloor>R\<rfloor>"
  proof -
    have "unat b < 4294967295" using sz(2) by simp
    then have "0 \<le> \<lfloor>R\<rfloor>" "\<lfloor>R\<rfloor> < 4294967296"
      using fl(1,2) by linarith+
    then show ?thesis
      unfolding uint_word_of_int by simp
  qed
  moreover have "uint (b + 1) = int (unat b) + 1"
  proof -
    have "unat (b + 1) = unat b + 1"
      using sz(2) by (subst unat_add_lem [THEN iffD1]) simp_all
    then show ?thesis by (simp only: uint_nat of_nat_add of_nat_1)
  qed
  ultimately show ?thesis
    using fl by (simp add: word_le_def)
qed

section \<open>Lemmas: the generator\<close>

lemma xoroshiro_rotl_word: "0 < k \<Longrightarrow> k < 64 \<Longrightarrow> xoroshiro_rotl x k = word_rotl k x"
proof (rule bit_word_eqI)
  fix n
  assume "0 < k" "k < 64" "n < LENGTH(64)"
  moreover have "64 + n - k = n + 64 - k" by simp
  ultimately show "bit (xoroshiro_rotl x k) n = bit (word_rotl k x) n"
    by (cases "n < k") (auto simp: xoroshiro_rotl_def bit_simps bit_word_rotl_iff mod_if dest: bit_imp_le_length)
qed

lemma xoroshiro_rotl_inj: "0 < k \<Longrightarrow> k < 64 \<Longrightarrow> xoroshiro_rotl x k = xoroshiro_rotl y k \<longleftrightarrow> x = y"
  by (metis word_rot_lr xoroshiro_rotl_word)

lemma inj_xoroshiro_next: "inj (\<lambda>s. snd (xoroshiro_next s))"
proof (rule injI)
  fix s t
  assume eq: "snd (xoroshiro_next s) = snd (xoroshiro_next t)"
  obtain s0 s1 t0 t1 where st: "s = (s0, s1)" "t = (t0, t1)"
    by (metis surj_pair)
  define u v where "u = s1 XOR s0" and "v = t1 XOR t0"
  have eqs: "xoroshiro_rotl s0 55 XOR u XOR push_bit 14 u = xoroshiro_rotl t0 55 XOR v XOR push_bit 14 v"
    "xoroshiro_rotl u 36 = xoroshiro_rotl v 36"
    using eq by (simp_all only: st xoroshiro_next_def Let_def prod.case snd_conv prod.inject u_def v_def)
  then have x: "u = v" by (simp add: xoroshiro_rotl_inj)
  with eqs(1) have "xoroshiro_rotl s0 55 = xoroshiro_rotl t0 55"
    by (simp only: xor.assoc [symmetric] xor_cancel_right)
  then have "s0 = t0" by (simp add: xoroshiro_rotl_inj)
  with x have "s1 = t1"
    by (simp only: u_def v_def xor_cancel_right)
  with \<open>s0 = t0\<close> st show "s = t" by simp
qed

lemma xoroshiro_next_zero: "snd (xoroshiro_next (0, 0)) = (0, 0)"
  by (simp add: xoroshiro_next_def xoroshiro_rotl_def)

section \<open>Lemmas: the Zipfian loop\<close>

lemma zipf_draw_range:
  "0 < n \<Longrightarrow> zipf_draw fp n e s h st = (k, ok, st') \<Longrightarrow> 1 \<le> k \<and> k \<le> n"
  by (auto simp: zipf_draw_def Let_def case_prod_beta not_less
    word_less_nat_alt word_le_nat_alt split: if_splits)

lemma sb_rand_zipfian_int_range:
  assumes "0 < n" "zipf_accepts fp n e s h ((zipf_step fp n e s h ^^ m) st)"
  shows "\<exists>k st'. sb_rand_zipfian_int fp n e s h st = Some (k, st') \<and> 1 \<le> k \<and> k \<le> n"
  using assms(2)
proof (induction m arbitrary: st)
  case 0
  obtain k ok st' where d: "zipf_draw fp n e s h st = (k, ok, st')"
    by (metis prod_cases3)
  then show ?case
    using 0 zipf_draw_range [OF assms(1) d] by (simp add: zipf_accepts_def sb_rand_zipfian_int.simps)
next
  case (Suc m)
  obtain k ok st' where d: "zipf_draw fp n e s h st = (k, ok, st')"
    by (metis prod_cases3)
  have st': "zipf_step fp n e s h st = st'" by (simp add: zipf_step_def d)
  show ?case
  proof (cases ok)
    case True
    then show ?thesis
      using d zipf_draw_range [OF assms(1) d] by (simp add: sb_rand_zipfian_int.simps [of _ _ _ _ _ st])
  next
    case False
    moreover have "zipf_accepts fp n e s h ((zipf_step fp n e s h ^^ m) st')"
      using Suc.prems by (simp add: funpow_Suc_right st' del: funpow.simps)
    ultimately show ?thesis
      using Suc.IH [of st'] d by (simp add: sb_rand_zipfian_int.simps [of _ _ _ _ _ st])
  qed
qed

section \<open>Lemmas: random strings\<close>

lemma rand_chars_range:
  "length (fst (rand_chars (ieee_ops f p) n s)) = n \<and>
   (\<forall>c \<in> set (fst (rand_chars (ieee_ops f p) n s)). 48 \<le> (of_char c :: nat) \<and> (of_char c :: nat) \<le> 122)"
proof (induction n arbitrary: s)
  case (Suc n)
  let ?u = "sb_rand_uniform (ieee_ops f p) (u32_of_char (CHR ''0'')) (u32_of_char (CHR ''z'')) s"
  have "same_binade 48 122"
    unfolding same_binade_def by (intro disjI2 exI [of _ 6]) simp
  moreover have c: "u32_of_char (CHR ''0'') = 48" "u32_of_char (CHR ''z'') = 122"
    by (simp_all add: u32_of_char_def)
  ultimately have "48 \<le> fst ?u" "fst ?u \<le> 122"
    using uniform_bounds [of 48 122 f p s] by simp_all
  then have "48 \<le> (of_char (char_of_u32 (fst ?u)) :: nat)" "(of_char (char_of_u32 (fst ?u)) :: nat) \<le> 122"
    by (simp_all add: char_of_u32_def word_le_nat_alt of_char_of)
  then show ?case
    using Suc [of "snd ?u"] by (simp add: case_prod_beta Let_def)
qed simp

section \<open>Properties\<close>

text \<open>
  C16 (unique_numbers_distinct): up to \<open>2^32\<close> successive numbers of the unique generator, from
  any index and offset, are pairwise different.  The permutation it applies is built on squares
  modulo the prime 4294967291 and is injective on all 32-bit words.
\<close>

theorem unique_numbers_distinct:
  assumes "n \<le> 2 ^ 32"
  shows "distinct (unique_numbers n (index, offset)) \<and> length (unique_numbers n (index, offset)) = n"
proof -
  have "inj_on (\<lambda>k. index + of_nat k) {..<n}"
  proof (rule inj_onI)
    fix x y
    assume xy: "x \<in> {..<n}" "y \<in> {..<n}" "index + of_nat x = index + of_nat y"
    then have "(of_nat x :: u32) = of_nat y" by simp
    then have "unat (of_nat x :: u32) = unat (of_nat y :: u32)" by simp
    then show "x = y"
      using xy(1,2) assms by (simp add: unat_of_nat)
  qed
  then have "inj_on ((\<lambda>i. fst (sb_rand_unique (i, offset))) \<circ> (\<lambda>k. index + of_nat k)) {..<n}"
    by (rule comp_inj_on) (rule inj_on_subset [OF inj_sb_rand_unique subset_UNIV])
  then show ?thesis
    by (simp add: unique_numbers_map distinct_map comp_def lessThan_atLeast0)
qed

theorem unique_numbers_distinct_witness:
  "distinct (unique_numbers 1000 (4294967000, 7))"
  using unique_numbers_distinct [of 1000 4294967000 7] by simp

text \<open>
  C28 (uniform_in_range): with IEEE double arithmetic the uniform distribution on \<open>[a, b]\<close> returns
  a number between \<open>a\<close> and \<open>b + 1\<close>, and never the excess value \<open>b + 1\<close> when the range starts
  at 0 or 1 or its upper end lies in the same power-of-two interval as its size.
\<close>

theorem uniform_in_range:
  assumes "a \<le> b" "b < 0xFFFFFFFF"
  shows "a \<le> fst (sb_rand_uniform (ieee_ops f p) a b s) \<and>
    fst (sb_rand_uniform (ieee_ops f p) a b s) \<le> b + 1 \<and>
    (same_binade (unat a) (unat b) \<longrightarrow> fst (sb_rand_uniform (ieee_ops f p) a b s) \<le> b)"
  using assms by (rule uniform_bounds)

text \<open>
  C33 (zipfian_in_range): whatever the floating-point arithmetic computes, the Zipfian
  distribution returns a number in \<open>[a, b]\<close> as soon as one of its draws passes the acceptance
  test.
\<close>

theorem zipfian_in_range:
  assumes "a \<le> b" "b - a + 1 \<noteq> 0"
    and "zipf_accepts fp (b - a + 1) (zipf_exp q) (zipf_s q) (zipf_hIntegralX1 q)
      ((zipf_step fp (b - a + 1) (zipf_exp q) (zipf_s q) (zipf_hIntegralX1 q) ^^ m) st)"
  shows "\<exists>r st'. sb_rand_zipfian fp q a b st = Some (r, st') \<and> a \<le> r \<and> r \<le> b"
proof -
  have "0 < b - a + 1" using assms(2) by (simp add: word_gt_0)
  from sb_rand_zipfian_int_range [OF this assms(3)] obtain k st' where
    k: "sb_rand_zipfian_int fp (b - a + 1) (zipf_exp q) (zipf_s q) (zipf_hIntegralX1 q) st = Some (k, st')"
      "1 \<le> k" "k \<le> b - a + 1"
    by blast
  have ab: "unat a \<le> unat b" "unat (b - a) = unat b - unat a"
    using assms(1) by (simp_all add: word_le_nat_alt unat_sub)
  have "k - 1 \<le> b - a"
  proof -
    have "unat (b - a + 1) \<le> unat (b - a) + 1"
      by (metis Suc_eq_plus1 add.commute unat_word_ariths(1) mod_less_eq_dividend unat_1 One_nat_def)
    moreover have "unat (k - 1) = unat k - 1"
      using k(2) by (simp add: unat_sub)
    moreover have "unat k \<le> unat (b - a + 1)"
      using k(3) by (simp add: word_le_nat_alt)
    ultimately show ?thesis by (simp add: word_le_nat_alt)
  qed
  then have "unat (a + (k - 1)) = unat a + unat (k - 1)" "unat a + unat (k - 1) \<le> unat b"
    using ab unat_less_two_power_u32 [of b] by (auto simp: word_le_nat_alt intro!: unat_add_lem [THEN iffD1])
  then have "a \<le> a + (k - 1)" "a + (k - 1) \<le> b"
    by (simp_all add: word_le_nat_alt)
  moreover have "a + (k - 1) = a + k - 1" by simp
  ultimately have "a \<le> a + k - 1" "a + k - 1 \<le> b" by (simp_all only:)
  then show ?thesis
    using k(1) by (simp add: sb_rand_zipfian_def)
qed

text \<open>
  The generator step is a permutation of its states, so no two seeds
  ever run into the same sequence, and a state other than zero never becomes the absorbing zero
  state.
\<close>

theorem xoroshiro_permutes:
  "bij (\<lambda>s. snd (xoroshiro_next s)) \<and> (snd (xoroshiro_next s) = (0, 0) \<longleftrightarrow> s = (0, 0))"
proof -
  have "bij (\<lambda>s. snd (xoroshiro_next s))"
    using inj_xoroshiro_next by (simp add: bij_def finite_UNIV_inj_surj)
  moreover have "snd (xoroshiro_next s) = (0, 0) \<longleftrightarrow> s = (0, 0)"
    using inj_xoroshiro_next xoroshiro_next_zero by (metis injD)
  ultimately show ?thesis by blast
qed

text \<open>
  A random string of variable length has as many characters as the returned
  length says, all between \<open>0\<close> and \<open>z\<close>, and with a minimum length of at most 1 (or above the
  maximum, which is then taken as 1) it never exceeds the maximum length.
\<close>

theorem varstr_bounds:
  assumes "0 < max_len" "max_len < 0xFFFFFFFF" "min_len \<le> 1 \<or> max_len < min_len"
    and "sb_rand_varstr (ieee_ops f p) min_len max_len s = (buf, n, s')"
  shows "length buf = unat n \<and> n \<le> max_len \<and>
    (\<forall>c \<in> set buf. 48 \<le> (of_char c :: nat) \<and> (of_char c :: nat) \<le> 122)"
proof -
  define m where "m = (if min_len > max_len then 1 else min_len)"
  have m: "m \<le> max_len" "m \<le> 1"
    using assms(1,3) by (auto simp: m_def not_less word_le_nat_alt word_less_nat_alt)
  have "same_binade (unat m) (unat max_len)"
    using m(2) by (simp add: same_binade_def word_le_nat_alt)
  with uniform_bounds [OF m(1) assms(2), of f p s]
  have "fst (sb_rand_uniform (ieee_ops f p) m max_len s) \<le> max_len" by blast
  moreover have "buf = fst (rand_chars (ieee_ops f p) (unat n) (snd (sb_rand_uniform (ieee_ops f p) m max_len s)))"
    "n = fst (sb_rand_uniform (ieee_ops f p) m max_len s)"
    using assms(1,4) by (auto simp: sb_rand_varstr_def m_def [symmetric] word_gt_0 Let_def split: prod.splits)
  ultimately show ?thesis
    using rand_chars_range [of f p "unat n"] by simp
qed


theorem zipfian_in_range_witness:
  "\<exists>r st'. sb_rand_zipfian (rounded_ops (\<lambda>x. x) (\<lambda>x. x) (\<lambda>x y. x))
     \<lparr>sb_rand_seed = 0, rand_type = DIST_TYPE_ZIPFIAN, rand_iter = 0, rand_pct = 0, rand_res = 0,
      rand_iter_mult = 0, rand_pct_mult = 0, rand_pct_2_mult = 0, rand_res_mult = 0, pareto_h = 0,
      pareto_power = 0, zipf_exp = 1, zipf_s = 1000, zipf_hIntegralX1 = 1,
      rand_unique_index = 0, rand_unique_offset = 0\<rparr> 5 9 (1, 2) = Some (r, st') \<and> 5 \<le> r \<and> r \<le> 9"
  by (rule zipfian_in_range [where m = 0]) (simp, simp, code_simp)

theorem uniform_in_range_witness:
  "fst (sb_rand_uniform (ieee_ops (\<lambda>x. x) (\<lambda>x y. x)) 1 100000 (1, 2)) \<le> 100000"
  using uniform_in_range [of 1 100000 "\<lambda>x. x" "\<lambda>x y. x" "(1, 2)"] by (simp add: same_binade_def)

theorem varstr_bounds_witness:
  "length (fst (sb_rand_varstr (ieee_ops (\<lambda>x. x) (\<lambda>x y. x)) 0 16 (1, 2))) \<le> 16"
proof -
  obtain buf n s' where v: "sb_rand_varstr (ieee_ops (\<lambda>x. x) (\<lambda>x y. x)) 0 16 (1, 2) = (buf, n, s')"
    by (metis prod_cases3)
  from varstr_bounds [OF _ _ _ v] have "length buf = unat n" "n \<le> 16" by simp_all
  with v show ?thesis by (simp add: word_le_nat_alt)
qed

section \<open>Deviations\<close>

text \<open>
  Rounding can lift the sum to \<open>b + 1\<close>: the draw whose 52 bits are all ones makes the uniform
  distribution on the single value 2 return 3, and a digit placeholder of \<open>sb_rand_str\<close> produce
  a colon.
\<close>

lemma uniform_out_of_range:
  "fst (sb_rand_uniform (ieee_ops f p) 2 2 (0xFFFFFFFFFFFFF000, 0)) = 3"
proof -
  have d: "draw52 (0xFFFFFFFFFFFFF000, 0) = 4503599627370495"
    by (simp add: draw52_def xoroshiro_next_def Let_def)
  have e: "round_double (4503599627370495 / 4503599627370496) = 4503599627370495 / 4503599627370496"
    using ieee.rnd_scaled [of 4503599627370495 52] by simp
  have "\<lfloor>13510798882111487 / 2 :: rat\<rfloor> = 6755399441055743"
    by (simp add: floor_eq_iff)
  then have "round_double (13510798882111487 / 4503599627370496) = 3"
    by (subst round_double_eval [where k = 1]) (simp_all add: round_half_even_def Let_def)
  then show ?thesis
    by (simp add: sb_rand_uniform_value d e)
qed

lemma rand_str_colon:
  "fst (sb_rand_str (ieee_ops f p) ''#'' (0xFFFFFFFFFFFFF000, 0)) = '':''"
proof -
  have d: "draw52 (0xFFFFFFFFFFFFF000, 0) = 4503599627370495"
    by (simp add: draw52_def xoroshiro_next_def Let_def)
  have "\<lfloor>22517998136852475 / 4 :: rat\<rfloor> = 5629499534213118"
    by (simp add: floor_eq_iff)
  then have r: "round_double (22517998136852475 / 2251799813685248) = 5629499534213119 / 562949953421312"
    by (subst round_double_eval [where k = 3]) (simp_all add: round_half_even_def Let_def)
  have "\<lfloor>32651097298436095 / 4 :: rat\<rfloor> = 8162774324609023"
    by (simp add: floor_eq_iff)
  then have "round_double (32651097298436095 / 562949953421312) = 58"
    by (subst round_double_eval [where k = 5]) (simp_all add: round_half_even_def Let_def)
  then have "fst (sb_rand_uniform (ieee_ops f p) 48 57 (0xFFFFFFFFFFFFF000, 0)) = 58"
    by (simp add: sb_rand_uniform_value d) (simp add: r)
  moreover have "char_of (58 :: nat) = CHR '':''" by code_simp
  ultimately show ?thesis
    by (simp add: u32_of_char_def char_of_u32_def case_prod_beta Let_def)
qed

text \<open>The whole 32-bit range has the wrapped size 0, so the uniform distribution on it is constant.\<close>

lemma uniform_full_range: "fst (sb_rand_uniform (ieee_ops f p) 0 (- 1) s) = 0"
  by (simp add: sb_rand_uniform_value) (simp add: round_double_def)

text \<open>
  \<open>rand-spec-iter\<close> is read but never registered: without it the number of iterations of the
  Gaussian distribution is 0, no draw is made and the result is \<open>0 * (1 / 0)\<close>.
\<close>

lemma rand_spec_iter_unregistered: "find_option (sb_rand_register Map.empty []) ''rand-spec-iter'' = None"
  by code_simp

lemma gaussian_without_iterations:
  assumes "find_option opts ''rand-spec-iter'' = None" "sb_rand_init fp strtod r opts = Inr (q, st)"
  shows "rand_iter q = 0" and "snd (sb_rand_gaussian fp q a b s) = s"
proof -
  show "rand_iter q = 0"
    using assms by (auto simp: sb_rand_init_def get_int_def sb_get_value_int_def Let_def case_prod_beta
      split: sum.splits option.splits if_splits)
  then show "snd (sb_rand_gaussian fp q a b s) = s"
    by (simp add: sb_rand_gaussian_def Let_def)
qed

end
