(* ===== verification/SB_Barrier.thy ===== *)
theory SB_Barrier
  imports SB_Prelude
begin

text \<open>
  The thread barrier, \<open>src/src/sb_barrier.c\<close>.

  The barrier is a record; what runs under its mutex is one step of the calling thread: entering
  \<open>sb_barrier_wait\<close> up to the return or the first \<open>pthread_cond_wait\<close>, and every return from
  \<open>pthread_cond_wait\<close> up to the return or the next wait.  A waiting thread runs again after a
  broadcast or, as the standard allows, spuriously.  The callback is a function on a state of
  its own, which includes its argument.
\<close>

section \<open>The barrier\<close>

record 'e sb_barrier_t =
  bar_count :: u32
  bar_init_count :: u32
  bar_serial :: u32
  bar_callback :: "('e \<Rightarrow> int \<times> 'e) option"
  bar_error :: int

definition SB_BARRIER_SERIAL_THREAD :: int where
  "SB_BARRIER_SERIAL_THREAD = 1"

text \<open>\<open>fails\<close>: \<open>pthread_mutex_init\<close> or \<open>pthread_cond_init\<close> report an error.\<close>

definition sb_barrier_init :: "bool \<Rightarrow> u32 \<Rightarrow> ('e \<Rightarrow> int \<times> 'e) option \<Rightarrow> 'e sb_barrier_t option" where
  "sb_barrier_init fails count callback =
     (if count = 0 then None
      else if fails then None
      else Some \<lparr>bar_count = count, bar_init_count = count, bar_serial = 0, bar_callback = callback, bar_error = 0\<rparr>)"

datatype wait_state = Sleep u32 | Return int

definition sb_barrier_enter :: "'e sb_barrier_t \<Rightarrow> 'e \<Rightarrow> wait_state \<times> 'e sb_barrier_t \<times> 'e" where
  "sb_barrier_enter b e =
     (let b = b\<lparr>bar_count := bar_count b - 1\<rparr>
      in if bar_count b = 0 then
           (let b = b\<lparr>bar_serial := bar_serial b + 1, bar_count := bar_init_count b\<rparr>
            in case bar_callback b of
                 None \<Rightarrow> (Return SB_BARRIER_SERIAL_THREAD, b, e)
               | Some f \<Rightarrow>
                   (let (r, e) = f e
                    in if r \<noteq> 0 then (Return (- 1), b\<lparr>bar_error := 1\<rparr>, e)
                       else (Return SB_BARRIER_SERIAL_THREAD, b, e)))
         else (Sleep (bar_serial b), b, e))"

definition sb_barrier_woken :: "'e sb_barrier_t \<Rightarrow> u32 \<Rightarrow> wait_state" where
  "sb_barrier_woken b serial =
     (if serial = bar_serial b then Sleep serial
      else Return (if bar_error b \<noteq> 0 then - 1 else 0))"

section \<open>Threads\<close>

text \<open>A thread is outside of the barrier, or waiting with its serial number and whether it was signalled.\<close>

datatype thread_pc = Outside | Waiting u32 bool

fun signal :: "thread_pc \<Rightarrow> thread_pc" where
  "signal (Waiting serial _) = Waiting serial True"
| "signal Outside = Outside"

text \<open>
  The barrier with its callers: \<open>results\<close> are the values the calls of each thread have returned,
  \<open>rounds\<close> records for each completed round the thread that came last and whether the callback failed.
\<close>

record 'e barrier_sys =
  bar :: "'e sb_barrier_t"
  env :: 'e
  pcs :: "nat \<Rightarrow> thread_pc"
  results :: "nat \<Rightarrow> int list"
  rounds :: "(nat \<times> bool) list"

definition barrier_arrive :: "nat \<Rightarrow> 'e barrier_sys \<Rightarrow> 'e barrier_sys" where
  "barrier_arrive t s =
     (let (w, b, e) = sb_barrier_enter (bar s) (env s)
      in case w of
           Sleep serial \<Rightarrow> s\<lparr>bar := b, env := e, pcs := (pcs s)(t := Waiting serial False)\<rparr>
         | Return r \<Rightarrow>
             s\<lparr>bar := b, env := e, pcs := (\<lambda>u. signal (pcs s u))(t := Outside),
               results := (results s)(t := results s t @ [r]),
               rounds := rounds s @ [(t, r \<noteq> SB_BARRIER_SERIAL_THREAD)]\<rparr>)"

definition barrier_wake :: "nat \<Rightarrow> 'e barrier_sys \<Rightarrow> 'e barrier_sys" where
  "barrier_wake t s =
     (case pcs s t of
        Outside \<Rightarrow> s
      | Waiting serial _ \<Rightarrow>
          (case sb_barrier_woken (bar s) serial of
             Sleep serial \<Rightarrow> s\<lparr>pcs := (pcs s)(t := Waiting serial False)\<rparr>
           | Return r \<Rightarrow> s\<lparr>pcs := (pcs s)(t := Outside), results := (results s)(t := results s t @ [r])\<rparr>))"

definition barrier_start :: "'e sb_barrier_t \<Rightarrow> 'e \<Rightarrow> 'e barrier_sys" where
  "barrier_start b e = \<lparr>bar = b, env = e, pcs = (\<lambda>_. Outside), results = (\<lambda>_. []), rounds = []\<rparr>"

text \<open>
  The runs of \<open>N\<close> threads that call the barrier again and again; the number counts the steps
  other than spurious wake-ups.
\<close>

inductive barrier_run :: "nat \<Rightarrow> 'e barrier_sys \<Rightarrow> nat \<Rightarrow> 'e barrier_sys \<Rightarrow> bool" for N s0 where
  run_start: "barrier_run N s0 0 s0"
| run_arrive: "barrier_run N s0 n s \<Longrightarrow> t < N \<Longrightarrow> pcs s t = Outside \<Longrightarrow> barrier_run N s0 (Suc n) (barrier_arrive t s)"
| run_wake: "barrier_run N s0 n s \<Longrightarrow> t < N \<Longrightarrow> pcs s t = Waiting r True \<Longrightarrow> barrier_run N s0 (Suc n) (barrier_wake t s)"
| run_spurious: "barrier_run N s0 n s \<Longrightarrow> t < N \<Longrightarrow> pcs s t = Waiting r False \<Longrightarrow> barrier_run N s0 n (barrier_wake t s)"

text \<open>The number of calls a thread has begun.\<close>

definition arrivals :: "'e barrier_sys \<Rightarrow> nat \<Rightarrow> nat" where
  "arrivals s t = length (results s t) + (if pcs s t = Outside then 0 else 1)"

text \<open>What the call of thread \<open>t\<close> in round \<open>k\<close> returns.\<close>

definition round_result :: "(nat \<times> bool) list \<Rightarrow> nat \<Rightarrow> nat \<Rightarrow> int" where
  "round_result rs t k =
     (if t = fst (rs ! k) then (if snd (rs ! k) then - 1 else SB_BARRIER_SERIAL_THREAD)
      else if \<exists>j \<le> k. snd (rs ! j) then - 1 else 0)"

section \<open>Invariant\<close>

text \<open>In round \<open>R\<close> a thread is outside, asleep until the round is complete, or released from the previous one.\<close>

definition asleep :: "'e barrier_sys \<Rightarrow> nat \<Rightarrow> bool" where
  "asleep s t \<longleftrightarrow> pcs s t = Waiting (of_nat (length (rounds s))) False \<and> length (results s t) = length (rounds s)"

definition outside :: "'e barrier_sys \<Rightarrow> nat \<Rightarrow> bool" where
  "outside s t \<longleftrightarrow> pcs s t = Outside \<and> length (results s t) = length (rounds s)"

definition released :: "'e barrier_sys \<Rightarrow> nat \<Rightarrow> bool" where
  "released s t \<longleftrightarrow> pcs s t = Waiting (of_nat (length (results s t))) True \<and>
     Suc (length (results s t)) = length (rounds s) \<and> fst (rounds s ! length (results s t)) \<noteq> t"

definition barrier_inv :: "nat \<Rightarrow> 'e barrier_sys \<Rightarrow> bool" where
  "barrier_inv N s \<longleftrightarrow>
     bar_serial (bar s) = of_nat (length (rounds s)) \<and> unat (bar_init_count (bar s)) = N \<and>
     0 < unat (bar_count (bar s)) \<and>
     card {t. t < N \<and> asleep s t} + unat (bar_count (bar s)) = N \<and>
     (bar_error (bar s) \<noteq> 0 \<longleftrightarrow> (\<exists>j < length (rounds s). snd (rounds s ! j))) \<and>
     (\<forall>t < N. outside s t \<or> asleep s t \<or> released s t) \<and>
     (\<forall>t < N. \<forall>k < length (results s t). results s t ! k = round_result (rounds s) t k)"

text \<open>Calls begun and calls returned, over all threads.\<close>

definition progress :: "nat \<Rightarrow> 'e barrier_sys \<Rightarrow> nat" where
  "progress N s = (\<Sum>t<N. arrivals s t + length (results s t))"

section \<open>Lemmas: one call\<close>

lemma enter_sleep:
  "bar_count b \<noteq> 1 \<Longrightarrow> sb_barrier_enter b e = (Sleep (bar_serial b), b\<lparr>bar_count := bar_count b - 1\<rparr>, e)"
  by (simp add: sb_barrier_enter_def Let_def)

lemma enter_last:
  assumes "bar_count b = 1"
  obtains f e' where "sb_barrier_enter b e =
    (Return (if f then - 1 else SB_BARRIER_SERIAL_THREAD),
     b\<lparr>bar_count := bar_init_count b, bar_serial := bar_serial b + 1, bar_error := (if f then 1 else bar_error b)\<rparr>, e')"
proof (cases "bar_callback b")
  case None
  then show thesis using assms that [of False e] by (simp add: sb_barrier_enter_def Let_def)
next
  case (Some g)
  then show thesis
    using assms that [of "fst (g e) \<noteq> 0" "snd (g e)"]
    by (cases "fst (g e) = 0") (simp_all add: sb_barrier_enter_def Let_def case_prod_beta)
qed

lemma of_nat_Suc_neq: "(of_nat (Suc n) :: u32) \<noteq> of_nat n"
  by simp

lemma round_result_append:
  "k < length rs \<Longrightarrow> round_result (rs @ [x]) t k = round_result rs t k"
  by (auto simp: round_result_def nth_append)

lemma barrier_inv_cases:
  assumes "barrier_inv N s" "t < N"
  obtains "outside s t" | "asleep s t" | "released s t"
  using assms unfolding barrier_inv_def by blast

lemma inv_arrive_sleep:
  assumes inv: "barrier_inv N s" and t: "t < N" "pcs s t = Outside" and c: "bar_count (bar s) \<noteq> 1"
  shows "barrier_inv N (barrier_arrive t s)"
proof -
  let ?s = "barrier_arrive t s"
  have s': "?s = s\<lparr>bar := (bar s)\<lparr>bar_count := bar_count (bar s) - 1\<rparr>, env := env s,
      pcs := (pcs s)(t := Waiting (bar_serial (bar s)) False)\<rparr>"
    using c by (simp add: barrier_arrive_def enter_sleep)
  have len: "length (results s t) = length (rounds s)"
    using barrier_inv_cases [OF inv t(1)] t(2) by (auto simp: outside_def asleep_def released_def)
  have ser: "bar_serial (bar s) = of_nat (length (rounds s))"
    using inv by (simp add: barrier_inv_def)
  have "asleep ?s u \<longleftrightarrow> u = t \<or> asleep s u" for u
    using len ser by (auto simp: asleep_def s')
  then have "{u. u < N \<and> asleep ?s u} = insert t {u. u < N \<and> asleep s u}"
    using t(1) by auto
  moreover have "\<not> asleep s t" using t(2) by (simp add: asleep_def)
  ultimately have card: "card {u. u < N \<and> asleep ?s u} = Suc (card {u. u < N \<and> asleep s u})"
    by simp
  have "0 < unat (bar_count (bar s))" using inv by (simp add: barrier_inv_def)
  then have "1 \<le> bar_count (bar s)" by (simp add: word_le_nat_alt)
  then have cnt: "unat (bar_count (bar s) - 1) = unat (bar_count (bar s)) - 1"
    by (simp add: unat_sub)
  have "unat (bar_count (bar s)) \<noteq> 1" using c by (metis unat_1 word_unat_eq_iff)
  moreover have "outside ?s u \<or> asleep ?s u \<or> released ?s u" if "u < N" for u
    using barrier_inv_cases [OF inv that] len ser
    by cases (auto simp: outside_def asleep_def released_def s')
  ultimately show ?thesis
    using inv card cnt by (auto simp: barrier_inv_def s')
qed

lemma all_asleep:
  assumes inv: "barrier_inv N s" and t: "t < N" "pcs s t = Outside" and c: "bar_count (bar s) = 1"
    and u: "u < N" "u \<noteq> t"
  shows "asleep s u"
proof -
  let ?A = "{u. u < N \<and> asleep s u}"
  have "t \<notin> ?A" using t(2) by (simp add: asleep_def)
  then have "?A \<subseteq> {..<N} - {t}" by auto
  moreover have "card ?A = N - 1" using inv c by (auto simp: barrier_inv_def)
  then have "card ?A = card ({..<N} - {t})" using t(1) by simp
  ultimately have "?A = {..<N} - {t}" by (intro card_subset_eq) simp_all
  then show ?thesis using u by auto
qed

lemma inv_arrive_last:
  assumes inv: "barrier_inv N s" and t: "t < N" "pcs s t = Outside" and c: "bar_count (bar s) = 1"
  shows "barrier_inv N (barrier_arrive t s)"
proof -
  let ?s = "barrier_arrive t s"
  obtain f e' where e: "sb_barrier_enter (bar s) (env s) =
    (Return (if f then - 1 else SB_BARRIER_SERIAL_THREAD),
     (bar s)\<lparr>bar_count := bar_init_count (bar s), bar_serial := bar_serial (bar s) + 1,
       bar_error := (if f then 1 else bar_error (bar s))\<rparr>, e')"
    using enter_last [OF c] by blast
  let ?r = "if f then - 1 else SB_BARRIER_SERIAL_THREAD"
  have f: "?r \<noteq> SB_BARRIER_SERIAL_THREAD \<longleftrightarrow> f" by (simp add: SB_BARRIER_SERIAL_THREAD_def)
  have s': "?s = s\<lparr>bar := (bar s)\<lparr>bar_count := bar_init_count (bar s), bar_serial := bar_serial (bar s) + 1,
       bar_error := (if f then 1 else bar_error (bar s))\<rparr>, env := e',
      pcs := (\<lambda>u. signal (pcs s u))(t := Outside), results := (results s)(t := results s t @ [?r]),
      rounds := rounds s @ [(t, f)]\<rparr>"
    unfolding barrier_arrive_def e by (simp only: Let_def prod.case wait_state.case f)
  have len: "length (results s t) = length (rounds s)"
    using barrier_inv_cases [OF inv t(1)] t(2) by (auto simp: outside_def asleep_def released_def)
  have k: "if u = t then outside ?s u else released ?s u" if "u < N" for u
    using all_asleep [OF inv t c that] len
    by (auto simp: outside_def released_def asleep_def s')
  have "\<not> asleep ?s u" if "u < N" for u
    using k [OF that] by (auto simp: asleep_def outside_def released_def split: if_splits)
  then have "{u. u < N \<and> asleep ?s u} = {}" by blast
  then have card: "card {u. u < N \<and> asleep ?s u} = 0" by (simp only: card.empty)
  have res: "results ?s u ! k = round_result (rounds ?s) u k" if "u < N" "k < length (results ?s u)" for u k
  proof (cases "u = t \<and> k = length (results s t)")
    case True
    then show ?thesis
      by (simp add: s' len round_result_def nth_append)
  next
    case False
    then have k: "k < length (results s u)" using that(2) by (auto simp: s' split: if_splits)
    have "length (results s u) \<le> length (rounds s)"
      using barrier_inv_cases [OF inv that(1)] by cases (auto simp: outside_def asleep_def released_def)
    then show ?thesis
      using inv that(1) k by (auto simp: s' round_result_append nth_append barrier_inv_def)
  qed
  have err: "bar_error (bar ?s) \<noteq> 0 \<longleftrightarrow> (\<exists>j < length (rounds ?s). snd (rounds ?s ! j))"
    using inv by (auto simp: barrier_inv_def s' nth_append less_Suc_eq)
  have "bar_serial (bar ?s) = of_nat (length (rounds ?s))" "unat (bar_init_count (bar ?s)) = N"
    "unat (bar_count (bar ?s)) = N" "0 < N"
    using inv t(1) by (auto simp: barrier_inv_def s')
  moreover have "\<forall>u < N. outside ?s u \<or> asleep ?s u \<or> released ?s u"
    using k by meson
  ultimately show ?thesis
    unfolding barrier_inv_def using card res err by simp
qed

lemma inv_arrive:
  "barrier_inv N s \<Longrightarrow> t < N \<Longrightarrow> pcs s t = Outside \<Longrightarrow> barrier_inv N (barrier_arrive t s)"
  using inv_arrive_sleep inv_arrive_last by blast

lemma released_serial:
  assumes "barrier_inv N s" "t < N" "pcs s t = Waiting r True"
  shows "released s t" and "r \<noteq> bar_serial (bar s)"
proof -
  show rel: "released s t"
    using barrier_inv_cases [OF assms(1,2)] assms(3) by (auto simp: outside_def asleep_def)
  then have "length (rounds s) = Suc (length (results s t))" "r = of_nat (length (results s t))"
    using assms(3) by (auto simp: released_def)
  then show "r \<noteq> bar_serial (bar s)"
    using assms(1) by (simp add: barrier_inv_def)
qed

lemma inv_wake:
  assumes inv: "barrier_inv N s" and t: "t < N" "pcs s t = Waiting r True"
  shows "barrier_inv N (barrier_wake t s)"
proof -
  note rel = released_serial(1) [OF inv t]
  let ?k = "length (results s t)"
  define v where "v = (if bar_error (bar s) \<noteq> 0 then - 1 else 0 :: int)"
  have R: "length (rounds s) = Suc ?k" using rel by (simp add: released_def)
  have s': "barrier_wake t s = s\<lparr>pcs := (pcs s)(t := Outside), results := (results s)(t := results s t @ [v])\<rparr>"
    using t(2) released_serial(2) [OF inv t] by (simp add: barrier_wake_def sb_barrier_woken_def v_def)
  have "asleep (barrier_wake t s) u \<longleftrightarrow> asleep s u" for u
    using rel by (auto simp: asleep_def released_def s')
  moreover have "outside (barrier_wake t s) u \<or> asleep (barrier_wake t s) u \<or> released (barrier_wake t s) u" if "u < N" for u
    using barrier_inv_cases [OF inv that] R
    by cases (auto simp: outside_def asleep_def released_def s')
  moreover have "results (barrier_wake t s) u ! k = round_result (rounds s) u k"
    if "u < N" "k < length (results (barrier_wake t s) u)" for u k
  proof (cases "u = t \<and> k = ?k")
    case True
    moreover have "bar_error (bar s) \<noteq> 0 \<longleftrightarrow> (\<exists>j \<le> ?k. snd (rounds s ! j))"
      using inv R by (simp add: barrier_inv_def less_Suc_eq_le)
    ultimately show ?thesis
      using rel by (simp add: s' v_def round_result_def released_def)
  next
    case False
    then have "k < length (results s u)" using that(2) by (auto simp: s' split: if_splits)
    with inv that(1) show ?thesis by (auto simp: s' nth_append barrier_inv_def)
  qed
  ultimately show ?thesis
    using inv by (auto simp: barrier_inv_def s')
qed

lemma spurious_idle:
  assumes "barrier_inv N s" "t < N" "pcs s t = Waiting r False"
  shows "barrier_wake t s = s"
proof -
  have "asleep s t"
    using barrier_inv_cases [OF assms(1,2)] assms(3) by (auto simp: outside_def released_def)
  with assms(1) show ?thesis
    by (simp add: barrier_wake_def sb_barrier_woken_def asleep_def barrier_inv_def)
      (simp add: asleep_def fun_upd_idem)
qed

lemma inv_start:
  assumes "sb_barrier_init fails (of_nat N) cb = Some b" "N < 2 ^ 32"
  shows "barrier_inv N (barrier_start b e)"
proof -
  have b: "b = \<lparr>bar_count = of_nat N, bar_init_count = of_nat N, bar_serial = 0, bar_callback = cb, bar_error = 0\<rparr>"
    and n: "(of_nat N :: u32) \<noteq> 0"
    using assms(1) by (auto simp: sb_barrier_init_def split: if_splits)
  have u: "unat (of_nat N :: u32) = N" using assms(2) by (simp add: unat_of_nat)
  moreover have "0 < N" using n by (cases N) simp_all
  ultimately show ?thesis
    by (simp add: barrier_inv_def barrier_start_def b asleep_def outside_def del: unat_of_nat)
qed

lemma run_inv: "barrier_run N s0 n s \<Longrightarrow> barrier_inv N s0 \<Longrightarrow> barrier_inv N s"
  by (induction rule: barrier_run.induct) (auto simp: inv_arrive inv_wake spurious_idle)

section \<open>Lemmas: progress\<close>

lemma progress_update:
  fixes f g :: "nat \<Rightarrow> nat"
  assumes "t < N" "\<And>u. u < N \<Longrightarrow> u \<noteq> t \<Longrightarrow> f u \<le> g u" "f t < g t"
  shows "(\<Sum>u<N. f u) < (\<Sum>u<N. g u)"
proof (rule sum_strict_mono_ex1)
  show "\<forall>u\<in>{..<N}. f u \<le> g u" using assms by (metis lessThan_iff less_imp_le)
  show "\<exists>u\<in>{..<N}. f u < g u" using assms by auto
qed simp

lemma progress_arrive:
  assumes "t < N" "pcs s t = Outside"
  shows "progress N s < progress N (barrier_arrive t s)"
  unfolding progress_def
proof (rule progress_update [OF assms(1)])
  obtain w b e where e: "sb_barrier_enter (bar s) (env s) = (w, b, e)" by (metis prod_cases3)
  show "arrivals s t + length (results s t) < arrivals (barrier_arrive t s) t + length (results (barrier_arrive t s) t)"
    using assms(2) by (cases w) (simp_all add: barrier_arrive_def e arrivals_def)
  fix u
  assume "u \<noteq> t"
  then show "arrivals s u + length (results s u) \<le> arrivals (barrier_arrive t s) u + length (results (barrier_arrive t s) u)"
    by (cases w; cases "pcs s u") (simp_all add: barrier_arrive_def e arrivals_def)
qed

lemma progress_wake:
  assumes "barrier_inv N s" "t < N" "pcs s t = Waiting r True"
  shows "progress N s < progress N (barrier_wake t s)"
  unfolding progress_def
proof (rule progress_update [OF assms(2)])
  have "r \<noteq> bar_serial (bar s)" by (rule released_serial(2) [OF assms])
  then show "arrivals s t + length (results s t) < arrivals (barrier_wake t s) t + length (results (barrier_wake t s) t)"
    and "\<And>u. u \<noteq> t \<Longrightarrow> arrivals s u + length (results s u) \<le> arrivals (barrier_wake t s) u + length (results (barrier_wake t s) u)"
    using assms(3) by (simp_all add: barrier_wake_def sb_barrier_woken_def arrivals_def)
qed

lemma run_progress:
  assumes "barrier_run N s0 n s" "barrier_inv N s0"
  shows "n \<le> progress N s"
  using assms
proof (induction rule: barrier_run.induct)
  case (run_arrive n s t)
  then show ?case using progress_arrive [of t N s] by simp
next
  case (run_wake n s t r)
  then show ?case using progress_wake [OF run_inv, of N s0 n s t r] by simp
next
  case (run_spurious n s t r)
  then show ?case using spurious_idle [OF run_inv, of N s0 n s t r] by simp
qed simp

lemma progress_bound:
  assumes "barrier_inv N s"
  shows "progress N s \<le> N * (2 * length (rounds s) + 1)"
proof -
  have "arrivals s t + length (results s t) \<le> 2 * length (rounds s) + 1" if "t < N" for t
    using barrier_inv_cases [OF assms that]
    by cases (auto simp: arrivals_def outside_def asleep_def released_def)
  then have "progress N s \<le> (\<Sum>t<N. 2 * length (rounds s) + 1)"
    unfolding progress_def by (intro sum_mono) simp
  then show ?thesis by simp
qed

section \<open>Properties\<close>

text \<open>
  C3 (barrier_separates): in every run of as many threads as the barrier was created for, a
  thread that has returned from its \<open>k\<close>-th call of \<open>sb_barrier_wait\<close> finds that every thread has
  begun its own \<open>k\<close>-th call, whatever the interleaving, the callback and spurious wake-ups.
\<close>

theorem barrier_separates:
  assumes "sb_barrier_init fails (of_nat N) cb = Some b" "N < 2 ^ 32"
    and "barrier_run N (barrier_start b e) n s" "t < N" "u < N"
  shows "length (results s t) \<le> arrivals s u"
proof -
  have inv: "barrier_inv N s"
    using run_inv [OF assms(3) inv_start [OF assms(1,2)]] .
  have "length (results s t) \<le> length (rounds s)"
    using barrier_inv_cases [OF inv assms(4)] by cases (auto simp: outside_def asleep_def released_def)
  also have "length (rounds s) \<le> arrivals s u"
    using barrier_inv_cases [OF inv assms(5)]
    by cases (auto simp: arrivals_def outside_def asleep_def released_def)
  finally show ?thesis .
qed


text \<open>
  C11 (barrier_live): the barrier never blocks for good.  Some thread can always make a step other
  than a spurious wake-up, and after more than \<open>N * (2 * k + 1)\<close> such steps every thread has
  returned from at least \<open>k\<close> calls.
\<close>

theorem barrier_live:
  assumes "sb_barrier_init fails (of_nat N) cb = Some b" "N < 2 ^ 32"
    and "barrier_run N (barrier_start b e) n s"
  shows "(\<exists>t < N. pcs s t = Outside \<or> (\<exists>r. pcs s t = Waiting r True)) \<and>
    (N * (2 * k + 1) < n \<longrightarrow> (\<forall>t < N. k \<le> length (results s t)))"
proof
  have inv: "barrier_inv N s"
    using run_inv [OF assms(3) inv_start [OF assms(1,2)]] .
  show "\<exists>t < N. pcs s t = Outside \<or> (\<exists>r. pcs s t = Waiting r True)"
  proof (rule ccontr)
    assume none: "\<not> ?thesis"
    have "asleep s t" if "t < N" for t
      using barrier_inv_cases [OF inv that] none that by (auto simp: outside_def released_def)
    then have "{t. t < N \<and> asleep s t} = {..<N}" by auto
    then show False using inv by (auto simp: barrier_inv_def)
  qed
  show "N * (2 * k + 1) < n \<longrightarrow> (\<forall>t < N. k \<le> length (results s t))"
  proof (intro impI allI)
    fix t
    assume n: "N * (2 * k + 1) < n" and t: "t < N"
    have "n \<le> N * (2 * length (rounds s) + 1)"
      using run_progress [OF assms(3) inv_start [OF assms(1,2)]] progress_bound [OF inv] by simp
    with n have "N * (2 * k + 1) < N * (2 * length (rounds s) + 1)" by (rule less_le_trans)
    then have "k < length (rounds s)" by simp
    with barrier_inv_cases [OF inv t] show "k \<le> length (results s t)"
      by cases (auto simp: outside_def asleep_def released_def)
  qed
qed

text \<open>Two threads, whose callback succeeds: both arrive, the first one wakes up.\<close>

lemma two_threads:
  fixes e :: nat
  defines "b \<equiv> \<lparr>bar_count = 2, bar_init_count = 2, bar_serial = 0, bar_callback = Some (\<lambda>e. (0, e + 1)), bar_error = 0\<rparr>"
  shows "sb_barrier_init False (of_nat 2) (Some (\<lambda>e. (0, e + 1))) = Some b"
    and "barrier_run 2 (barrier_start b e) 3 (barrier_wake 0 (barrier_arrive 1 (barrier_arrive 0 (barrier_start b e))))"
    and "results (barrier_wake 0 (barrier_arrive 1 (barrier_arrive 0 (barrier_start b e)))) 0 = [0]"
    and "results (barrier_wake 0 (barrier_arrive 1 (barrier_arrive 0 (barrier_start b e)))) 1 = [1]"
proof -
  let ?s = "barrier_start b e"
  show "sb_barrier_init False (of_nat 2) (Some (\<lambda>e. (0, e + 1))) = Some b"
    by (simp add: sb_barrier_init_def b_def)
  note defs = barrier_start_def barrier_arrive_def sb_barrier_enter_def b_def SB_BARRIER_SERIAL_THREAD_def
  have "barrier_run 2 ?s (Suc 0) (barrier_arrive 0 ?s)"
    by (rule run_arrive [OF run_start]) (simp_all add: barrier_start_def)
  then have "barrier_run 2 ?s (Suc (Suc 0)) (barrier_arrive 1 (barrier_arrive 0 ?s))"
    by (rule run_arrive) (simp_all add: defs)
  then have "barrier_run 2 ?s (Suc (Suc (Suc 0))) (barrier_wake 0 (barrier_arrive 1 (barrier_arrive 0 ?s)))"
    by (rule run_wake [where r = 0]) (simp_all add: defs)
  then show "barrier_run 2 ?s 3 (barrier_wake 0 (barrier_arrive 1 (barrier_arrive 0 ?s)))"
    by (simp add: numeral_3_eq_3)
  show "results (barrier_wake 0 (barrier_arrive 1 (barrier_arrive 0 ?s))) 0 = [0]"
    "results (barrier_wake 0 (barrier_arrive 1 (barrier_arrive 0 ?s))) 1 = [1]"
    by (simp_all add: barrier_wake_def sb_barrier_woken_def defs)
qed

theorem barrier_separates_witness:
  "\<exists>s :: nat barrier_sys. length (results s 0) = 1 \<and> length (results s 0) \<le> arrivals s 1"
  using barrier_separates [OF two_threads(1) _ two_threads(2), of 0 1 0] two_threads(3) [of 0]
  by (intro exI [of _ "barrier_wake 0 (barrier_arrive 1 (barrier_arrive 0 (barrier_start
    \<lparr>bar_count = 2, bar_init_count = 2, bar_serial = 0, bar_callback = Some (\<lambda>e. (0, e + 1)), bar_error = 0\<rparr> 0)))"]) simp


lemma arrive_last:
  assumes "bar_count (bar s) = 1"
  shows "pcs (barrier_arrive t s) t = Outside" "bar_count (bar (barrier_arrive t s)) = bar_init_count (bar s)"
    "bar_init_count (bar (barrier_arrive t s)) = bar_init_count (bar s)"
proof -
  obtain f e where "sb_barrier_enter (bar s) (env s) = (Return (if f then - 1 else SB_BARRIER_SERIAL_THREAD),
     (bar s)\<lparr>bar_count := bar_init_count (bar s), bar_serial := bar_serial (bar s) + 1,
       bar_error := (if f then 1 else bar_error (bar s))\<rparr>, e)"
    using enter_last [OF assms] by blast
  then show "pcs (barrier_arrive t s) t = Outside" "bar_count (bar (barrier_arrive t s)) = bar_init_count (bar s)"
    "bar_init_count (bar (barrier_arrive t s)) = bar_init_count (bar s)"
    by (simp_all add: barrier_arrive_def)
qed

lemma one_thread:
  defines "b \<equiv> \<lparr>bar_count = 1, bar_init_count = 1, bar_serial = 0, bar_callback = None, bar_error = 0\<rparr>"
  shows "sb_barrier_init False (of_nat 1) None = Some b"
    and "barrier_run 1 (barrier_start b ()) n ((barrier_arrive 0 ^^ n) (barrier_start b ()))"
proof -
  let ?s = "barrier_start b ()"
  show "sb_barrier_init False (of_nat 1) None = Some b"
    by (simp add: sb_barrier_init_def b_def)
  have "barrier_run 1 ?s n ((barrier_arrive 0 ^^ n) ?s) \<and> pcs ((barrier_arrive 0 ^^ n) ?s) 0 = Outside \<and>
    bar_count (bar ((barrier_arrive 0 ^^ n) ?s)) = 1 \<and> bar_init_count (bar ((barrier_arrive 0 ^^ n) ?s)) = 1"
  proof (induction n)
    case 0
    show ?case by (simp add: run_start) (simp add: barrier_start_def b_def)
  next
    case (Suc n)
    then have "barrier_run 1 ?s (Suc n) (barrier_arrive 0 ((barrier_arrive 0 ^^ n) ?s))"
      by (intro run_arrive) simp_all
    with Suc show ?case by (simp add: arrive_last)
  qed
  then show "barrier_run 1 ?s n ((barrier_arrive 0 ^^ n) ?s)" by blast
qed

theorem barrier_live_witness:
  "1 \<le> length (results ((barrier_arrive 0 ^^ 4) (barrier_start
    \<lparr>bar_count = 1, bar_init_count = 1, bar_serial = 0, bar_callback = None, bar_error = 0\<rparr> ())) 0)"
  using barrier_live [OF one_thread(1) _ one_thread(2), of 4 1] by simp

end
