(* ===== verification/SB_Fileio.thy ===== *)
theory SB_Fileio
  imports SB_Rand SB_Crc32 SB_Counter
begin

text \<open>
  The file I/O test, \<open>src/src/tests/fileio/sb_fileio.c\<close>: its options, the generation of
  sequential and random requests, and the blocks with checksums that the validation mode writes
  and checks.  Executing the requests is in the theory \<open>SB_Fileio_Exec\<close>.

  The static variables are two records: \<open>file_conf\<close> for what \<open>parse_arguments\<close> sets and
  \<open>file_vars\<close> for what the requests change.  \<open>long long\<close> values are integers; nothing here comes
  near their limits.  Conversions to \<open>int\<close> and \<open>unsigned\<close> are written out.
\<close>

unbundle bit_operations_syntax

section \<open>Data\<close>

datatype file_test_mode_t =
  MODE_READ | MODE_WRITE | MODE_REWRITE | MODE_RND_READ | MODE_RND_WRITE | MODE_RND_RW | MODE_MIXED

datatype file_fsync_mode_t = FSYNC_ALL | FSYNC_DATA

datatype file_io_mode_t = FILE_IO_MODE_SYNC | FILE_IO_MODE_ASYNC | FILE_IO_MODE_MMAP

definition SB_FILE_FLAG_SYNC :: u32 where "SB_FILE_FLAG_SYNC = 1"
definition SB_FILE_FLAG_DSYNC :: u32 where "SB_FILE_FLAG_DSYNC = 2"
definition SB_FILE_FLAG_DIRECTIO :: u32 where "SB_FILE_FLAG_DIRECTIO = 4"

lemmas file_flag_defs = SB_FILE_FLAG_SYNC_def SB_FILE_FLAG_DSYNC_def SB_FILE_FLAG_DIRECTIO_def

datatype sb_file_op_t = FILE_OP_TYPE_NULL | FILE_OP_TYPE_READ | FILE_OP_TYPE_WRITE | FILE_OP_TYPE_FSYNC

record sb_file_request_t =
  file_id :: u32
  req_pos :: int
  req_size :: int
  operation :: sb_file_op_t

record sb_per_thread_t =
  buffer :: "u8 list"
  buffer_file_id :: u32
  buffer_pos :: int

record 'd file_conf =
  num_files :: u32
  total_size :: int
  file_size :: int
  file_block_size :: int
  file_extra_flags :: u32
  file_fsync_freq :: int
  file_fsync_all :: bool
  file_fsync_end :: bool
  file_fsync_mode :: file_fsync_mode_t
  file_rw_ratio :: 'd
  file_merged_requests :: int
  file_request_size :: int
  file_io_mode :: file_io_mode_t
  test_mode :: file_test_mode_t

record file_vars =
  position :: int
  current_file :: u32
  fsynced_file :: u32
  is_dirty :: bool
  req_performed :: u32
  prev_req :: sb_file_request_t

text \<open>\<open>aio\<close>: built with libaio, which adds an option.\<close>

definition fileio_args :: "bool \<Rightarrow> sb_arg_t list" where
  "fileio_args aio =
    [sb_opt ''file-num'' ''number of files to create'' (Some ''128'') SB_ARG_TYPE_INT,
     sb_opt ''file-block-size'' ''block size to use in all IO operations'' (Some ''16384'') SB_ARG_TYPE_INT,
     sb_opt ''file-total-size'' ''total size of files to create'' (Some ''2G'') SB_ARG_TYPE_SIZE,
     sb_opt ''file-test-mode'' ''test mode {seqwr, seqrewr, seqrd, rndrd, rndwr, rndrw}'' None SB_ARG_TYPE_STRING,
     sb_opt ''file-io-mode'' ''file operations mode {sync,async,mmap}'' (Some ''sync'') SB_ARG_TYPE_STRING] @
    (if aio then
       [sb_opt ''file-async-backlog'' ''number of asynchronous operatons to queue per thread'' (Some ''128'') SB_ARG_TYPE_INT]
     else []) @
    [sb_opt ''file-extra-flags'' ''list of additional flags to use to open files {sync,dsync,direct}'' (Some '''') SB_ARG_TYPE_LIST,
     sb_opt ''file-fsync-freq'' ''do fsync() after this number of requests (0 - don't use fsync())'' (Some ''100'') SB_ARG_TYPE_INT,
     sb_opt ''file-fsync-all'' ''do fsync() after each write operation'' (Some ''off'') SB_ARG_TYPE_BOOL,
     sb_opt ''file-fsync-end'' ''do fsync() at the end of test'' (Some ''on'') SB_ARG_TYPE_BOOL,
     sb_opt ''file-fsync-mode'' ''which method to use for synchronization {fsync, fdatasync}'' (Some ''fsync'') SB_ARG_TYPE_STRING,
     sb_opt ''file-merged-requests'' ''merge at most this number of IO requests if possible (0 - don't merge)'' (Some ''0'') SB_ARG_TYPE_INT,
     sb_opt ''file-rw-ratio'' ''reads/writes ratio for combined test'' (Some ''1.5'') SB_ARG_TYPE_DOUBLE]"

fun get_io_mode_str :: "file_io_mode_t \<Rightarrow> string" where
  "get_io_mode_str FILE_IO_MODE_SYNC = ''synchronous''"
| "get_io_mode_str FILE_IO_MODE_ASYNC = ''asynchronous''"
| "get_io_mode_str FILE_IO_MODE_MMAP = ''fast mmaped''"

fun get_test_mode_str :: "file_test_mode_t \<Rightarrow> string" where
  "get_test_mode_str MODE_WRITE = ''sequential write (creation)''"
| "get_test_mode_str MODE_REWRITE = ''sequential rewrite''"
| "get_test_mode_str MODE_READ = ''sequential read''"
| "get_test_mode_str MODE_RND_READ = ''random read''"
| "get_test_mode_str MODE_RND_WRITE = ''random write''"
| "get_test_mode_str MODE_RND_RW = ''random r/w''"
| "get_test_mode_str MODE_MIXED = ''mixed''"

section \<open>Options\<close>

datatype file_error =
    File_exit exit_failure
  | Null_pointer
  | Invalid_file_num
  | Invalid_total_size int
  | Missing_test_mode
  | Invalid_test_mode string
  | Unsupported_io_mode string
  | Unknown_io_mode string
  | Invalid_merged_requests int
  | Invalid_block_size int
  | Invalid_extra_flags
  | Invalid_fsync_freq int
  | Unsupported_fsync_mode
  | Invalid_fsync_mode string
  | Invalid_rw_ratio
  | No_memory
  | Invalid_async_backlog int
  | Aio_init_failed

text \<open>What the build configuration provides.\<close>

record platform =
  has_libaio :: bool
  has_mmap :: bool
  has_fdatasync :: bool

text \<open>Conversion to \<open>int\<close>, and the product of two \<open>int\<close>s as two's complement hardware computes it.\<close>

definition int_of_u64 :: "u64 \<Rightarrow> int" where
  "int_of_u64 w = sint (ucast w :: u32)"

definition int_mult :: "int \<Rightarrow> int \<Rightarrow> int" where
  "int_mult a b = sint (word_of_int (a * b) :: u32)"

fun test_mode_of :: "string \<Rightarrow> file_test_mode_t option" where
  "test_mode_of s =
     (if s = ''seqwr'' then Some MODE_WRITE
      else if s = ''seqrewr'' then Some MODE_REWRITE
      else if s = ''seqrd'' then Some MODE_READ
      else if s = ''rndrd'' then Some MODE_RND_READ
      else if s = ''rndwr'' then Some MODE_RND_WRITE
      else if s = ''rndrw'' then Some MODE_RND_RW else None)"

definition parse_test_mode :: "string \<Rightarrow> options \<Rightarrow> 'd file_conf \<Rightarrow> file_error + 'd file_conf" where
  "parse_test_mode cmdname opts c =
     (if cmdname = ''run'' then
        (case sb_get_value_string opts ''file-test-mode'' of
           None \<Rightarrow> Inl Missing_test_mode
         | Some mode \<Rightarrow>
             (case test_mode_of mode of
                None \<Rightarrow> Inl (Invalid_test_mode mode)
              | Some m \<Rightarrow> Inr (c\<lparr>test_mode := m\<rparr>)))
      else Inr c)"

definition parse_io_mode :: "platform \<Rightarrow> options \<Rightarrow> 'd file_conf \<Rightarrow> file_error + 'd file_conf" where
  "parse_io_mode plat opts c =
     (let mode = (case sb_get_value_string opts ''file-io-mode'' of None \<Rightarrow> ''sync'' | Some m \<Rightarrow> m)
      in if mode = ''sync'' then Inr (c\<lparr>file_io_mode := FILE_IO_MODE_SYNC\<rparr>)
         else if mode = ''async'' then
           (if has_libaio plat then Inr (c\<lparr>file_io_mode := FILE_IO_MODE_ASYNC\<rparr>) else Inl (Unsupported_io_mode mode))
         else if mode = ''mmap'' then
           (if has_mmap plat then Inr (c\<lparr>file_io_mode := FILE_IO_MODE_MMAP\<rparr>) else Inl (Unsupported_io_mode mode))
         else Inl (Unknown_io_mode mode))"

fun parse_extra_flags :: "string list \<Rightarrow> u32 \<Rightarrow> file_error + u32" where
  "parse_extra_flags [] flags = Inr flags"
| "parse_extra_flags (v # vs) flags =
     (if v = ''sync'' then parse_extra_flags vs (flags OR SB_FILE_FLAG_SYNC)
      else if v = ''dsync'' then parse_extra_flags vs (flags OR SB_FILE_FLAG_DSYNC)
      else if v = ''direct'' then parse_extra_flags vs (flags OR SB_FILE_FLAG_DIRECTIO)
      else Inl Invalid_extra_flags)"

definition parse_fsync_mode :: "platform \<Rightarrow> options \<Rightarrow> file_error + file_fsync_mode_t" where
  "parse_fsync_mode plat opts =
     (case sb_get_value_string opts ''file-fsync-mode'' of
        None \<Rightarrow> Inl Null_pointer
      | Some mode \<Rightarrow>
          if mode = ''fsync'' then Inr FSYNC_ALL
          else if mode = ''fdatasync'' then (if has_fdatasync plat then Inr FSYNC_DATA else Inl Unsupported_fsync_mode)
          else Inl (Invalid_fsync_mode mode))"

text \<open>An \<open>int\<close> option, or the end of the program; sequencing of checks.\<close>

definition get_file_int :: "options \<Rightarrow> string \<Rightarrow> file_error + int" where
  "get_file_int opts n = (case sb_get_value_int opts n of Inl e \<Rightarrow> Inl (File_exit e) | Inr i \<Rightarrow> Inr i)"

text \<open>
  The per-thread buffers: \<open>alloc\<close> tells whether the allocation of a number of bytes succeeds, \<open>junk\<close> is
  what the freshly allocated array holds in the fields the code does not set.
\<close>

definition alloc_buffers ::
  "(int \<Rightarrow> bool) \<Rightarrow> (nat \<Rightarrow> u32 \<times> int) \<Rightarrow> nat \<Rightarrow> int \<Rightarrow> file_error + sb_per_thread_t list"
where
  "alloc_buffers alloc junk threads n =
     (if threads > 0 \<and> \<not> alloc n then Inl No_memory
      else Inr (map (\<lambda>i. \<lparr>buffer = replicate (nat n) 0, buffer_file_id = fst (junk i), buffer_pos = snd (junk i)\<rparr>) [0..<threads]))"

definition parse_arguments ::
  "'d fp_ops \<Rightarrow> (string \<Rightarrow> 'd) \<Rightarrow> platform \<Rightarrow> (int \<Rightarrow> bool) \<Rightarrow> (nat \<Rightarrow> u32 \<times> int) \<Rightarrow> string \<Rightarrow> nat \<Rightarrow> options \<Rightarrow>
   'd file_conf \<Rightarrow> file_error + 'd file_conf \<times> sb_per_thread_t list"
where
  "parse_arguments fp strtod plat alloc junk cmdname threads opts c =
     check (get_file_int opts ''file-num'') (\<lambda>n.
       let c = c\<lparr>num_files := word_of_int n\<rparr>
       in if num_files c = 0 then Inl Invalid_file_num
          else
            let c = c\<lparr>total_size := sint (sb_get_value_size opts ''file-total-size'')\<rparr>
            in if total_size c \<le> 0 then Inl (Invalid_total_size (total_size c))
               else
                 check (parse_test_mode cmdname opts (c\<lparr>file_size := total_size c div uint (num_files c)\<rparr>)) (\<lambda>c.
                 check (parse_io_mode plat opts c) (\<lambda>c.
                 check (get_file_int opts ''file-merged-requests'') (\<lambda>merged.
                   let c = c\<lparr>file_merged_requests := merged\<rparr>
                   in if merged < 0 then Inl (Invalid_merged_requests merged)
                      else
                        let c = c\<lparr>file_block_size := int_of_u64 (sb_get_value_size opts ''file-block-size'')\<rparr>
                        in if file_block_size c \<le> 0 then Inl (Invalid_block_size (file_block_size c))
                           else
                             let c = c\<lparr>file_request_size :=
                                   if merged > 0 then int_mult (file_block_size c) merged else file_block_size c\<rparr>
                             in check (case sb_get_value_list opts ''file-extra-flags'' of
                                         None \<Rightarrow> Inl Null_pointer
                                       | Some vs \<Rightarrow> parse_extra_flags vs (file_extra_flags c)) (\<lambda>flags.
                                check (get_file_int opts ''file-fsync-freq'') (\<lambda>freq.
                                  if freq < 0 then Inl (Invalid_fsync_freq freq)
                                  else
                                    let fsync_end = sb_get_value_flag opts ''file-fsync-end'';
                                        fsync_all = sb_get_value_flag opts ''file-fsync-all'';
                                        c = c\<lparr>file_extra_flags := flags, file_fsync_all := fsync_all,
                                              file_fsync_end := fsync_end \<and> \<not> fsync_all,
                                              file_fsync_freq := if fsync_all then 0 else freq\<rparr>
                                    in check (parse_fsync_mode plat opts) (\<lambda>fm.
                                         let c = c\<lparr>file_fsync_mode := fm,
                                               file_rw_ratio := sb_get_value_double strtod (fp_of fp 0) opts ''file-rw-ratio''\<rparr>
                                         in if fp_lt fp (file_rw_ratio c) (fp_of fp 0) then Inl Invalid_rw_ratio
                                            else check (alloc_buffers alloc junk threads (file_request_size c)) (\<lambda>pt. Inr (c, pt)))))))))"

section \<open>Sequential requests\<close>

definition null_request :: sb_file_request_t where
  "null_request = \<lparr>file_id = 0, req_pos = 0, req_size = 0, operation = FILE_OP_TYPE_NULL\<rparr>"

text \<open>\<open>prev_req\<close> is a static variable, zero until the validation mode sets it.\<close>

definition init_vars :: file_vars where
  "init_vars = \<lparr>position = 0, current_file = 0, fsynced_file = 0, is_dirty = False, req_performed = 0,
     prev_req = null_request\<rparr>"

datatype seq_warning = Large_file_difference | Large_position_difference | Invalid_file_switch

definition check_seq_req :: "'d file_conf \<Rightarrow> sb_file_request_t \<Rightarrow> sb_file_request_t \<Rightarrow> seq_warning option" where
  "check_seq_req c prev r =
     (if operation r = FILE_OP_TYPE_FSYNC \<or> operation r = FILE_OP_TYPE_NULL then None
      else if operation prev = FILE_OP_TYPE_NULL then None
      else if file_id r - file_id prev > 1 \<and> \<not> (file_id r = 0 \<and> file_id prev = num_files c - 1) then Some Large_file_difference
      else if file_id r = file_id prev then
        (if req_pos r - req_pos prev \<noteq> req_size prev then Some Large_position_difference else None)
      else if req_pos prev + req_size prev \<noteq> file_size c \<or> req_pos r \<noteq> 0 then Some Invalid_file_switch
      else None)"

text \<open>The fsync request that both generators make, and the test of its frequency.\<close>

definition freq_reached :: "'d file_conf \<Rightarrow> file_vars \<Rightarrow> bool" where
  "freq_reached c v \<longleftrightarrow> req_performed v mod word_of_int (file_fsync_freq c) = 0"

definition fsync_request :: "'d file_conf \<Rightarrow> file_vars \<Rightarrow> sb_file_request_t \<times> file_vars" where
  "fsync_request c v =
     (let req = \<lparr>file_id = fsynced_file v, req_pos = 0, req_size = 0, operation = FILE_OP_TYPE_FSYNC\<rparr>;
          v = v\<lparr>fsynced_file := fsynced_file v + 1\<rparr>
      in (req, if fsynced_file v = num_files c then v\<lparr>fsynced_file := 0, is_dirty := False\<rparr> else v))"

definition file_get_seq_request ::
  "'d file_conf \<Rightarrow> bool \<Rightarrow> file_vars \<Rightarrow> sb_file_request_t \<times> seq_warning option \<times> file_vars"
where
  "file_get_seq_request c validate v =
     (let op = (if test_mode c = MODE_WRITE \<or> test_mode c = MODE_REWRITE then FILE_OP_TYPE_WRITE else FILE_OP_TYPE_READ)
      in if file_fsync_freq c \<noteq> 0 \<and> op = FILE_OP_TYPE_WRITE \<and> is_dirty v \<and> freq_reached c v then
           (let (req, v) = fsync_request c v in (req, None, v))
         else
           let v = v\<lparr>req_performed := req_performed v + 1\<rparr>;
               v = (if op = FILE_OP_TYPE_WRITE then v\<lparr>is_dirty := True\<rparr> else v);
               v = (if current_file v = num_files c then v\<lparr>position := 0, current_file := 0\<rparr> else v);
               req = \<lparr>file_id = current_file v, req_pos = position v,
                      req_size = min (file_request_size c) (file_size c - position v), operation = op\<rparr>;
               v = v\<lparr>position := position v + req_size req\<rparr>;
               v = (if position v = file_size c then v\<lparr>current_file := current_file v + 1, position := 0\<rparr> else v)
           in if validate then (req, check_seq_req c (prev_req v) req, v\<lparr>prev_req := req\<rparr>)
              else (req, None, v))"

section \<open>Random requests\<close>

text \<open>The retry loop; a file size of 0 divides by zero.\<close>

datatype rnd_fault = Division_by_zero

definition rnd_block :: "'d fp_ops \<Rightarrow> 'd file_conf \<Rightarrow> sb_rng_state_t \<Rightarrow> u32 \<times> int \<times> int \<times> sb_rng_state_t" where
  "rnd_block fp c rng =
     (let (d, rng) = sb_rand_uniform_double fp rng;
          tmppos = word_of_int (fp_floor fp (fp_mul fp d (fp_of fp (of_int (total_size c))))) :: u64;
          tmppos = tmppos - tmppos mod word_of_int (file_block_size c);
          pos = sint (tmppos mod word_of_int (file_size c))
      in (ucast (tmppos div word_of_int (file_size c)), pos, min (file_block_size c) (file_size c - pos), rng))"

definition block_in_use :: "sb_per_thread_t list \<Rightarrow> nat \<Rightarrow> u32 \<Rightarrow> int \<Rightarrow> bool" where
  "block_in_use pt thread_id fid pos \<longleftrightarrow>
     (\<exists>i < length pt. i \<noteq> thread_id \<and> buffer_file_id (pt ! i) = fid \<and> buffer_pos (pt ! i) = pos)"

partial_function (option) rnd_retry ::
  "'d fp_ops \<Rightarrow> 'd file_conf \<Rightarrow> bool \<Rightarrow> sb_per_thread_t list \<Rightarrow> nat \<Rightarrow> sb_rng_state_t \<Rightarrow>
   (u32 \<times> int \<times> int \<times> sb_rng_state_t) option"
where
  "rnd_retry fp c validate pt thread_id rng =
     (let (fid, pos, sz, rng') = rnd_block fp c rng
      in if validate \<and> block_in_use pt thread_id fid pos then rnd_retry fp c validate pt thread_id rng'
         else Some (fid, pos, sz, rng'))"

text \<open>\<open>reads\<close> and \<open>writes\<close> are the counters of the thread.\<close>

definition rnd_write_mode :: "'d fp_ops \<Rightarrow> 'd file_conf \<Rightarrow> u64 \<Rightarrow> u64 \<Rightarrow> bool" where
  "rnd_write_mode fp c reads writes =
     (if test_mode c = MODE_RND_RW then
        \<not> fp_lt fp (fp_div fp (fp_add fp (fp_of_u64 fp reads) (fp_of fp 1)) (fp_add fp (fp_of_u64 fp writes) (fp_of fp 1)))
            (file_rw_ratio c)
      else test_mode c = MODE_RND_WRITE)"

definition file_get_rnd_request ::
  "'d fp_ops \<Rightarrow> 'd file_conf \<Rightarrow> bool \<Rightarrow> u64 \<Rightarrow> u64 \<Rightarrow> nat \<Rightarrow> file_vars \<times> sb_per_thread_t list \<times> sb_rng_state_t \<Rightarrow>
   (rnd_fault + sb_file_request_t \<times> file_vars \<times> sb_per_thread_t list \<times> sb_rng_state_t) option"
where
  "file_get_rnd_request fp c validate reads writes thread_id = (\<lambda>(v, pt, rng).
     (let writing = rnd_write_mode fp c reads writes
      in if file_fsync_freq c \<noteq> 0 \<and> is_dirty v \<and> freq_reached c v then
           (let (req, v) = fsync_request c v in Some (Inr (req, v, pt, rng)))
         else
           let op = (if writing then FILE_OP_TYPE_WRITE else FILE_OP_TYPE_READ)
           in if file_size c = 0 then Some (Inl Division_by_zero)
              else do {
                (fid, pos, sz, rng) \<leftarrow> rnd_retry fp c validate pt thread_id rng;
                let pt = pt[thread_id := (pt ! thread_id)\<lparr>buffer_file_id := fid, buffer_pos := pos\<rparr>];
                let v = v\<lparr>req_performed := req_performed v + 1\<rparr>;
                let v = (if op = FILE_OP_TYPE_WRITE then v\<lparr>is_dirty := True\<rparr> else v);
                Some (Inr (\<lparr>file_id = fid, req_pos = pos, req_size = sz, operation = op\<rparr>, v, pt, rng))
              }))"

definition file_next_event ::
  "'d fp_ops \<Rightarrow> 'd file_conf \<Rightarrow> bool \<Rightarrow> u64 \<Rightarrow> u64 \<Rightarrow> nat \<Rightarrow> file_vars \<times> sb_per_thread_t list \<times> sb_rng_state_t \<Rightarrow>
   (rnd_fault + sb_file_request_t \<times> file_vars \<times> sb_per_thread_t list \<times> sb_rng_state_t) option"
where
  "file_next_event fp c validate reads writes thread_id = (\<lambda>(v, pt, rng).
     if test_mode c = MODE_WRITE \<or> test_mode c = MODE_REWRITE \<or> test_mode c = MODE_READ then
       (let (req, w, v) = file_get_seq_request c validate v in Some (Inr (req, v, pt, rng)))
     else file_get_rnd_request fp c validate reads writes thread_id (v, pt, rng))"

section \<open>Blocks with checksums\<close>

definition FILE_CHECKSUM_LENGTH :: nat where "FILE_CHECKSUM_LENGTH = 4"
definition FILE_OFFSET_LENGTH :: nat where "FILE_OFFSET_LENGTH = 8"

lemmas file_length_defs = FILE_CHECKSUM_LENGTH_def FILE_OFFSET_LENGTH_def

text \<open>Storing and loading an \<open>int\<close> and a \<open>long\<close> in the byte order of the machine.\<close>

definition bytes32 :: "bool \<Rightarrow> u32 \<Rightarrow> u8 list" where
  "bytes32 little w =
     (let bs = [ucast w, ucast (drop_bit 8 w), ucast (drop_bit 16 w), ucast (drop_bit 24 w)]
      in if little then bs else rev bs)"

definition load32 :: "bool \<Rightarrow> u8 list \<Rightarrow> u32" where
  "load32 little bs = (if little then load_le bs else load_be bs)"

definition bytes64 :: "bool \<Rightarrow> u64 \<Rightarrow> u8 list" where
  "bytes64 little w =
     (let bs = map (\<lambda>i. ucast (drop_bit (8 * i) w)) [0..<8] in if little then bs else rev bs)"

definition load64 :: "bool \<Rightarrow> u8 list \<Rightarrow> u64" where
  "load64 little bs = foldr (\<lambda>b acc. ucast b OR push_bit 8 acc) (if little then bs else rev bs) 0"

fun rand_bytes :: "nat \<Rightarrow> sb_rng_state_t \<Rightarrow> u8 list \<times> sb_rng_state_t" where
  "rand_bytes 0 rng = ([], rng)"
| "rand_bytes (Suc n) rng =
     (let (x, rng) = sb_rand_uniform_uint64 rng; (bs, rng) = rand_bytes n rng
      in (ucast (x AND 0xFF) # bs, rng))"

text \<open>
  The machine, as \<open>crc32\<close> sees it, and the address of the buffer.  \<open>None\<close> is an access outside of
  the buffer: the length of the data is an unsigned difference.
\<close>

definition file_fill_buffer ::
  "bool \<Rightarrow> bool \<Rightarrow> u64 \<Rightarrow> u8 list \<Rightarrow> nat \<Rightarrow> u64 \<Rightarrow> sb_rng_state_t \<Rightarrow> (u8 list \<times> sb_rng_state_t) option"
where
  "file_fill_buffer by_four little addr buf len offset rng =
     (if len < FILE_CHECKSUM_LENGTH + FILE_OFFSET_LENGTH \<or> length buf < len then None
      else
        (let (data, rng) = rand_bytes (len - (FILE_CHECKSUM_LENGTH + FILE_OFFSET_LENGTH)) rng
         in Some (data @ bytes32 little (ucast (crc32 by_four little 0 (Some (addr, data)))) @ bytes64 little offset @ drop len buf, rng)))"

datatype validation = Valid | Checksum_mismatch u32 u32 | Offset_mismatch u64 u64

definition file_validate_buffer :: "bool \<Rightarrow> bool \<Rightarrow> u64 \<Rightarrow> u8 list \<Rightarrow> nat \<Rightarrow> u64 \<Rightarrow> validation option" where
  "file_validate_buffer by_four little addr buf len offset =
     (if len < FILE_CHECKSUM_LENGTH + FILE_OFFSET_LENGTH \<or> length buf < len then None
      else
        (let cs_offset = len - (FILE_CHECKSUM_LENGTH + FILE_OFFSET_LENGTH);
             checksum = ucast (crc32 by_four little 0 (Some (addr, take cs_offset buf)));
             stored = load32 little (take 4 (drop cs_offset buf));
             stored_offset = load64 little (take 8 (drop (cs_offset + FILE_CHECKSUM_LENGTH) buf))
         in Some (if checksum \<noteq> stored then Checksum_mismatch checksum stored
                  else if offset \<noteq> stored_offset then Offset_mismatch offset stored_offset
                  else Valid)))"

section \<open>Notions of the properties\<close>

text \<open>
  What \<open>parse_arguments\<close> leaves in the configuration apart from a file size of 0; the number of
  requests per file; the \<open>k\<close>-th data request.
\<close>

definition conf_ok :: "'d file_conf \<Rightarrow> bool" where
  "conf_ok c \<longleftrightarrow> num_files c \<noteq> 0 \<and> 0 < file_size c \<and> 0 < file_request_size c"

definition per_file :: "'d file_conf \<Rightarrow> nat" where
  "per_file c = nat ((file_size c + file_request_size c - 1) div file_request_size c)"

definition seq_op :: "'d file_conf \<Rightarrow> sb_file_op_t" where
  "seq_op c = (if test_mode c = MODE_WRITE \<or> test_mode c = MODE_REWRITE then FILE_OP_TYPE_WRITE else FILE_OP_TYPE_READ)"

definition seq_spec :: "'d file_conf \<Rightarrow> nat \<Rightarrow> sb_file_request_t" where
  "seq_spec c k =
     (let p = int (k mod per_file c) * file_request_size c
      in \<lparr>file_id = of_nat (k div per_file c mod unat (num_files c)), req_pos = p,
          req_size = min (file_request_size c) (file_size c - p), operation = seq_op c\<rparr>)"

text \<open>The requests and warnings of \<open>m\<close> calls.\<close>

fun seq_run :: "'d file_conf \<Rightarrow> bool \<Rightarrow> nat \<Rightarrow> file_vars \<Rightarrow> (sb_file_request_t \<times> seq_warning option) list \<times> file_vars" where
  "seq_run c validate 0 v = ([], v)"
| "seq_run c validate (Suc m) v =
     (let (req, w, v) = file_get_seq_request c validate v; (es, v) = seq_run c validate m v
      in ((req, w) # es, v))"

definition data_requests :: "(sb_file_request_t \<times> seq_warning option) list \<Rightarrow> sb_file_request_t list" where
  "data_requests es = filter (\<lambda>r. operation r \<noteq> FILE_OP_TYPE_FSYNC) (map fst es)"

definition fsync_of :: "nat \<Rightarrow> sb_file_request_t" where
  "fsync_of i = \<lparr>file_id = of_nat i, req_pos = 0, req_size = 0, operation = FILE_OP_TYPE_FSYNC\<rparr>"

definition seq_inv :: "'d file_conf \<Rightarrow> nat \<Rightarrow> file_vars \<Rightarrow> bool" where
  "seq_inv c k v \<longleftrightarrow>
     position v = int (k mod per_file c) * file_request_size c \<and>
     current_file v = of_nat (if 0 < k \<and> k mod (per_file c * unat (num_files c)) = 0 then unat (num_files c)
                              else k div per_file c mod unat (num_files c))"

text \<open>One call that makes a data request, without the record of the previous request.\<close>

definition fsync_turn :: "'d file_conf \<Rightarrow> file_vars \<Rightarrow> bool" where
  "fsync_turn c v \<longleftrightarrow> file_fsync_freq c \<noteq> 0 \<and> seq_op c = FILE_OP_TYPE_WRITE \<and> is_dirty v \<and> freq_reached c v"

definition seq_prev :: "'d file_conf \<Rightarrow> nat \<Rightarrow> sb_file_request_t" where
  "seq_prev c k = (if k = 0 then null_request else seq_spec c (k - 1))"

text \<open>What \<open>parse_arguments\<close> leaves in the configuration for files of at least one byte and less than 8 PiB.\<close>

definition rnd_conf_ok :: "'d file_conf \<Rightarrow> bool" where
  "rnd_conf_ok c \<longleftrightarrow> 0 < uint (num_files c) \<and> uint (num_files c) < 2 ^ 31 \<and> 0 < total_size c \<and> total_size c < 2 ^ 53 \<and>
     file_size c = total_size c div uint (num_files c) \<and> 0 < file_size c \<and>
     0 < file_block_size c \<and> file_block_size c < 2 ^ 31"

text \<open>The byte of the whole set of files at which a request starts.\<close>

definition rnd_start :: "'d file_conf \<Rightarrow> u32 \<Rightarrow> int \<Rightarrow> int" where
  "rnd_start c fid pos = uint fid * file_size c + pos"

definition rnd_in_bounds :: "'d file_conf \<Rightarrow> u32 \<Rightarrow> int \<Rightarrow> int \<Rightarrow> bool" where
  "rnd_in_bounds c fid pos sz \<longleftrightarrow>
     0 \<le> pos \<and> 0 < sz \<and> sz \<le> file_block_size c \<and> pos + sz \<le> file_size c \<and>
     rnd_start c fid pos < total_size c \<and> file_block_size c dvd rnd_start c fid pos \<and>
     (uint (num_files c) dvd total_size c \<longrightarrow> fid < num_files c)"

text \<open>The state of the generator after one attempt, and whether the attempt finds a free block.\<close>

definition rnd_next :: "'d fp_ops \<Rightarrow> 'd file_conf \<Rightarrow> sb_rng_state_t \<Rightarrow> sb_rng_state_t" where
  "rnd_next fp c rng = (case rnd_block fp c rng of (fid, pos, sz, rng') \<Rightarrow> rng')"

definition rnd_free :: "'d fp_ops \<Rightarrow> 'd file_conf \<Rightarrow> sb_per_thread_t list \<Rightarrow> nat \<Rightarrow> sb_rng_state_t \<Rightarrow> bool" where
  "rnd_free fp c pt thread_id rng = (case rnd_block fp c rng of (fid, pos, sz, rng') \<Rightarrow> \<not> block_in_use pt thread_id fid pos)"

abbreviation demo_conf :: "u32 \<Rightarrow> int \<Rightarrow> int \<Rightarrow> file_test_mode_t \<Rightarrow> rat file_conf" where
  "demo_conf n tot block mode \<equiv>
     \<lparr>num_files = n, total_size = tot, file_size = tot div uint n, file_block_size = block, file_extra_flags = 0,
      file_fsync_freq = 2, file_fsync_all = False, file_fsync_end = True, file_fsync_mode = FSYNC_ALL, file_rw_ratio = 1,
      file_merged_requests = 0, file_request_size = block, file_io_mode = FILE_IO_MODE_SYNC, test_mode = mode\<rparr>"

section \<open>Lemmas: sequential requests\<close>

lemma per_file_bounds:
  assumes "conf_ok c"
  shows "0 < per_file c" "int (per_file c - 1) * file_request_size c < file_size c"
    "file_size c \<le> int (per_file c) * file_request_size c"
proof -
  let ?F = "file_size c" and ?R = "file_request_size c"
  have FR: "0 < ?F" "0 < ?R" using assms by (simp_all add: conf_ok_def)
  let ?q = "(?F + ?R - 1) div ?R"
  have "?q * ?R + (?F + ?R - 1) mod ?R = ?F + ?R - 1" by (rule div_mult_mod_eq)
  moreover have "0 \<le> (?F + ?R - 1) mod ?R" "(?F + ?R - 1) mod ?R < ?R" using FR(2) by simp_all
  ultimately have q: "?q * ?R \<le> ?F + ?R - 1" "?F \<le> ?q * ?R" by linarith+
  have q1: "1 \<le> ?q" using FR by (simp add: pos_imp_zdiv_pos_iff int_one_le_iff_zero_less)
  then have n: "int (per_file c) = ?q" by (simp add: per_file_def)
  show "0 < per_file c" using q1 n by simp
  then have "int (per_file c - 1) = ?q - 1" using n by simp
  then show "int (per_file c - 1) * ?R < ?F"
    using q(1) by (simp add: left_diff_distrib)
  show "?F \<le> int (per_file c) * ?R"
    using q(2) unfolding n .
qed

lemma seq_size:
  assumes "conf_ok c" "p < per_file c"
  shows "int p * file_request_size c < file_size c"
    and "Suc p < per_file c \<Longrightarrow> int p * file_request_size c + min (file_request_size c) (file_size c - int p * file_request_size c)
      = int (Suc p) * file_request_size c \<and> int (Suc p) * file_request_size c < file_size c"
    and "Suc p = per_file c \<Longrightarrow> int p * file_request_size c + min (file_request_size c) (file_size c - int p * file_request_size c) = file_size c"
proof -
  have R: "0 < file_request_size c" using assms(1) by (simp add: conf_ok_def)
  have less: "int q * file_request_size c < file_size c" if "q < per_file c" for q
  proof -
    have "int q \<le> int (per_file c - 1)" using that by simp
    then have "int q * file_request_size c \<le> int (per_file c - 1) * file_request_size c"
      using R by (intro mult_right_mono) simp_all
    with per_file_bounds(2) [OF assms(1)] show ?thesis by simp
  qed
  have S: "int (Suc p) * file_request_size c = int p * file_request_size c + file_request_size c"
    by (simp add: distrib_right)
  show "int p * file_request_size c < file_size c" using less assms(2) .
  show "int p * file_request_size c + min (file_request_size c) (file_size c - int p * file_request_size c)
      = int (Suc p) * file_request_size c \<and> int (Suc p) * file_request_size c < file_size c" if "Suc p < per_file c"
    using less [OF that] unfolding S by simp
  show "int p * file_request_size c + min (file_request_size c) (file_size c - int p * file_request_size c) = file_size c"
    if "Suc p = per_file c"
    using per_file_bounds(3) [OF assms(1)] unfolding that [symmetric] S by simp
qed

lemma Suc_next:
  fixes k n :: nat
  assumes "0 < n"
  shows "Suc (k mod n) < n \<Longrightarrow> Suc k mod n = Suc (k mod n) \<and> Suc k div n = k div n"
    and "Suc (k mod n) = n \<Longrightarrow> Suc k mod n = 0 \<and> Suc k div n = Suc (k div n)"
  by (auto simp: mod_Suc div_Suc)

lemma of_nat_num_files: "of_nat (unat (num_files c)) = num_files c"
  by simp

lemma unat_file_no: "i < unat (num_files c) \<Longrightarrow> unat (of_nat i :: u32) = i"
  using unat_less_two_power_u32 [of "num_files c"] by (simp add: unat_of_nat)

lemma seq_cursor:
  assumes "conf_ok c" "seq_inv c k v"
  defines "v1 \<equiv> (if current_file v = num_files c then v\<lparr>position := 0, current_file := 0\<rparr> else v)"
  shows "position v1 = int (k mod per_file c) * file_request_size c"
    and "current_file v1 = of_nat (k div per_file c mod unat (num_files c))"
proof -
  let ?n = "per_file c" and ?N = "unat (num_files c)"
  have N: "0 < ?N" using assms(1) by (simp add: conf_ok_def unat_gt_0)
  have "position v1 = int (k mod ?n) * file_request_size c \<and> current_file v1 = of_nat (k div ?n mod ?N)"
  proof (cases "0 < k \<and> k mod (?n * ?N) = 0")
    case True
    then have "k mod ?n = 0" "k div ?n mod ?N = 0"
      by (auto simp: mod_mult2_eq)
    with True assms(2) show ?thesis
      by (simp add: seq_inv_def v1_def)
  next
    case False
    have less: "k div ?n mod ?N < ?N" using N by simp
    then have "(of_nat (k div ?n mod ?N) :: u32) \<noteq> num_files c"
      using unat_file_no [OF less] by (metis nat_neq_iff)
    with False assms(2) show ?thesis
      by (auto simp: seq_inv_def v1_def)
  qed
  then show "position v1 = int (k mod ?n) * file_request_size c" "current_file v1 = of_nat (k div ?n mod ?N)"
    by blast+
qed

lemma seq_inv_Suc:
  assumes "conf_ok c" "position v = int (k mod per_file c) * file_request_size c"
    "current_file v = of_nat (k div per_file c mod unat (num_files c))"
  defines "p \<equiv> position v + min (file_request_size c) (file_size c - position v)"
  shows "seq_inv c (Suc k) (if p = file_size c then v\<lparr>position := 0, current_file := current_file v + 1\<rparr> else v\<lparr>position := p\<rparr>)"
proof -
  let ?n = "per_file c" and ?N = "unat (num_files c)"
  have N: "0 < ?N" using assms(1) by (simp add: conf_ok_def unat_gt_0)
  have n: "0 < ?n" by (rule per_file_bounds(1) [OF assms(1)])
  have pn: "k mod ?n < ?n" using n by simp
  have mm: "Suc k mod (?n * ?N) = ?n * (Suc k div ?n mod ?N) + Suc k mod ?n" by (rule mod_mult2_eq)
  consider "Suc (k mod ?n) < ?n" | "Suc (k mod ?n) = ?n" using pn by linarith
  then show ?thesis
  proof cases
    case 1
    then have "p = int (Suc (k mod ?n)) * file_request_size c" "p \<noteq> file_size c"
      using seq_size(2) [OF assms(1) pn 1] by (simp_all add: p_def assms(2))
    moreover have "Suc k mod (?n * ?N) \<noteq> 0" unfolding mm using Suc_next(1) [OF n 1] by simp
    ultimately show ?thesis
      using Suc_next(1) [OF n 1] assms(3) by (simp add: seq_inv_def)
  next
    case 2
    then have p: "p = file_size c"
      using seq_size(3) [OF assms(1) pn 2] by (simp add: p_def assms(2))
    show ?thesis
    proof (cases "Suc (k div ?n mod ?N) = ?N")
      case True
      then have "Suc k mod (?n * ?N) = 0" unfolding mm using Suc_next(2) [OF n 2] by (simp add: mod_Suc)
      moreover have "current_file v + 1 = of_nat ?N"
        unfolding assms(3) using True by (metis of_nat_Suc add.commute)
      ultimately show ?thesis
        using p Suc_next(2) [OF n 2] by (simp add: seq_inv_def)
    next
      case False
      then have d: "Suc k div ?n mod ?N = Suc (k div ?n mod ?N)" using Suc_next(2) [OF n 2] by (simp add: mod_Suc)
      then have "Suc k mod (?n * ?N) \<noteq> 0" unfolding mm using n by simp
      then show ?thesis
        using p Suc_next(2) [OF n 2] d assms(3) by (simp add: seq_inv_def)
    qed
  qed
qed

lemma seq_op_cases: "seq_op c \<noteq> FILE_OP_TYPE_FSYNC" "seq_op c \<noteq> FILE_OP_TYPE_NULL"
  by (simp_all add: seq_op_def)

lemma fsync_keeps_inv:
  assumes "seq_inv c k v"
  shows "seq_inv c k (snd (fsync_request c v))" "prev_req (snd (fsync_request c v)) = prev_req v"
    "operation (fst (fsync_request c v)) = FILE_OP_TYPE_FSYNC"
  using assms by (simp_all add: fsync_request_def seq_inv_def Let_def)

lemma seq_request_fsync:
  "fsync_turn c v \<Longrightarrow> file_get_seq_request c validate v = (fst (fsync_request c v), None, snd (fsync_request c v))"
  by (simp add: file_get_seq_request_def fsync_turn_def seq_op_def [symmetric] case_prod_beta)

lemma seq_request_data:
  assumes "conf_ok c" "seq_inv c k v" "\<not> fsync_turn c v"
  obtains v' where "file_get_seq_request c validate v =
      (seq_spec c k, if validate then check_seq_req c (prev_req v) (seq_spec c k) else None, v')"
    "seq_inv c (Suc k) v'" "prev_req v' = (if validate then seq_spec c k else prev_req v)"
    "is_dirty v' \<longleftrightarrow> seq_op c = FILE_OP_TYPE_WRITE \<or> is_dirty v" "req_performed v' = req_performed v + 1"
    "fsynced_file v' = fsynced_file v"
proof -
  define v0 where "v0 = (if seq_op c = FILE_OP_TYPE_WRITE then v\<lparr>req_performed := req_performed v + 1, is_dirty := True\<rparr>
      else v\<lparr>req_performed := req_performed v + 1\<rparr>)"
  define v1 where "v1 = (if current_file v0 = num_files c then v0\<lparr>position := 0, current_file := 0\<rparr> else v0)"
  define p where "p = position v1 + min (file_request_size c) (file_size c - position v1)"
  define v2 where "v2 = (if p = file_size c then v1\<lparr>position := 0, current_file := current_file v1 + 1\<rparr> else v1\<lparr>position := p\<rparr>)"
  have "seq_inv c k v0" using assms(2) by (simp add: seq_inv_def v0_def)
  note cur = seq_cursor [OF assms(1) this, folded v1_def]
  have inv: "seq_inv c (Suc k) v2"
    using seq_inv_Suc [OF assms(1) cur] by (simp only: v2_def p_def)
  let ?r = "\<lparr>file_id = current_file v1, req_pos = position v1,
      req_size = min (file_request_size c) (file_size c - position v1), operation = seq_op c\<rparr>"
  have r: "?r = seq_spec c k"
    by (simp add: seq_spec_def cur Let_def)
  have f: "prev_req v2 = prev_req v" "is_dirty v2 \<longleftrightarrow> seq_op c = FILE_OP_TYPE_WRITE \<or> is_dirty v"
    "req_performed v2 = req_performed v + 1" "fsynced_file v2 = fsynced_file v"
    by (simp_all add: v2_def v1_def v0_def)
  have "file_get_seq_request c validate v =
      (?r, if validate then check_seq_req c (prev_req v) ?r else None, if validate then v2\<lparr>prev_req := ?r\<rparr> else v2)"
  proof -
    have nt: "\<not> (file_fsync_freq c \<noteq> 0 \<and> seq_op c = FILE_OP_TYPE_WRITE \<and> is_dirty v \<and> freq_reached c v)"
      using assms(3) by (simp add: fsync_turn_def)
    show ?thesis
      unfolding file_get_seq_request_def seq_op_def [symmetric] Let_def if_not_P [OF nt]
      by (cases "seq_op c = FILE_OP_TYPE_WRITE"; cases "current_file v = num_files c"; cases "p = file_size c"; cases validate;
          simp add: v0_def v1_def v2_def p_def)
  qed
  moreover have "seq_inv c (Suc k) (if validate then v2\<lparr>prev_req := ?r\<rparr> else v2)"
    using inv by (simp add: seq_inv_def)
  ultimately show thesis
    using f by (intro that [of "if validate then v2\<lparr>prev_req := ?r\<rparr> else v2"]) (simp_all add: r)
qed

text \<open>The check of consecutive requests stays silent when there is more than one file.\<close>

lemma check_seq_silent:
  assumes "conf_ok c" "1 < unat (num_files c)"
  shows "check_seq_req c (seq_prev c k) (seq_spec c k) = None"
proof (cases k)
  case 0
  then show ?thesis by (simp add: seq_prev_def check_seq_req_def null_request_def)
next
  case (Suc j)
  let ?n = "per_file c" and ?N = "unat (num_files c)"
  have n: "0 < ?n" by (rule per_file_bounds(1) [OF assms(1)])
  have pn: "j mod ?n < ?n" using n by simp
  have op: "operation (seq_spec c i) = seq_op c" for i by (simp add: seq_spec_def Let_def)
  consider "Suc (j mod ?n) < ?n" | "Suc (j mod ?n) = ?n" using pn by linarith
  then show ?thesis
  proof cases
    case 1
    note nx = Suc_next(1) [OF n 1]
    have "int (j mod ?n) * file_request_size c + min (file_request_size c) (file_size c - int (j mod ?n) * file_request_size c)
      = int (Suc (j mod ?n)) * file_request_size c"
      using seq_size(2) [OF assms(1) pn 1] by blast
    then have "req_pos (seq_spec c k) - req_pos (seq_spec c j) = req_size (seq_spec c j)"
      using nx Suc by (simp add: seq_spec_def Let_def)
    moreover have "file_id (seq_spec c k) = file_id (seq_spec c j)"
      using nx Suc by (simp add: seq_spec_def Let_def)
    ultimately show ?thesis
      using Suc by (simp add: check_seq_req_def seq_prev_def)
  next
    case 2
    note nx = Suc_next(2) [OF n 2]
    let ?i = "j div ?n mod ?N"
    have i: "?i < ?N" using assms(2) by simp
    have fj: "file_id (seq_spec c j) = of_nat ?i" by (simp add: seq_spec_def Let_def)
    have switch: "req_pos (seq_spec c j) + req_size (seq_spec c j) = file_size c" "req_pos (seq_spec c k) = 0"
      using seq_size(3) [OF assms(1) pn 2] nx Suc by (simp_all add: seq_spec_def Let_def)
    show ?thesis
    proof (cases "Suc ?i = ?N")
      case True
      then have "file_id (seq_spec c k) = 0"
        using nx Suc by (simp add: seq_spec_def Let_def mod_Suc)
      moreover have last: "file_id (seq_spec c j) = num_files c - 1"
        unfolding fj using True by (metis add_diff_cancel_right' of_nat_Suc of_nat_num_files add.commute)
      moreover have "num_files c - 1 \<noteq> 0"
        using assms(2) by (metis eq_iff_diff_eq_0 less_irrefl unat_1)
      ultimately show ?thesis
        using switch Suc by (simp add: check_seq_req_def seq_prev_def)
    next
      case False
      then have "file_id (seq_spec c k) = of_nat (Suc ?i)"
        using nx Suc by (simp add: seq_spec_def Let_def mod_Suc)
      then have "file_id (seq_spec c k) - file_id (seq_spec c j) = 1" "file_id (seq_spec c k) \<noteq> file_id (seq_spec c j)"
        by (simp_all add: fj)
      then show ?thesis
        using switch Suc by (simp add: check_seq_req_def seq_prev_def)
    qed
  qed
qed

lemma seq_run_tiles:
  assumes "conf_ok c" "seq_inv c k v" "validate \<Longrightarrow> prev_req v = seq_prev c k"
  shows "\<exists>j. data_requests (fst (seq_run c validate m v)) = map (seq_spec c) [k..<k + j]"
    and "1 < unat (num_files c) \<or> \<not> validate \<Longrightarrow> \<forall>e \<in> set (fst (seq_run c validate m v)). snd e = None"
proof -
  have "(\<exists>j. data_requests (fst (seq_run c validate m v)) = map (seq_spec c) [k..<k + j]) \<and>
    (1 < unat (num_files c) \<or> \<not> validate \<longrightarrow> (\<forall>e \<in> set (fst (seq_run c validate m v)). snd e = None))"
    using assms(2,3)
  proof (induction m arbitrary: k v)
    case 0
    show ?case by (auto simp: data_requests_def intro!: exI [of _ 0])
  next
    case (Suc m)
    show ?case
    proof (cases "fsync_turn c v")
      case True
      note f = fsync_keeps_inv [OF Suc.prems(1)]
      from Suc.IH [OF f(1)] Suc.prems(2) f(2) True f(3) show ?thesis
        by (simp add: seq_request_fsync case_prod_beta Let_def data_requests_def)
    next
      case False
      obtain v' where v': "file_get_seq_request c validate v =
          (seq_spec c k, if validate then check_seq_req c (prev_req v) (seq_spec c k) else None, v')"
        "seq_inv c (Suc k) v'" "prev_req v' = (if validate then seq_spec c k else prev_req v)"
        using seq_request_data [OF assms(1) Suc.prems(1) False] by metis
      have pr: "validate \<Longrightarrow> prev_req v' = seq_prev c (Suc k)"
        using v'(3) by (simp add: seq_prev_def)
      obtain j where j: "data_requests (fst (seq_run c validate m v')) = map (seq_spec c) [Suc k..<Suc k + j]"
        using Suc.IH [OF v'(2) pr] by blast
      have "operation (seq_spec c k) \<noteq> FILE_OP_TYPE_FSYNC"
        using seq_op_cases by (simp add: seq_spec_def Let_def)
      then have "data_requests (fst (seq_run c validate (Suc m) v)) = seq_spec c k # map (seq_spec c) [Suc k..<Suc k + j]"
        using j by (simp add: v'(1) case_prod_beta Let_def data_requests_def)
      also have "\<dots> = map (seq_spec c) [k..<k + Suc j]"
        by (simp add: upt_conv_Cons del: upt_Suc)
      finally have "\<exists>j. data_requests (fst (seq_run c validate (Suc m) v)) = map (seq_spec c) [k..<k + j]"
        by blast
      moreover have "\<forall>e \<in> set (fst (seq_run c validate (Suc m) v)). snd e = None"
        if "1 < unat (num_files c) \<or> \<not> validate"
        using that Suc.IH [OF v'(2) pr] check_seq_silent [OF assms(1), of k] Suc.prems(2)
        by (auto simp: v'(1) case_prod_beta Let_def)
      ultimately show ?thesis by blast
    qed
  qed
  then show "\<exists>j. data_requests (fst (seq_run c validate m v)) = map (seq_spec c) [k..<k + j]"
    and "1 < unat (num_files c) \<or> \<not> validate \<Longrightarrow> \<forall>e \<in> set (fst (seq_run c validate m v)). snd e = None"
    by blast+
qed

lemma seq_inv_init: "seq_inv c 0 init_vars" "prev_req init_vars = seq_prev c 0"
  by (simp_all add: seq_inv_def init_vars_def seq_prev_def)

section \<open>Lemmas: periodic fsync\<close>

lemma fsync_series_seq:
  assumes "i < unat (num_files c)" "fsync_turn c v" "fsynced_file v = of_nat i"
  shows "seq_run c validate (unat (num_files c) - i) v =
    (map (\<lambda>j. (fsync_of j, None)) [i..<unat (num_files c)], v\<lparr>fsynced_file := 0, is_dirty := False\<rparr>)"
  using assms
proof (induction "unat (num_files c) - i" arbitrary: i v)
  case (Suc m)
  let ?N = "unat (num_files c)"
  have m: "?N - i = Suc m" "m = ?N - Suc i" using Suc.hyps(2) by simp_all
  have step: "file_get_seq_request c validate v = (fsync_of i, None, snd (fsync_request c v))"
    using Suc.prems(2,3) by (simp add: seq_request_fsync) (simp add: fsync_request_def fsync_of_def Let_def)
  have up: "[i..<?N] = i # [Suc i..<?N]" using Suc.prems(1) by (simp add: upt_conv_Cons)
  show ?case
  proof (cases "Suc i = ?N")
    case True
    then have "of_nat (Suc i) = num_files c" by simp
    then have "fsynced_file v + 1 = num_files c"
      using Suc.prems(3) by (simp add: add.commute)
    then show ?thesis
      unfolding up using True m by (simp add: step fsync_request_def Let_def)
  next
    case False
    then have lt: "Suc i < ?N" using Suc.prems(1) by simp
    then have ne: "fsynced_file v + 1 \<noteq> num_files c"
      using unat_file_no [OF lt] Suc.prems(3) by (metis add.commute nat_neq_iff of_nat_Suc)
    let ?v = "v\<lparr>fsynced_file := fsynced_file v + 1\<rparr>"
    have "fsync_turn c ?v" using Suc.prems(2) by (simp add: fsync_turn_def freq_reached_def)
    moreover have "fsynced_file ?v = of_nat (Suc i)" using Suc.prems(3) by simp
    ultimately have "seq_run c validate m ?v =
      (map (\<lambda>j. (fsync_of j, None)) [Suc i..<?N], ?v\<lparr>fsynced_file := 0, is_dirty := False\<rparr>)"
      using Suc.hyps(1) [OF m(2) lt] m(2) by simp
    then show ?thesis
      unfolding m(1) up using ne by (simp add: step fsync_request_def Let_def)
  qed
qed simp

section \<open>Lemmas: random requests\<close>

lemma draw_floor:
  assumes "0 < T" "T < 2 ^ 53"
  shows "0 \<le> \<lfloor>round_double (of_nat (draw52 s) / 2 ^ 52 * of_nat T)\<rfloor>"
    and "\<lfloor>round_double (of_nat (draw52 s) / 2 ^ 52 * of_nat T)\<rfloor> < int T"
proof -
  obtain e where e: "2 ^ e \<le> T" "T < 2 ^ (e + 1)" using binade_exists [OF assms(1)] by blast
  have "(2 :: nat) ^ e < 2 ^ 53" using e(1) assms(2) by linarith
  then have "e \<le> 52" using power_less_imp_less_exp [of "2 :: nat" e 53] by simp
  note sd = ieee.scaled_draw [OF draw52_less e this, of s]
  show "0 \<le> \<lfloor>round_double (of_nat (draw52 s) / 2 ^ 52 * of_nat T)\<rfloor>"
    using sd(1) by simp
  have "of_nat (T * 2 ^ (52 - e) - 1) / 2 ^ (52 - e) < (of_nat T :: rat)"
  proof -
    have "T * 2 ^ (52 - e) - 1 < T * 2 ^ (52 - e)" using assms(1) by simp
    then have "of_nat (T * 2 ^ (52 - e) - 1) < (of_nat (T * 2 ^ (52 - e)) :: rat)"
      by (simp only: of_nat_less_iff)
    then show ?thesis by (simp add: divide_less_eq)
  qed
  with sd(2) show "\<lfloor>round_double (of_nat (draw52 s) / 2 ^ 52 * of_nat T)\<rfloor> < int T"
    by (simp add: floor_less_iff)
qed

lemma sint_small: "uint w < 2 ^ 63 \<Longrightarrow> sint w = uint w" for w :: u64
  using signed_take_bit_int_eq_self [of 63 "uint w"] order_trans [OF _ uint_ge_0, of "- (2 ^ 63)" w]
  by (simp add: sint_uint)

lemma uint_small: "0 \<le> k \<Longrightarrow> k < 2 ^ 64 \<Longrightarrow> uint (word_of_int k :: u64) = k"
  by (simp add: uint_word_of_int)

lemma int_div_less:
  fixes a b n :: int
  assumes "0 < b" "a < n * b"
  shows "a div b < n"
proof (rule ccontr)
  assume "\<not> a div b < n"
  then have "n * b \<le> a div b * b" using assms(1) by (intro mult_right_mono) simp_all
  moreover have "a div b * b \<le> a"
    using div_mult_mod_eq [of a b] pos_mod_sign [OF assms(1), of a] by linarith
  ultimately show False using assms(2) by simp
qed

lemma rnd_block_bounds:
  assumes "rnd_conf_ok c" "rnd_block (ieee_ops f p) c rng = (fid, pos, sz, rng')"
  shows "rnd_in_bounds c fid pos sz"
proof -
  let ?T = "nat (total_size c)" and ?B = "file_block_size c" and ?F = "file_size c" and ?N = "uint (num_files c)"
  have c: "0 < ?N" "?N < 2 ^ 31" "0 < total_size c" "total_size c < 2 ^ 53" "?F = total_size c div ?N" "0 < ?F" "0 < ?B" "?B < 2 ^ 31"
    using assms(1) by (simp_all add: rnd_conf_ok_def)
  define t where "t = \<lfloor>round_double (of_nat (draw52 rng) / 2 ^ 52 * of_nat ?T)\<rfloor>"
  have t: "0 \<le> t" "t < total_size c"
    using draw_floor [of ?T rng] c(3,4) by (simp_all add: t_def nat_less_iff)
  have FT: "?F \<le> total_size c"
    using c(1,3) zdiv_mono2 [of "total_size c" 1 ?N] unfolding c(5) by simp
  define w where "w = (word_of_int t :: u64) - word_of_int t mod word_of_int ?B"
  define q where "q = t - t mod ?B"
  have wt: "uint (word_of_int t :: u64) = t" "uint (word_of_int ?B :: u64) = ?B" "uint (word_of_int ?F :: u64) = ?F"
    using t c FT by (simp_all add: uint_small)
  have m: "uint ((word_of_int t :: u64) mod word_of_int ?B) = t mod ?B"
    by (simp add: uint_mod wt)
  have "t mod ?B \<le> t" using t(1) c(7) by (simp add: zmod_le_nonneg_dividend)
  then have w: "uint w = q"
    unfolding w_def q_def by (simp add: uint_sub_lem [THEN iffD1] m wt)
  have "0 \<le> t mod ?B" using c(7) by simp
  then have q: "0 \<le> q" "q < total_size c"
    using t \<open>t mod ?B \<le> t\<close> unfolding q_def by linarith+
  have qB: "?B dvd q" by (simp add: q_def minus_mod_eq_div_mult)
  have d: "uint (w div word_of_int ?F) = q div ?F" "uint (w mod word_of_int ?F) = q mod ?F"
    by (simp_all add: uint_div uint_mod w wt)
  have "q mod ?F < 2 ^ 63" using pos_mod_bound [OF c(6), of q] FT c(4) by simp
  then have posw: "sint (w mod word_of_int ?F) = q mod ?F"
    using sint_small [of "w mod word_of_int ?F"] by (simp only: d(2))
  have qF: "q div ?F < 2 ^ 32"
  proof -
    have "total_size c < (?F + 1) * ?N"
      using div_mult_mod_eq [of "total_size c" ?N] pos_mod_bound [OF c(1), of "total_size c"]
      unfolding c(5) distrib_right by linarith
    also have "\<dots> \<le> (2 * ?F) * ?N" using c(1,6) by (intro mult_right_mono) simp_all
    also have "\<dots> < ?F * 2 ^ 32" using c(2,6) by simp
    finally have "q < ?F * 2 ^ 32" using q(2) by simp
    then show ?thesis using c(6) by (intro int_div_less) (simp_all add: mult.commute)
  qed
  have fidw: "uint (ucast (w div word_of_int ?F) :: u32) = q div ?F"
    using qF q(1) c(6) d(1) by (simp add: unsigned_ucast_eq take_bit_int_eq_self pos_imp_zdiv_nonneg_iff)
  let ?fp = "ieee_ops f p"
  have "round_double (of_int (total_size c)) = of_nat ?T"
    using ieee.rnd_nat [of ?T] c(3,4) by (simp add: nat_less_iff)
  then have "fp_floor ?fp (fp_mul ?fp (fst (sb_rand_uniform_double ?fp rng)) (fp_of ?fp (of_int (total_size c)))) = t"
    by (simp add: t_def ieee.uniform_double_exact)
  then have "rnd_block ?fp c rng = (ucast (w div word_of_int ?F), sint (w mod word_of_int ?F),
      min ?B (?F - sint (w mod word_of_int ?F)), snd (sb_rand_uniform_double ?fp rng))"
    by (simp only: rnd_block_def Let_def case_prod_beta w_def)
  then have r: "fid = ucast (w div word_of_int ?F)" "pos = q mod ?F" "sz = min ?B (?F - pos)"
    using assms(2) posw by simp_all
  have st: "rnd_start c fid pos = q"
    by (simp add: rnd_start_def r fidw)
  have "fid < num_files c" if "?N dvd total_size c"
  proof -
    have "total_size c = ?N * ?F" using that c(5) by simp
    then have "q div ?F < ?N" using q(2) c(6) by (intro int_div_less) simp_all
    then show ?thesis by (simp add: word_less_def r(1) fidw)
  qed
  then show ?thesis
    using q qB c st r(3) pos_mod_bound [OF c(6), of q] pos_mod_sign [OF c(6), of q]
    by (auto simp: rnd_in_bounds_def r(2))
qed

lemma rnd_retry_returns:
  assumes "validate \<Longrightarrow> rnd_free fp c pt t ((rnd_next fp c ^^ m) rng)"
  shows "\<exists>rng0 fid pos sz rng'. rnd_retry fp c validate pt t rng = Some (fid, pos, sz, rng') \<and>
    rnd_block fp c rng0 = (fid, pos, sz, rng') \<and> (validate \<longrightarrow> \<not> block_in_use pt t fid pos)"
  using assms
proof (induction m arbitrary: rng)
  case 0
  obtain fid pos sz rng' where b: "rnd_block fp c rng = (fid, pos, sz, rng')" by (metis prod_cases4)
  with 0 have free: "\<not> (validate \<and> block_in_use pt t fid pos)" by (auto simp: rnd_free_def)
  then have "rnd_retry fp c validate pt t rng = Some (fid, pos, sz, rng')"
    by (subst rnd_retry.simps) (auto simp: b)
  with b free show ?case by blast
next
  case (Suc m)
  obtain fid pos sz rng' where b: "rnd_block fp c rng = (fid, pos, sz, rng')" by (metis prod_cases4)
  show ?case
  proof (cases "validate \<and> block_in_use pt t fid pos")
    case True
    have "rnd_next fp c rng = rng'" by (simp add: rnd_next_def b)
    then have "validate \<Longrightarrow> rnd_free fp c pt t ((rnd_next fp c ^^ m) rng')"
      using Suc.prems by (simp add: funpow_swap1)
    from Suc.IH [OF this] show ?thesis
      using True by (subst rnd_retry.simps) (simp add: b)
  next
    case False
    then have "rnd_retry fp c validate pt t rng = Some (fid, pos, sz, rng')"
      by (subst rnd_retry.simps) (auto simp: b)
    with b False show ?thesis by blast
  qed
qed

section \<open>Lemmas: blocks\<close>

lemma ucast_byte: "(ucast (ucast y :: u8) :: u32) = take_bit 8 y" "(ucast (ucast x :: u8) :: u64) = take_bit 8 x"
  for y :: u32 and x :: u64
  by (auto simp: bit_simps intro!: bit_word_eqI)

lemma ucast_crc: "(ucast (crc32 by_four little 0 (Some (addr, data))) :: u32) = crc_spec 0 data"
proof -
  have "ucast (ucast x :: u64) = x" for x :: u32
    by (rule bit_word_eqI) (auto simp: bit_simps)
  then show ?thesis by (simp add: crc32_eq)
qed

lemma load32_bytes32: "load32 little (bytes32 little w) = w"
proof -
  have "take_bit 8 (drop_bit 24 w) = drop_bit 24 w"
    by (rule bit_word_eqI) (fastforce simp: bit_simps dest: bit_u32_bound)
  then have "load_le [ucast w, ucast (drop_bit 8 w), ucast (drop_bit 16 w), ucast (drop_bit 24 w)] = w"
    unfolding load_le_xor by (subst (5) word_bytes) (simp add: ucast_byte)
  then show ?thesis
    by (simp add: load32_def bytes32_def Let_def load_le_def load_be_def)
qed

lemma load64_prefix:
  "foldr (\<lambda>b acc. ucast b OR push_bit 8 acc) (map (\<lambda>i. ucast (drop_bit (8 * i) w) :: u8) [0..<k]) 0 = take_bit (8 * k) (w :: u64)"
proof (induction k arbitrary: w)
  case (Suc k)
  have "map (\<lambda>i. ucast (drop_bit (8 * i) w) :: u8) [0..<Suc k] =
      ucast w # map (\<lambda>i. ucast (drop_bit (8 * i) (drop_bit 8 w))) [0..<k]"
    unfolding upt_conv_Cons [OF zero_less_Suc] map_Suc_upt [symmetric] by (simp add: add.commute)
  then have "foldr (\<lambda>b acc. ucast b OR push_bit 8 acc) (map (\<lambda>i. ucast (drop_bit (8 * i) w) :: u8) [0..<Suc k]) 0 =
      take_bit 8 w OR push_bit 8 (take_bit (8 * k) (drop_bit 8 w))"
    using Suc [of "drop_bit 8 w"] by (simp only: foldr_Cons comp_apply ucast_byte)
  also have "\<dots> = take_bit (8 * Suc k) w"
    by (rule bit_word_eqI) (auto simp: bit_simps)
  finally show ?case .
qed simp

lemma load64_bytes64: "load64 little (bytes64 little w) = w"
proof -
  have "take_bit 64 w = w" by (rule bit_word_eqI) (auto simp: bit_simps)
  then show ?thesis
    using load64_prefix [of w 8] by (simp add: load64_def bytes64_def Let_def)
qed

lemma length_bytes [simp]: "length (bytes32 little w) = 4" "length (bytes64 little x) = 8"
  by (simp_all add: bytes32_def bytes64_def Let_def)

lemma length_rand_bytes [simp]: "length (fst (rand_bytes n rng)) = n"
  by (induction n arbitrary: rng) (simp_all add: case_prod_beta Let_def)

lemma fill_shape:
  assumes "file_fill_buffer by_four little addr buf len offset rng = Some (buf', rng')"
  obtains data where "length data + 12 = len" "len \<le> length buf"
    "buf' = data @ bytes32 little (crc_spec 0 data) @ bytes64 little offset @ drop len buf"
proof -
  define data where "data = fst (rand_bytes (len - 12) rng)"
  have "\<not> (len < 12 \<or> length buf < len)"
    using assms by (auto simp: file_fill_buffer_def file_length_defs split: if_splits)
  moreover from this have "buf' = data @ bytes32 little (ucast (crc32 by_four little 0 (Some (addr, data)))) @ bytes64 little offset @ drop len buf"
    using assms by (auto simp: file_fill_buffer_def file_length_defs data_def Let_def split: prod.splits)
  ultimately show thesis
    by (intro that [of data]) (simp_all add: data_def ucast_crc)
qed

lemma validate_shape:
  assumes "len = length data + 12"
  shows "file_validate_buffer by_four little addr (data @ bytes32 little w @ bytes64 little offset @ rest) len offset' =
    Some (if crc_spec 0 data \<noteq> w then Checksum_mismatch (crc_spec 0 data) w
          else if offset' \<noteq> offset then Offset_mismatch offset' offset else Valid)"
proof -
  have "take 4 (bytes32 little w @ xs) = bytes32 little w" "take 8 (bytes64 little offset @ xs) = bytes64 little offset" for xs
    by simp_all
  then show ?thesis
    using assms by (simp add: file_validate_buffer_def file_length_defs load32_bytes32 load64_bytes64 ucast_crc Let_def)
qed

section \<open>Properties\<close>

text \<open>
  C12 (seq_requests_tile): the data requests of a sequential test, in any number of calls and
  whatever fsync requests are made in between, are exactly the blocks of file 0, file 1, and so
  on, each file from its first to its last byte, starting over after the last file.  With more than
  one file the check of consecutive requests never raises a warning.
\<close>

theorem seq_requests_tile:
  assumes "conf_ok c"
  shows "(\<exists>j. data_requests (fst (seq_run c validate m init_vars)) = map (seq_spec c) [0..<j]) \<and>
    (1 < unat (num_files c) \<longrightarrow> (\<forall>e \<in> set (fst (seq_run c validate m init_vars)). snd e = None))"
  using seq_run_tiles [OF assms seq_inv_init(1), of validate m] seq_inv_init(2) [of c] by auto

theorem seq_requests_tile_witness:
  "\<exists>j. data_requests (fst (seq_run (demo_conf 3 120 16 MODE_WRITE) True 20 init_vars)) =
     map (seq_spec (demo_conf 3 120 16 MODE_WRITE)) [0..<j]"
  using seq_requests_tile [of "demo_conf 3 120 16 MODE_WRITE" True 20] by (simp add: conf_ok_def)

text \<open>
  Once a periodic fsync is due, the next requests of a sequential write test
  synchronise every file that is left, in order, and only then are the files clean again.
\<close>

theorem fsync_series:
  assumes "i < unat (num_files c)" "file_fsync_freq c \<noteq> 0" "seq_op c = FILE_OP_TYPE_WRITE"
    "is_dirty v" "freq_reached c v" "fsynced_file v = of_nat i"
  shows "seq_run c validate (unat (num_files c) - i) v =
    (map (\<lambda>j. (fsync_of j, None)) [i..<unat (num_files c)], v\<lparr>fsynced_file := 0, is_dirty := False\<rparr>)"
  using assms by (intro fsync_series_seq) (simp_all add: fsync_turn_def)

theorem fsync_series_witness:
  "seq_run (demo_conf 3 120 16 MODE_REWRITE) False 3 (init_vars\<lparr>is_dirty := True, req_performed := 4\<rparr>) =
     (map (\<lambda>j. (fsync_of j, None)) [0..<3], init_vars\<lparr>req_performed := 4\<rparr>)"
  using fsync_series [of 0 "demo_conf 3 120 16 MODE_REWRITE" "init_vars\<lparr>is_dirty := True, req_performed := 4\<rparr>" False]
  by (simp add: seq_op_def freq_reached_def init_vars_def)



text \<open>
  C14 (block_round_trip): a block filled for an offset passes the validation for this offset, on
  every machine, and fails it for every other offset; what follows the block in the buffer is kept.
\<close>

theorem block_round_trip:
  assumes "file_fill_buffer by_four little addr buf len offset rng = Some (buf', rng')"
  shows "file_validate_buffer by_four little addr' buf' len offset' =
      Some (if offset' = offset then Valid else Offset_mismatch offset' offset) \<and>
    length buf' = length buf \<and> drop len buf' = drop len buf"
proof -
  obtain data where d: "length data + 12 = len" "len \<le> length buf"
    "buf' = data @ bytes32 little (crc_spec 0 data) @ bytes64 little offset @ drop len buf"
    by (rule fill_shape [OF assms])
  then show ?thesis
    using validate_shape [of len data by_four little addr' "crc_spec 0 data" offset "drop len buf" offset'] by auto
qed

theorem block_round_trip_witness:
  "\<exists>buf' rng'. file_fill_buffer True True 64 (replicate 20 0) 16 4096 (1, 2) = Some (buf', rng') \<and>
     file_validate_buffer True True 128 buf' 16 4096 = Some Valid"
proof -
  obtain buf' rng' where f: "file_fill_buffer True True 64 (replicate 20 0) 16 4096 (1, 2) = Some (buf', rng')"
    by (auto simp: file_fill_buffer_def file_length_defs Let_def case_prod_beta)
  with block_round_trip [OF this, of 128 4096] show ?thesis by auto
qed

text \<open>
  C24 (corruption_detected): if up to four consecutive bytes of the data of a filled block change,
  the validation reports a checksum mismatch.
\<close>

theorem corruption_detected:
  assumes "file_fill_buffer by_four little addr buf len offset rng = Some (buf', rng')"
    and "take (len - (FILE_CHECKSUM_LENGTH + FILE_OFFSET_LENGTH)) buf' = pre @ x @ post"
    and "length y = length x" "length x \<le> 4" "y \<noteq> x"
  shows "\<exists>a b. file_validate_buffer by_four little addr'
      (pre @ y @ post @ drop (len - (FILE_CHECKSUM_LENGTH + FILE_OFFSET_LENGTH)) buf') len offset' = Some (Checksum_mismatch a b)"
proof -
  obtain data where d: "length data + 12 = len" "len \<le> length buf"
    "buf' = data @ bytes32 little (crc_spec 0 data) @ bytes64 little offset @ drop len buf"
    by (rule fill_shape [OF assms(1)])
  have n: "len - (FILE_CHECKSUM_LENGTH + FILE_OFFSET_LENGTH) = length data" using d(1) by (simp add: file_length_defs)
  have data: "data = pre @ x @ post" using assms(2) d(3) unfolding n by simp
  have "crc_spec 0 (pre @ y @ post) \<noteq> crc_spec 0 data"
    unfolding data using crc_spec_burst [of y x 0 pre post] assms(3-5) by simp
  moreover have "len = length (pre @ y @ post) + 12" using d(1) data assms(3) by simp
  ultimately have "file_validate_buffer by_four little addr'
      ((pre @ y @ post) @ bytes32 little (crc_spec 0 data) @ bytes64 little offset @ drop len buf) len offset' =
      Some (Checksum_mismatch (crc_spec 0 (pre @ y @ post)) (crc_spec 0 data))"
    by (simp add: validate_shape del: append_assoc)
  then show ?thesis unfolding n by (auto simp: d(3))
qed

theorem corruption_detected_witness:
  "\<exists>buf' rng' a b. file_fill_buffer True True 64 (replicate 20 0) 16 4096 (1, 2) = Some (buf', rng') \<and>
     file_validate_buffer True True 64 ([] @ [hd buf' + 1] @ take 3 (tl buf') @ drop 4 buf') 16 4096 = Some (Checksum_mismatch a b)"
proof -
  obtain buf' rng' where f: "file_fill_buffer True True 64 (replicate 20 0) 16 4096 (1, 2) = Some (buf', rng')"
    by (auto simp: file_fill_buffer_def file_length_defs Let_def case_prod_beta)
  obtain data where d: "length data + 12 = 16"
    "buf' = data @ bytes32 True (crc_spec 0 data) @ bytes64 True 4096 @ drop 16 (replicate 20 0)"
    by (rule fill_shape [OF f])
  then obtain x xs where "data = x # xs" by (cases data) auto
  with d have b: "buf' = x # xs @ bytes32 True (crc_spec 0 data) @ bytes64 True 4096 @ drop 16 (replicate 20 0)" "length xs = 3"
    by simp_all
  have "take (16 - (FILE_CHECKSUM_LENGTH + FILE_OFFSET_LENGTH)) buf' = [] @ [hd buf'] @ take 3 (tl buf')"
    by (simp add: file_length_defs b)
  from corruption_detected [OF f this, of "[hd buf' + 1]" 64 4096] f show ?thesis
    by (auto simp: file_length_defs)
qed

section \<open>Deviations\<close>

text \<open>With one file the rewind to its beginning raises a false warning.\<close>

lemma single_file_false_warning:
  "snd (fst (seq_run (demo_conf 1 32 16 MODE_READ) True 3 init_vars) ! 2) = Some Large_position_difference"
  by code_simp

text \<open>
  When the total size is not a multiple of the number of files, the last bytes belong to no file
  and a random request may name the file after the last.
\<close>

lemma rnd_file_out_of_range:
  "fst (rnd_block (ieee_ops f p) (demo_conf 128 2147483649 16384 MODE_RND_READ) (0xFFFFFFFFFFFFF000, 0)) = 128"
proof -
  have d: "draw52 (0xFFFFFFFFFFFFF000, 0) = 4503599627370495"
    by (simp add: draw52_def xoroshiro_next_def Let_def)
  have t: "round_double 2147483649 = 2147483649"
    using ieee.rnd_nat [of 2147483649] by simp
  have "\<lfloor>9671406561420630877536255 / 2147483648 :: rat\<rfloor> = 4503599629467646"
    by (simp add: floor_eq_iff)
  then have r: "round_double (9671406561420630877536255 / 4503599627370496) = 4503599629467647 / 2097152"
    by (subst round_double_eval [where k = 31]) (simp_all add: round_half_even_def Let_def)
  have fl: "\<lfloor>4503599629467647 / 2097152 :: rat\<rfloor> = 2147483648"
    by (simp add: floor_eq_iff)
  show ?thesis
    by (simp add: rnd_block_def case_prod_beta Let_def ieee.uniform_double_exact d t) (simp add: r fl)
qed

end
