(* ===== verification/SB_Fileio_Exec.thy ===== *)
theory SB_Fileio_Exec
  imports SB_Fileio
begin

text \<open>
  The file I/O test, continued: the wrappers around the system calls, asynchronous requests,
  executing a request, and the commands that create and remove the files
  (\<open>src/src/tests/fileio/sb_fileio.c\<close>).

  The operating system is a record of functions on a state \<open>'w\<close> of its own; a result is what the
  call returns.  The model is the one of a 64-bit platform: all files stay mapped in the
  memory-mapped mode.  Messages to the log are left out; every early return is an error value.
\<close>

unbundle bit_operations_syntax

section \<open>The operating system\<close>

datatype open_flag = O_CREAT | O_EXCL | O_WRONLY | O_RDWR | O_SYNC | O_DSYNC | O_DIRECT

text \<open>An asynchronous operation, and what it works on.\<close>

record sb_aio_oper_t =
  oper_type :: sb_file_op_t
  oper_len :: int
  oper_fd :: int
  oper_pos :: int
  oper_data :: "u8 list"

record 'w os_ops =
  os_open :: "string \<Rightarrow> open_flag list \<Rightarrow> 'w \<Rightarrow> int \<times> 'w"
  os_close :: "int \<Rightarrow> 'w \<Rightarrow> 'w"
  os_unlink :: "string \<Rightarrow> 'w \<Rightarrow> 'w"
  os_fstat_size :: "int \<Rightarrow> 'w \<Rightarrow> int option"
  os_lseek_end :: "int \<Rightarrow> 'w \<Rightarrow> int \<times> 'w"
  os_write :: "int \<Rightarrow> u8 list \<Rightarrow> 'w \<Rightarrow> int \<times> 'w"
  os_fsync :: "int \<Rightarrow> 'w \<Rightarrow> int \<times> 'w"
  os_fdatasync :: "int \<Rightarrow> 'w \<Rightarrow> int \<times> 'w"
  os_pread :: "int \<Rightarrow> nat \<Rightarrow> int \<Rightarrow> 'w \<Rightarrow> int \<times> u8 list"
  os_pwrite :: "int \<Rightarrow> u8 list \<Rightarrow> int \<Rightarrow> 'w \<Rightarrow> int \<times> 'w"
  os_ftruncate :: "int \<Rightarrow> int \<Rightarrow> 'w \<Rightarrow> int \<times> 'w"
  os_mmap :: "int \<Rightarrow> int \<Rightarrow> 'w \<Rightarrow> nat option \<times> 'w"
  os_munmap :: "nat \<Rightarrow> 'w \<Rightarrow> 'w"
  os_load :: "nat \<Rightarrow> int \<Rightarrow> nat \<Rightarrow> 'w \<Rightarrow> u8 list"
  os_store :: "nat \<Rightarrow> int \<Rightarrow> u8 list \<Rightarrow> 'w \<Rightarrow> 'w"
  os_msync :: "nat \<Rightarrow> 'w \<Rightarrow> int \<times> 'w"
  os_io_queue_init :: "nat \<Rightarrow> nat \<Rightarrow> 'w \<Rightarrow> int \<times> 'w"
  os_io_submit :: "nat \<Rightarrow> sb_aio_oper_t \<Rightarrow> 'w \<Rightarrow> int \<times> 'w"
  os_io_getevents :: "nat \<Rightarrow> nat \<Rightarrow> nat \<Rightarrow> 'w \<Rightarrow> (sb_aio_oper_t \<times> int) list option \<times> 'w"

datatype exec_error =
    Out_of_bounds
  | Incorrect_file_id u32
  | Request_exceeds_file
  | Null_request_called
  | Write_failed
  | Read_failed
  | Fsync_failed
  | Validation_failed validation
  | Submit_failed
  | Getevents_failed
  | Async_failed sb_file_op_t

text \<open>Descriptors, mappings, the queues of asynchronous requests, buffers, counters and the system.\<close>

record 'w file_state =
  files :: "int list"
  mmaps :: "nat list"
  nrequests :: "u32 list"
  per_thread :: "sb_per_thread_t list"
  counters :: "sb_counters_t list"
  world :: 'w

definition VALID_FILE :: "int \<Rightarrow> bool" where
  "VALID_FILE fd \<longleftrightarrow> fd \<ge> 0"

definition count_op :: "nat \<Rightarrow> sb_counter_type_t \<Rightarrow> 'w file_state \<Rightarrow> 'w file_state" where
  "count_op t type s = s\<lparr>counters := sb_counter_inc t type (counters s)\<rparr>"

definition count_bytes :: "nat \<Rightarrow> sb_counter_type_t \<Rightarrow> int \<Rightarrow> 'w file_state \<Rightarrow> 'w file_state" where
  "count_bytes t type n s = s\<lparr>counters := sb_counter_add t type (word_of_int n) (counters s)\<rparr>"

section \<open>Asynchronous requests\<close>

text \<open>\<open>backlog\<close> is the variable \<open>file_async_backlog\<close>.\<close>

definition file_async_init ::
  "'w os_ops \<Rightarrow> options \<Rightarrow> 'd file_conf \<Rightarrow> nat \<Rightarrow> 'w \<Rightarrow> (file_error + u32 \<times> u32 list) \<times> 'w"
where
  "file_async_init os opts c threads w =
     (if file_io_mode c \<noteq> FILE_IO_MODE_ASYNC then (Inr (0, []), w)
      else
        (case get_file_int opts ''file-async-backlog'' of
           Inl e \<Rightarrow> (Inl e, w)
         | Inr b \<Rightarrow>
             (let backlog = word_of_int b :: u32
              in if backlog = 0 then (Inl (Invalid_async_backlog b), w)
                 else
                   let (err, w) = fold (\<lambda>i (err, w). if err then (err, w)
                          else let (r, w) = os_io_queue_init os i (unat backlog) w in (r \<noteq> 0, w)) [0..<threads] (False, w)
                   in (if err then Inl Aio_init_failed else Inr (backlog, replicate threads 0), w))))"

fun wait_events :: "nat \<Rightarrow> (sb_aio_oper_t \<times> int) list \<Rightarrow> 'w file_state \<Rightarrow> exec_error option \<times> 'w file_state" where
  "wait_events t [] s = (None, s)"
| "wait_events t ((oper, res) # es) s =
     (let done = (\<lambda>s. wait_events t es (s\<lparr>nrequests := (nrequests s)[t := nrequests s ! t - 1]\<rparr>))
      in case oper_type oper of
           FILE_OP_TYPE_FSYNC \<Rightarrow>
             if res \<noteq> 0 then (Some (Async_failed FILE_OP_TYPE_FSYNC), s) else done (count_op t SB_CNT_OTHER s)
         | FILE_OP_TYPE_READ \<Rightarrow>
             if res \<noteq> oper_len oper then (Some (Async_failed FILE_OP_TYPE_READ), s)
             else done (count_bytes t SB_CNT_BYTES_READ (oper_len oper) (count_op t SB_CNT_READ s))
         | FILE_OP_TYPE_WRITE \<Rightarrow>
             if res \<noteq> oper_len oper then (Some (Async_failed FILE_OP_TYPE_WRITE), s)
             else done (count_bytes t SB_CNT_BYTES_WRITTEN (oper_len oper) (count_op t SB_CNT_WRITE s))
         | FILE_OP_TYPE_NULL \<Rightarrow> done s)"

definition file_wait :: "'w os_ops \<Rightarrow> u32 \<Rightarrow> nat \<Rightarrow> nat \<Rightarrow> 'w file_state \<Rightarrow> exec_error option \<times> 'w file_state" where
  "file_wait os backlog t nreq s =
     (let (evs, w) = os_io_getevents os t nreq (unat backlog) (world s); s = s\<lparr>world := w\<rparr>
      in case evs of
           None \<Rightarrow> (Some Getevents_failed, s)
         | Some es \<Rightarrow> if es = [] then (Some Getevents_failed, s) else wait_events t es s)"

definition file_submit_or_wait ::
  "'w os_ops \<Rightarrow> u32 \<Rightarrow> sb_aio_oper_t \<Rightarrow> nat \<Rightarrow> 'w file_state \<Rightarrow> exec_error option \<times> 'w file_state"
where
  "file_submit_or_wait os backlog oper t s =
     (let (r, w) = os_io_submit os t oper (world s); s = s\<lparr>world := w\<rparr>
      in if r < 1 then (Some Submit_failed, s)
         else
           let s = s\<lparr>nrequests := (nrequests s)[t := nrequests s ! t + 1]\<rparr>
           in if nrequests s ! t < backlog then (None, s) else file_wait os backlog t 1 s)"

section \<open>Reading, writing, synchronising\<close>

definition file_do_fsync ::
  "'w os_ops \<Rightarrow> platform \<Rightarrow> 'd file_conf \<Rightarrow> nat \<Rightarrow> 'w file_state \<Rightarrow> int \<times> 'w file_state"
where
  "file_do_fsync os plat c fno s =
     (case file_io_mode c of
        FILE_IO_MODE_MMAP \<Rightarrow> (let (r, w) = os_msync os (mmaps s ! fno) (world s) in (r, s\<lparr>world := w\<rparr>))
      | _ \<Rightarrow>
          if file_fsync_mode c = FSYNC_ALL then (let (r, w) = os_fsync os (files s ! fno) (world s) in (r, s\<lparr>world := w\<rparr>))
          else if has_fdatasync plat then (let (r, w) = os_fdatasync os (files s ! fno) (world s) in (r, s\<lparr>world := w\<rparr>))
          else (- 1, s))"

definition file_fsync ::
  "'w os_ops \<Rightarrow> platform \<Rightarrow> 'd file_conf \<Rightarrow> nat \<Rightarrow> nat \<Rightarrow> 'w file_state \<Rightarrow> exec_error option \<times> 'w file_state"
where
  "file_fsync os plat c fno t s =
     (let (r, s) = file_do_fsync os plat c fno s
      in if r \<noteq> 0 then (Some Fsync_failed, s) else (None, count_op t SB_CNT_OTHER s))"

text \<open>
  Both return the number of bytes; reading also gives the new content of the buffer, which an
  asynchronous read fills only later.
\<close>

definition file_pread ::
  "'w os_ops \<Rightarrow> u32 \<Rightarrow> 'd file_conf \<Rightarrow> nat \<Rightarrow> u8 list \<Rightarrow> int \<Rightarrow> int \<Rightarrow> nat \<Rightarrow> 'w file_state \<Rightarrow> int \<times> u8 list \<times> 'w file_state"
where
  "file_pread os backlog c fno buf count offset t s =
     (case file_io_mode c of
        FILE_IO_MODE_SYNC \<Rightarrow>
          (let (r, bs) = os_pread os (files s ! fno) (nat count) offset (world s)
           in (r, bs @ drop (length bs) buf, s))
      | FILE_IO_MODE_ASYNC \<Rightarrow>
          (let (err, s) = file_submit_or_wait os backlog
                 \<lparr>oper_type = FILE_OP_TYPE_READ, oper_len = count, oper_fd = files s ! fno, oper_pos = offset, oper_data = []\<rparr> t s
           in (if err \<noteq> None then 0 else count, buf, s))
      | FILE_IO_MODE_MMAP \<Rightarrow>
          (let bs = os_load os (mmaps s ! fno) offset (nat count) (world s)
           in (count, bs @ drop (length bs) buf, s)))"

definition file_pwrite ::
  "'w os_ops \<Rightarrow> u32 \<Rightarrow> 'd file_conf \<Rightarrow> nat \<Rightarrow> u8 list \<Rightarrow> int \<Rightarrow> int \<Rightarrow> nat \<Rightarrow> 'w file_state \<Rightarrow> int \<times> 'w file_state"
where
  "file_pwrite os backlog c fno buf count offset t s =
     (let bs = take (nat count) buf
      in case file_io_mode c of
           FILE_IO_MODE_SYNC \<Rightarrow>
             (let (r, w) = os_pwrite os (files s ! fno) bs offset (world s) in (r, s\<lparr>world := w\<rparr>))
         | FILE_IO_MODE_ASYNC \<Rightarrow>
             (let (err, s) = file_submit_or_wait os backlog
                    \<lparr>oper_type = FILE_OP_TYPE_WRITE, oper_len = count, oper_fd = files s ! fno, oper_pos = offset, oper_data = bs\<rparr> t s
              in (if err \<noteq> None then 0 else count, s))
         | FILE_IO_MODE_MMAP \<Rightarrow> (count, s\<lparr>world := os_store os (mmaps s ! fno) offset bs (world s)\<rparr>))"

definition set_buffer :: "nat \<Rightarrow> u8 list \<Rightarrow> 'w file_state \<Rightarrow> 'w file_state" where
  "set_buffer t bs s = s\<lparr>per_thread := (per_thread s)[t := (per_thread s ! t)\<lparr>buffer := bs\<rparr>]\<rparr>"

text \<open>The machine: whether a four-byte type exists, its byte order; the address of a thread's buffer.\<close>

record machine =
  by_four :: bool
  little_endian :: bool
  buffer_addr :: "nat \<Rightarrow> u64"

definition exec_write ::
  "'w os_ops \<Rightarrow> platform \<Rightarrow> machine \<Rightarrow> u32 \<Rightarrow> 'd file_conf \<Rightarrow> bool \<Rightarrow> sb_file_request_t \<Rightarrow> nat \<Rightarrow> sb_rng_state_t \<Rightarrow> 'w file_state \<Rightarrow>
   exec_error option \<times> sb_rng_state_t \<times> 'w file_state"
where
  "exec_write os plat m backlog c validate req t rng s =
     (let filled = (if validate then
                      file_fill_buffer (by_four m) (little_endian m) (buffer_addr m t) (buffer (per_thread s ! t))
                        (nat (req_size req)) (word_of_int (req_pos req)) rng
                    else Some (buffer (per_thread s ! t), rng))
      in case filled of
           None \<Rightarrow> (Some Out_of_bounds, rng, s)
         | Some (buf, rng) \<Rightarrow>
             (let s = set_buffer t buf s;
                  (r, s) = file_pwrite os backlog c (unat (file_id req)) buf (req_size req) (req_pos req) t s
              in if r \<noteq> req_size req then (Some Write_failed, rng, s)
                 else
                   let (err, s) = (if file_fsync_all c then file_fsync os plat c (unat (file_id req)) t s else (None, s))
                   in if err \<noteq> None then (err, rng, s)
                      else if file_io_mode c \<noteq> FILE_IO_MODE_ASYNC then
                        (None, rng, count_bytes t SB_CNT_BYTES_WRITTEN (req_size req) (count_op t SB_CNT_WRITE s))
                      else (None, rng, s)))"

definition exec_read ::
  "'w os_ops \<Rightarrow> machine \<Rightarrow> u32 \<Rightarrow> 'd file_conf \<Rightarrow> bool \<Rightarrow> sb_file_request_t \<Rightarrow> nat \<Rightarrow> 'w file_state \<Rightarrow> exec_error option \<times> 'w file_state"
where
  "exec_read os m backlog c validate req t s =
     (let (r, buf, s) = file_pread os backlog c (unat (file_id req)) (buffer (per_thread s ! t)) (req_size req) (req_pos req) t s;
          s = set_buffer t buf s
      in if r \<noteq> req_size req then (Some Read_failed, s)
         else
           let v = (if validate then
                      file_validate_buffer (by_four m) (little_endian m) (buffer_addr m t) buf (nat (req_size req)) (word_of_int (req_pos req))
                    else Some Valid)
           in case v of
                None \<Rightarrow> (Some Out_of_bounds, s)
              | Some v \<Rightarrow>
                  if v \<noteq> Valid then (Some (Validation_failed v), s)
                  else if file_io_mode c \<noteq> FILE_IO_MODE_ASYNC then
                    (None, count_bytes t SB_CNT_BYTES_READ (req_size req) (count_op t SB_CNT_READ s))
                  else (None, s))"

definition file_execute_event ::
  "'w os_ops \<Rightarrow> platform \<Rightarrow> machine \<Rightarrow> u32 \<Rightarrow> 'd file_conf \<Rightarrow> bool \<Rightarrow> sb_file_request_t \<Rightarrow> nat \<Rightarrow> sb_rng_state_t \<Rightarrow> 'w file_state \<Rightarrow>
   exec_error option \<times> sb_rng_state_t \<times> 'w file_state"
where
  "file_execute_event os plat m backlog c validate req t rng s =
     (if file_id req > num_files c then (Some (Incorrect_file_id (file_id req)), rng, s)
      else if req_pos req + req_size req > file_size c then (Some Request_exceeds_file, rng, s)
      else if unat (file_id req) \<ge> length (files s) then (Some Out_of_bounds, rng, s)
      else
        (case operation req of
           FILE_OP_TYPE_NULL \<Rightarrow> (Some Null_request_called, rng, s)
         | FILE_OP_TYPE_WRITE \<Rightarrow> exec_write os plat m backlog c validate req t rng s
         | FILE_OP_TYPE_READ \<Rightarrow> (let (err, s) = exec_read os m backlog c validate req t s in (err, rng, s))
         | FILE_OP_TYPE_FSYNC \<Rightarrow>
             if file_fsync_all c then (None, rng, s)
             else (let (err, s) = file_fsync os plat c (unat (file_id req)) t s in (err, rng, s))))"

fun fsync_files ::
  "'w os_ops \<Rightarrow> platform \<Rightarrow> 'd file_conf \<Rightarrow> nat \<Rightarrow> nat list \<Rightarrow> 'w file_state \<Rightarrow> exec_error option \<times> 'w file_state"
where
  "fsync_files os plat c t [] s = (None, s)"
| "fsync_files os plat c t (i # is) s =
     (let (err, s) = file_fsync os plat c i t s in if err \<noteq> None then (err, s) else fsync_files os plat c t is s)"

definition file_thread_done ::
  "'w os_ops \<Rightarrow> platform \<Rightarrow> u32 \<Rightarrow> 'd file_conf \<Rightarrow> nat \<Rightarrow> 'w file_state \<Rightarrow> exec_error option \<times> 'w file_state"
where
  "file_thread_done os plat backlog c t s =
     (let (err, s) = (if file_fsync_end c \<and> test_mode c \<noteq> MODE_READ \<and> test_mode c \<noteq> MODE_RND_READ
                      then fsync_files os plat c t [0..<unat (num_files c)] s else (None, s))
      in if err \<noteq> None then (err, s)
         else if file_io_mode c = FILE_IO_MODE_ASYNC \<and> nrequests s ! t > 0
           then file_wait os backlog t (unat (nrequests s ! t)) s
         else (None, s))"

section \<open>Creating, opening and removing the files\<close>

text \<open>The flags of \<open>open\<close>; \<open>None\<close> is an unknown value.\<close>

definition convert_extra_flags :: "u32 \<Rightarrow> open_flag list option" where
  "convert_extra_flags flags =
     (if flags > SB_FILE_FLAG_DIRECTIO then None
      else Some ((if flags AND SB_FILE_FLAG_SYNC \<noteq> 0 then [O_SYNC] else []) @
                 (if flags AND SB_FILE_FLAG_DSYNC \<noteq> 0 then [O_DSYNC] else []) @
                 (if flags AND SB_FILE_FLAG_DIRECTIO \<noteq> 0 then [O_DIRECT] else [])))"

definition file_name :: "nat \<Rightarrow> string" where
  "file_name i = ''test_file.'' @ print_int (int i)"

definition sb_open :: "'w os_ops \<Rightarrow> 'd file_conf \<Rightarrow> string \<Rightarrow> 'w \<Rightarrow> int \<times> 'w" where
  "sb_open os c name w =
     (case convert_extra_flags (file_extra_flags c) of
        None \<Rightarrow> (- 1, w)
      | Some flags \<Rightarrow> os_open os name (O_RDWR # flags) w)"

definition sb_create :: "'w os_ops \<Rightarrow> string \<Rightarrow> 'w \<Rightarrow> bool \<times> 'w" where
  "sb_create os path w =
     (let (fd, w) = os_open os path [O_CREAT, O_EXCL] w in (\<not> VALID_FILE fd, os_close os fd w))"

datatype prepare_error = Cannot_create string | Cannot_open string | Fstat_failed string | File_too_small string int
  | Write_error | Unknown_flags | Ftruncate_failed nat | Mmap_failed nat

text \<open>Opening one file of the test.\<close>

definition prepare_one :: "'w os_ops \<Rightarrow> 'd file_conf \<Rightarrow> nat \<Rightarrow> 'w \<Rightarrow> (prepare_error + int) \<times> 'w" where
  "prepare_one os c i w =
     (let name = file_name i;
          (err, w) = (if test_mode c = MODE_WRITE then sb_create os name (os_unlink os name w) else (False, w))
      in if err then (Inl (Cannot_create name), w)
         else
           let (fd, w) = sb_open os c name w
           in if \<not> VALID_FILE fd then (Inl (Cannot_open name), w)
              else if test_mode c = MODE_WRITE then (Inr fd, w)
              else (case os_fstat_size os fd w of
                      None \<Rightarrow> (Inl (Fstat_failed name), w)
                    | Some sz \<Rightarrow> if sz < file_size c then (Inl (File_too_small name sz), w) else (Inr fd, w)))"

fun prepare_files :: "'w os_ops \<Rightarrow> 'd file_conf \<Rightarrow> nat list \<Rightarrow> 'w \<Rightarrow> (prepare_error + int list) \<times> 'w" where
  "prepare_files os c [] w = (Inr [], w)"
| "prepare_files os c (i # is) w =
     (case prepare_one os c i w of
        (Inl e, w) \<Rightarrow> (Inl e, w)
      | (Inr fd, w) \<Rightarrow>
          (case prepare_files os c is w of
             (Inl e, w) \<Rightarrow> (Inl e, w)
           | (Inr fds, w) \<Rightarrow> (Inr (fd # fds), w)))"

fun truncate_files :: "'w os_ops \<Rightarrow> 'd file_conf \<Rightarrow> nat \<Rightarrow> int list \<Rightarrow> 'w \<Rightarrow> prepare_error option \<times> 'w" where
  "truncate_files os c i [] w = (None, w)"
| "truncate_files os c i (fd # fds) w =
     (let (r, w) = os_ftruncate os fd (file_size c) w
      in if r \<noteq> 0 then (Some (Ftruncate_failed i), w) else truncate_files os c (Suc i) fds w)"

fun map_files :: "'w os_ops \<Rightarrow> 'd file_conf \<Rightarrow> nat \<Rightarrow> int list \<Rightarrow> 'w \<Rightarrow> (prepare_error + nat list) \<times> 'w" where
  "map_files os c i [] w = (Inr [], w)"
| "map_files os c i (fd # fds) w =
     (case os_mmap os fd (file_size c) w of
        (None, w) \<Rightarrow> (Inl (Mmap_failed i), w)
      | (Some m, w) \<Rightarrow>
          (case map_files os c (Suc i) fds w of
             (Inl e, w) \<Rightarrow> (Inl e, w)
           | (Inr ms, w) \<Rightarrow> (Inr (m # ms), w)))"

definition file_mmap_prepare :: "'w os_ops \<Rightarrow> 'd file_conf \<Rightarrow> int list \<Rightarrow> 'w \<Rightarrow> (prepare_error + nat list) \<times> 'w" where
  "file_mmap_prepare os c fds w =
     (if file_io_mode c \<noteq> FILE_IO_MODE_MMAP then (Inr [], w)
      else
        (case (if test_mode c = MODE_WRITE then truncate_files os c 0 fds w else (None, w)) of
           (Some e, w) \<Rightarrow> (Inl e, w)
         | (None, w) \<Rightarrow> map_files os c 0 fds w))"

definition file_prepare :: "'w os_ops \<Rightarrow> platform \<Rightarrow> 'd file_conf \<Rightarrow> 'w \<Rightarrow> (prepare_error + int list \<times> nat list) \<times> 'w" where
  "file_prepare os plat c w =
     (case prepare_files os c [0..<unat (num_files c)] w of
        (Inl e, w) \<Rightarrow> (Inl e, w)
      | (Inr fds, w) \<Rightarrow>
          if has_mmap plat then
            (case file_mmap_prepare os c fds w of
               (Inl e, w) \<Rightarrow> (Inl e, w)
             | (Inr ms, w) \<Rightarrow> (Inr (fds, ms), w))
          else (Inr (fds, []), w))"

definition file_mmap_done :: "'w os_ops \<Rightarrow> 'd file_conf \<Rightarrow> 'w file_state \<Rightarrow> 'w file_state" where
  "file_mmap_done os c s =
     (if file_io_mode c \<noteq> FILE_IO_MODE_MMAP then s
      else s\<lparr>world := fold (os_munmap os) (mmaps s) (world s), mmaps := []\<rparr>)"

definition file_done :: "'w os_ops \<Rightarrow> platform \<Rightarrow> 'd file_conf \<Rightarrow> 'w file_state \<Rightarrow> 'w file_state" where
  "file_done os plat c s =
     (let s = s\<lparr>world := fold (os_close os) (files s) (world s)\<rparr>;
          s = (if file_io_mode c = FILE_IO_MODE_ASYNC then s\<lparr>nrequests := []\<rparr> else s);
          s = (if has_mmap plat then file_mmap_done os c s else s)
      in s\<lparr>per_thread := []\<rparr>)"

text \<open>
  Extending one file block by block.  The loop need not end for a block size that is not positive,
  which \<open>parse_arguments\<close> excludes.
\<close>

partial_function (option) create_blocks ::
  "'w os_ops \<Rightarrow> machine \<Rightarrow> 'd file_conf \<Rightarrow> bool \<Rightarrow> int \<Rightarrow> int \<Rightarrow> u8 list \<times> sb_rng_state_t \<times> int \<times> 'w \<Rightarrow>
   (exec_error option \<times> u8 list \<times> sb_rng_state_t \<times> int \<times> 'w) option"
where
  "create_blocks os m c validate fd offset st =
     (case st of (buf, rng, written, w) \<Rightarrow>
        if offset < file_size c then
          (case (if validate then
                   file_fill_buffer (by_four m) (little_endian m) (buffer_addr m 0) buf (nat (file_block_size c)) (word_of_int offset) rng
                 else Some (buf, rng)) of
             None \<Rightarrow> Some (Some Out_of_bounds, buf, rng, written, w)
           | Some (buf, rng) \<Rightarrow>
               (case os_write os fd (take (nat (file_block_size c)) buf) w of
                  (r, w) \<Rightarrow>
                    if r < 0 then Some (Some Write_failed, buf, rng, written, w)
                    else create_blocks os m c validate fd (offset + file_block_size c) (buf, rng, written + file_block_size c, w)))
        else Some (None, buf, rng, written, w))"

fun create_each ::
  "'w os_ops \<Rightarrow> machine \<Rightarrow> 'd file_conf \<Rightarrow> bool \<Rightarrow> open_flag list \<Rightarrow> nat list \<Rightarrow> u8 list \<times> sb_rng_state_t \<times> int \<times> 'w \<Rightarrow>
   (prepare_error option \<times> u8 list \<times> sb_rng_state_t \<times> int \<times> 'w) option"
where
  "create_each os m c validate flags [] st = Some (None, st)"
| "create_each os m c validate flags (i # is) (buf, rng, written, w) =
     (let (fd, w) = os_open os (file_name i) (O_CREAT # O_WRONLY # flags) w
      in if fd < 0 then Some (Some (Cannot_open (file_name i)), buf, rng, written, w)
         else
           let (offset, w) = os_lseek_end os fd w
           in case create_blocks os m c validate fd offset (buf, rng, written, w) of
                None \<Rightarrow> None
              | Some (Some e, buf, rng, written, w) \<Rightarrow> Some (Some Write_error, buf, rng, written, os_close os fd w)
              | Some (None, buf, rng, written, w) \<Rightarrow>
                  create_each os m c validate flags is (buf, rng, written, os_close os fd (snd (os_fsync os fd w))))"

text \<open>\<open>create_files\<close> uses the buffer of thread 0; \<open>written\<close> is the number of bytes it reports.\<close>

definition create_files ::
  "'w os_ops \<Rightarrow> machine \<Rightarrow> 'd file_conf \<Rightarrow> bool \<Rightarrow> u8 list \<Rightarrow> sb_rng_state_t \<Rightarrow> 'w \<Rightarrow>
   (prepare_error option \<times> u8 list \<times> sb_rng_state_t \<times> int \<times> 'w) option"
where
  "create_files os m c validate buf rng w =
     (case convert_extra_flags (file_extra_flags c) of
        None \<Rightarrow> Some (Some Unknown_flags, buf, rng, 0, w)
      | Some flags \<Rightarrow> create_each os m c validate flags [0..<unat (num_files c)] (buf, rng, 0, w))"

definition remove_files :: "'w os_ops \<Rightarrow> 'd file_conf \<Rightarrow> 'w \<Rightarrow> 'w" where
  "remove_files os c w = fold (\<lambda>i. os_unlink os (file_name i)) [0..<unat (num_files c)] w"

text \<open>What a command does once its arguments are parsed.\<close>

datatype 'r cmd_result = Removed 'r | Created "(prepare_error option \<times> u8 list \<times> sb_rng_state_t \<times> int \<times> 'r) option"

definition file_cmd_prepare ::
  "'d fp_ops \<Rightarrow> (string \<Rightarrow> 'd) \<Rightarrow> platform \<Rightarrow> (int \<Rightarrow> bool) \<Rightarrow> (nat \<Rightarrow> u32 \<times> int) \<Rightarrow> string \<Rightarrow> nat \<Rightarrow> options \<Rightarrow> 'd file_conf \<Rightarrow>
   'w os_ops \<Rightarrow> machine \<Rightarrow> bool \<Rightarrow> sb_rng_state_t \<Rightarrow> 'w \<Rightarrow> file_error + 'w cmd_result"
where
  "file_cmd_prepare fp strtod plat alloc junk cmdname threads opts c os m validate rng w =
     check (parse_arguments fp strtod plat alloc junk cmdname threads opts c) (\<lambda>(c, pt).
       if test_mode c = MODE_WRITE then Inr (Removed (remove_files os c w))
       else Inr (Created (create_files os m c validate (buffer (pt ! 0)) rng w)))"

definition file_cmd_cleanup ::
  "'d fp_ops \<Rightarrow> (string \<Rightarrow> 'd) \<Rightarrow> platform \<Rightarrow> (int \<Rightarrow> bool) \<Rightarrow> (nat \<Rightarrow> u32 \<times> int) \<Rightarrow> string \<Rightarrow> nat \<Rightarrow> options \<Rightarrow> 'd file_conf \<Rightarrow>
   'w os_ops \<Rightarrow> 'w \<Rightarrow> file_error + 'w"
where
  "file_cmd_cleanup fp strtod plat alloc junk cmdname threads opts c os w =
     check (parse_arguments fp strtod plat alloc junk cmdname threads opts c) (\<lambda>(c, pt). Inr (remove_files os c w))"

definition file_init ::
  "'d fp_ops \<Rightarrow> (string \<Rightarrow> 'd) \<Rightarrow> platform \<Rightarrow> (int \<Rightarrow> bool) \<Rightarrow> (nat \<Rightarrow> u32 \<times> int) \<Rightarrow> string \<Rightarrow> nat \<Rightarrow> options \<Rightarrow> 'd file_conf \<Rightarrow>
   'w os_ops \<Rightarrow> 'w \<Rightarrow> (file_error + 'd file_conf \<times> sb_per_thread_t list \<times> u32 \<times> u32 list \<times> file_vars) \<times> 'w"
where
  "file_init fp strtod plat alloc junk cmdname threads opts c os w =
     (case parse_arguments fp strtod plat alloc junk cmdname threads opts c of
        Inl e \<Rightarrow> (Inl e, w)
      | Inr (c, pt) \<Rightarrow>
          if \<not> alloc (4 * uint (num_files c)) then (Inl No_memory, w)
          else if has_libaio plat then
            (case file_async_init os opts c threads w of
               (Inl e, w) \<Rightarrow> (Inl e, w)
             | (Inr (backlog, nreq), w) \<Rightarrow> (Inr (c, pt, backlog, nreq, init_vars), w))
          else (Inr (c, pt, 0, [], init_vars), w))"

definition conf_parsed :: "'d file_conf \<Rightarrow> bool" where
  "conf_parsed c \<longleftrightarrow> num_files c \<noteq> 0 \<and> 0 < total_size c \<and> file_size c = total_size c div uint (num_files c) \<and>
     0 < file_block_size c \<and> 0 \<le> file_merged_requests c \<and>
     file_request_size c = (if 0 < file_merged_requests c then int_mult (file_block_size c) (file_merged_requests c) else file_block_size c) \<and>
     0 \<le> file_fsync_freq c \<and> (file_fsync_all c \<longrightarrow> file_fsync_freq c = 0 \<and> \<not> file_fsync_end c)"

text \<open>What a request adds to the counters of its thread.\<close>

definition request_counts :: "'d file_conf \<Rightarrow> sb_file_request_t \<Rightarrow> nat \<Rightarrow> sb_counters_t list \<Rightarrow> sb_counters_t list" where
  "request_counts c req t cs =
     (case operation req of
        FILE_OP_TYPE_WRITE \<Rightarrow>
          sb_counter_add t SB_CNT_BYTES_WRITTEN (word_of_int (req_size req)) (sb_counter_inc t SB_CNT_WRITE
            (if file_fsync_all c then sb_counter_inc t SB_CNT_OTHER cs else cs))
      | FILE_OP_TYPE_READ \<Rightarrow>
          sb_counter_add t SB_CNT_BYTES_READ (word_of_int (req_size req)) (sb_counter_inc t SB_CNT_READ cs)
      | FILE_OP_TYPE_FSYNC \<Rightarrow> if file_fsync_all c then cs else sb_counter_inc t SB_CNT_OTHER cs
      | FILE_OP_TYPE_NULL \<Rightarrow> cs)"

text \<open>What POSIX promises of a complete write: the bytes are there for the next read.\<close>

definition reads_back :: "'w os_ops \<Rightarrow> bool" where
  "reads_back os \<longleftrightarrow> (\<forall>fd bs off w w'. os_pwrite os fd bs off w = (int (length bs), w') \<longrightarrow>
     os_pread os fd (length bs) off w' = (int (length bs), bs))"

text \<open>
  What the kernel promises: \<open>inflight\<close> counts the requests of a thread that were submitted and not
  yet reported; waiting reports at least the requested number and at most what is in flight.
\<close>

definition aio_laws :: "'w os_ops \<Rightarrow> ('w \<Rightarrow> nat \<Rightarrow> nat) \<Rightarrow> bool" where
  "aio_laws os inflight \<longleftrightarrow>
     (\<forall>t oper w r w'. os_io_submit os t oper w = (r, w') \<longrightarrow> 1 \<le> r \<longrightarrow> inflight w' t = Suc (inflight w t)) \<and>
     (\<forall>t n b w es w'. os_io_getevents os t n b w = (Some es, w') \<longrightarrow>
        length es \<le> inflight w t \<and> (n \<le> inflight w t \<longrightarrow> n \<le> length es) \<and> inflight w' t = inflight w t - length es)"

definition queue_ok :: "('w \<Rightarrow> nat \<Rightarrow> nat) \<Rightarrow> nat \<Rightarrow> 'w file_state \<Rightarrow> bool" where
  "queue_ok inflight t s \<longleftrightarrow> t < length (nrequests s) \<and> unat (nrequests s ! t) = inflight (world s) t"

text \<open>
  A system that keeps its files in memory, to show that the promises the properties ask for can be kept: a byte for every descriptor and
  position, and the asynchronous requests of each thread.
\<close>

record ram =
  ram_bytes :: "int \<Rightarrow> int \<Rightarrow> u8"
  ram_queue :: "nat \<Rightarrow> sb_aio_oper_t list"

definition ram_read :: "int \<Rightarrow> nat \<Rightarrow> int \<Rightarrow> ram \<Rightarrow> u8 list" where
  "ram_read fd n off w = map (\<lambda>i. ram_bytes w fd (off + int i)) [0..<n]"

definition ram_write :: "int \<Rightarrow> u8 list \<Rightarrow> int \<Rightarrow> ram \<Rightarrow> ram" where
  "ram_write fd bs off w = w\<lparr>ram_bytes := (ram_bytes w)(fd :=
     (\<lambda>p. if off \<le> p \<and> p < off + int (length bs) then bs ! nat (p - off) else ram_bytes w fd p))\<rparr>"

definition ram_os :: "ram os_ops" where
  "ram_os = \<lparr>os_open = (\<lambda>_ _ w. (3, w)), os_close = (\<lambda>_ w. w), os_unlink = (\<lambda>_ w. w), os_fstat_size = (\<lambda>_ _. None),
     os_lseek_end = (\<lambda>_ w. (0, w)), os_write = (\<lambda>fd bs w. (int (length bs), w)),
     os_fsync = (\<lambda>_ w. (0, w)), os_fdatasync = (\<lambda>_ w. (0, w)),
     os_pread = (\<lambda>fd n off w. (int n, ram_read fd n off w)),
     os_pwrite = (\<lambda>fd bs off w. (int (length bs), ram_write fd bs off w)),
     os_ftruncate = (\<lambda>_ _ w. (0, w)), os_mmap = (\<lambda>_ _ w. (None, w)), os_munmap = (\<lambda>_ w. w),
     os_load = (\<lambda>_ _ _ _. []), os_store = (\<lambda>_ _ _ w. w), os_msync = (\<lambda>_ w. (0, w)),
     os_io_queue_init = (\<lambda>_ _ w. (0, w)),
     os_io_submit = (\<lambda>t oper w. (1, w\<lparr>ram_queue := (ram_queue w)(t := ram_queue w t @ [oper])\<rparr>)),
     os_io_getevents = (\<lambda>t n b w. (Some (map (\<lambda>oper. (oper, oper_len oper)) (ram_queue w t)), w\<lparr>ram_queue := (ram_queue w)(t := [])\<rparr>))\<rparr>"

definition ram0 :: ram where
  "ram0 = \<lparr>ram_bytes = (\<lambda>_ _. 0), ram_queue = (\<lambda>_. [])\<rparr>"

definition ram_state :: "ram file_state" where
  "ram_state = \<lparr>files = [3, 4], mmaps = [], nrequests = [0, 0],
     per_thread = replicate 2 \<lparr>buffer = replicate 16 0, buffer_file_id = 0, buffer_pos = 0\<rparr>,
     counters = replicate 3 (replicate SB_CNT_MAX 0), world = ram0\<rparr>"

definition linux :: platform where
  "linux = \<lparr>has_libaio = True, has_mmap = True, has_fdatasync = True\<rparr>"

definition x86 :: machine where
  "x86 = \<lparr>by_four = True, little_endian = True, buffer_addr = (\<lambda>i. 4096 * of_nat i)\<rparr>"

definition block_request :: "sb_file_op_t \<Rightarrow> sb_file_request_t" where
  "block_request op = \<lparr>file_id = 1, req_pos = 16, req_size = 16, operation = op\<rparr>"

text \<open>The defaults of the options are accepted, here with small blocks.\<close>

definition default_parse :: "file_error + rat file_conf \<times> sb_per_thread_t list" where
  "default_parse = parse_arguments (rounded_ops (\<lambda>x. x) (\<lambda>x. x) (\<lambda>x y. x)) (\<lambda>_. 3 / 2) linux (\<lambda>_. True) (\<lambda>_. (0, 0)) ''prepare'' 1
     (fst (set_option Map.empty ''file-block-size'' (Some ''64'') SB_ARG_TYPE_INT
        (fst (sb_register_arg_set Map.empty (fileio_args True) [])))) (demo_conf 0 0 0 MODE_READ)"

section \<open>Lemmas: options\<close>

lemma check_Inr: "check r k = Inr x \<longleftrightarrow> (\<exists>a. r = Inr a \<and> k a = Inr x)"
  by (cases r) (simp_all add: check_def)

lemma parse_test_mode_keeps:
  assumes "parse_test_mode cmdname opts c = Inr c'"
  shows "num_files c' = num_files c \<and> total_size c' = total_size c \<and> file_size c' = file_size c \<and>
    (cmdname \<noteq> ''run'' \<longrightarrow> test_mode c' = test_mode c)"
  using assms by (auto simp: parse_test_mode_def split: if_splits option.splits)

lemma parse_io_mode_keeps:
  assumes "parse_io_mode plat opts c = Inr c'"
  shows "num_files c' = num_files c \<and> total_size c' = total_size c \<and> file_size c' = file_size c \<and>
    test_mode c' = test_mode c"
  using assms by (auto simp: parse_io_mode_def Let_def split: if_splits)

lemma alloc_buffers_ok:
  assumes "alloc_buffers alloc junk threads n = Inr pt"
  shows "length pt = threads \<and> (\<forall>b \<in> set pt. length (buffer b) = nat n)"
  using assms by (auto simp: alloc_buffers_def split: if_splits)

lemma guard_Inr: "(if b then Inl e else r) = Inr x \<longleftrightarrow> \<not> b \<and> r = Inr x"
  by simp

lemma parse_arguments_ok:
  assumes "parse_arguments fp strtod plat alloc junk cmdname threads opts c0 = Inr (c, pt)"
  shows "conf_parsed c \<and> length pt = threads \<and> (\<forall>b \<in> set pt. length (buffer b) = nat (file_request_size c)) \<and>
    (cmdname \<noteq> ''run'' \<longrightarrow> test_mode c = test_mode c0)"
  using assms unfolding parse_arguments_def Let_def check_Inr guard_Inr
  apply (elim exE conjE)
  apply (drule parse_test_mode_keeps)
  apply (drule parse_io_mode_keeps)
  apply (drule alloc_buffers_ok)
  apply (clarsimp simp: conf_parsed_def not_le not_less)
  done

section \<open>Lemmas: synchronous requests\<close>

lemma fsync_counters:
  assumes "file_fsync os plat c fno t s = (err, s')"
  shows "counters s' = (if err = None then sb_counter_inc t SB_CNT_OTHER (counters s) else counters s)"
  using assms
  by (auto simp: file_fsync_def file_do_fsync_def count_op_def Let_def case_prod_beta
    split: file_io_mode_t.splits if_splits)

lemma pwrite_counters:
  assumes "file_io_mode c \<noteq> FILE_IO_MODE_ASYNC" "file_pwrite os backlog c fno buf n off t s = (r, s')"
  shows "counters s' = counters s"
  using assms by (auto simp: file_pwrite_def Let_def case_prod_beta split: file_io_mode_t.splits)

lemma pread_state:
  assumes "file_io_mode c \<noteq> FILE_IO_MODE_ASYNC" "file_pread os backlog c fno buf n off t s = (r, buf', s')"
  shows "s' = s"
  using assms by (auto simp: file_pread_def Let_def case_prod_beta split: file_io_mode_t.splits)

lemma exec_write_counters:
  assumes "file_io_mode c \<noteq> FILE_IO_MODE_ASYNC" "operation req = FILE_OP_TYPE_WRITE"
    "exec_write os plat m backlog c validate req t rng s = (err, rng', s')"
  shows "counters s' = (if err = None then request_counts c req t (counters s) else counters s)"
proof -
  let ?filled = "if validate then file_fill_buffer (by_four m) (little_endian m) (buffer_addr m t) (buffer (per_thread s ! t))
      (nat (req_size req)) (word_of_int (req_pos req)) rng else Some (buffer (per_thread s ! t), rng)"
  show ?thesis
  proof (cases ?filled)
    case None
    then show ?thesis using assms(3) by (auto simp: exec_write_def Let_def)
  next
    case (Some br)
    obtain buf rng1 where br: "br = (buf, rng1)" by (cases br)
    obtain r s1 where p: "file_pwrite os backlog c (unat (file_id req)) buf (req_size req) (req_pos req) t (set_buffer t buf s) = (r, s1)"
      by (metis prod.exhaust)
    have c1: "counters s1 = counters s"
      using pwrite_counters [OF assms(1) p] by (simp add: set_buffer_def)
    obtain e2 s2 where f: "file_fsync os plat c (unat (file_id req)) t s1 = (e2, s2)" by (metis prod.exhaust)
    show ?thesis
      using assms Some c1 fsync_counters [OF f]
      by (auto simp: exec_write_def Let_def br p f request_counts_def count_op_def count_bytes_def split: if_splits)
  qed
qed

lemma exec_read_counters:
  assumes "file_io_mode c \<noteq> FILE_IO_MODE_ASYNC" "operation req = FILE_OP_TYPE_READ"
    "exec_read os m backlog c validate req t s = (err, s')"
  shows "counters s' = (if err = None then request_counts c req t (counters s) else counters s)"
proof -
  obtain r buf s1 where p: "file_pread os backlog c (unat (file_id req)) (buffer (per_thread s ! t)) (req_size req) (req_pos req) t s = (r, buf, s1)"
    by (metis prod_cases3)
  with pread_state [OF assms(1) p] assms show ?thesis
    by (auto simp: exec_read_def Let_def request_counts_def set_buffer_def count_op_def count_bytes_def split: option.splits if_splits)
qed

lemma exec_write_sync:
  assumes "file_io_mode c = FILE_IO_MODE_SYNC" "\<not> file_fsync_all c"
    "exec_write os plat m backlog c True req t rng s = (None, rng', s')"
  obtains buf w where "file_fill_buffer (by_four m) (little_endian m) (buffer_addr m t) (buffer (per_thread s ! t))
      (nat (req_size req)) (word_of_int (req_pos req)) rng = Some (buf, rng')"
    "os_pwrite os (files s ! unat (file_id req)) (take (nat (req_size req)) buf) (req_pos req) (world s) = (req_size req, w)"
    "world s' = w" "files s' = files s"
proof (cases "file_fill_buffer (by_four m) (little_endian m) (buffer_addr m t) (buffer (per_thread s ! t))
      (nat (req_size req)) (word_of_int (req_pos req)) rng")
  case None
  then show thesis using assms(3) by (simp add: exec_write_def)
next
  case (Some br)
  obtain buf rng1 where br: "br = (buf, rng1)" by (cases br)
  obtain r w where p: "os_pwrite os (files s ! unat (file_id req)) (take (nat (req_size req)) buf) (req_pos req) (world s) = (r, w)"
    by (metis prod.exhaust)
  have "r = req_size req \<and> rng1 = rng' \<and> world s' = w \<and> files s' = files s"
    using assms by (auto simp: exec_write_def Some br file_pwrite_def p set_buffer_def count_op_def count_bytes_def Let_def split: if_splits)
  with Some p that [of buf w] show thesis by (simp add: br)
qed

lemma written_reads_back:
  assumes "reads_back os" "file_io_mode c = FILE_IO_MODE_SYNC" "\<not> file_fsync_all c"
    "exec_write os plat m backlog c True req t rng s = (None, rng', s')"
  shows "fst (exec_read os m backlog c True req u s') = None"
proof -
  obtain buf w where b: "file_fill_buffer (by_four m) (little_endian m) (buffer_addr m t) (buffer (per_thread s ! t))
      (nat (req_size req)) (word_of_int (req_pos req)) rng = Some (buf, rng')"
    "os_pwrite os (files s ! unat (file_id req)) (take (nat (req_size req)) buf) (req_pos req) (world s) = (req_size req, w)"
    "world s' = w" "files s' = files s"
    by (rule exec_write_sync [OF assms(2-4)])
  obtain data where d: "length data + 12 = nat (req_size req)" "nat (req_size req) \<le> length (buffer (per_thread s ! t))"
    "buf = data @ bytes32 (little_endian m) (crc_spec 0 data) @ bytes64 (little_endian m) (word_of_int (req_pos req)) @
       drop (nat (req_size req)) (buffer (per_thread s ! t))"
    by (rule fill_shape [OF b(1)])
  define bs where "bs = take (nat (req_size req)) buf"
  have bs: "bs = data @ bytes32 (little_endian m) (crc_spec 0 data) @ bytes64 (little_endian m) (word_of_int (req_pos req))"
    using d(1) by (simp add: bs_def d(3) d(1) [symmetric])
  have len: "length bs = nat (req_size req)" "int (length bs) = req_size req"
    using d(1) by (simp_all add: bs)
  have sz: "0 \<le> req_size req" using d(1) by linarith
  have "os_pread os (files s ! unat (file_id req)) (length bs) (req_pos req) w = (int (length bs), bs)"
    using assms(1) b(2) unfolding reads_back_def bs_def [symmetric] by (metis len(2))
  then have rd: "file_pread os backlog c (unat (file_id req)) (buffer (per_thread s' ! u)) (req_size req) (req_pos req) u s' =
      (req_size req, bs @ drop (length bs) (buffer (per_thread s' ! u)), s')"
    using assms(2) sz by (simp add: file_pread_def b(3,4) len)
  have "file_validate_buffer (by_four m) (little_endian m) (buffer_addr m u) (bs @ drop (length bs) (buffer (per_thread s' ! u)))
      (nat (req_size req)) (word_of_int (req_pos req)) = Some Valid"
    using validate_shape [of "nat (req_size req)" data "by_four m" "little_endian m" "buffer_addr m u" "crc_spec 0 data"
        "word_of_int (req_pos req)" "drop (length bs) (buffer (per_thread s' ! u))"] d(1) by (simp add: bs)
  then show ?thesis
    using assms(2) by (simp add: exec_read_def rd Let_def)
qed

section \<open>Lemmas: the queue of asynchronous requests\<close>

lemma wait_events_queue:
  assumes "wait_events t es s = (None, s')" "t < length (nrequests s)" "length es \<le> unat (nrequests s ! t)"
  shows "unat (nrequests s' ! t) = unat (nrequests s ! t) - length es \<and> length (nrequests s') = length (nrequests s) \<and> world s' = world s"
  using assms
proof (induction es arbitrary: s)
  case (Cons e es)
  obtain oper res where e: "e = (oper, res)" by (cases e)
  obtain s1 where s1: "wait_events t es (s1\<lparr>nrequests := (nrequests s1)[t := nrequests s1 ! t - 1]\<rparr>) = (None, s')"
    "nrequests s1 = nrequests s" "world s1 = world s"
    using Cons.prems(1)
    by (cases "oper_type oper") (auto simp: e Let_def count_op_def count_bytes_def split: if_splits)
  have "1 \<le> nrequests s ! t" using Cons.prems(3) by (simp add: word_le_nat_alt)
  then have u: "unat (nrequests s ! t - 1) = unat (nrequests s ! t) - 1" by (simp add: unat_sub)
  show ?case
    using Cons.IH [OF s1(1)] Cons.prems(2,3) u by (simp add: s1(2,3))
qed simp

lemma file_wait_queue:
  assumes "aio_laws os inflight" "queue_ok inflight t s" "file_wait os backlog t n s = (None, s')" "n \<le> inflight (world s) t"
  shows "queue_ok inflight t s' \<and> unat (nrequests s' ! t) \<le> unat (nrequests s ! t) - n \<and>
    (0 < inflight (world s) t \<longrightarrow> unat (nrequests s' ! t) < unat (nrequests s ! t))"
proof -
  obtain evs w where g: "os_io_getevents os t n (unat backlog) (world s) = (evs, w)" by (metis prod.exhaust)
  with assms(3) obtain es where es: "evs = Some es" "es \<noteq> []" "wait_events t es (s\<lparr>world := w\<rparr>) = (None, s')"
    by (auto simp: file_wait_def Let_def split: option.splits if_splits)
  have l: "length es \<le> inflight (world s) t" "n \<le> length es" "inflight w t = inflight (world s) t - length es"
    using assms(1,4) g unfolding es(1) aio_laws_def by blast+
  have "length es \<le> unat (nrequests (s\<lparr>world := w\<rparr>) ! t)" "t < length (nrequests (s\<lparr>world := w\<rparr>))"
    using assms(2) l(1) by (simp_all add: queue_ok_def)
  note we = wait_events_queue [OF es(3) this(2,1)]
  have "0 < length es" using es(2) by simp
  with we l assms(2) show ?thesis by (simp add: queue_ok_def)
qed

lemma submit_queue:
  assumes "aio_laws os inflight" "queue_ok inflight t s" "nrequests s ! t < backlog"
    "file_submit_or_wait os backlog oper t s = (None, s')"
  shows "queue_ok inflight t s' \<and> nrequests s' ! t < backlog"
proof -
  obtain r w where g: "os_io_submit os t oper (world s) = (r, w)" by (metis prod.exhaust)
  define s1 where "s1 = s\<lparr>world := w, nrequests := (nrequests s)[t := nrequests s ! t + 1]\<rparr>"
  have r: "1 \<le> r" using assms(4) g by (auto simp: file_submit_or_wait_def Let_def split: if_splits)
  have res: "(if nrequests s1 ! t < backlog then (None, s1) else file_wait os backlog t 1 s1) = (None, s')"
    using assms(4) g r by (auto simp: file_submit_or_wait_def s1_def Let_def split: if_splits)
  have t: "t < length (nrequests s)" using assms(2) by (simp add: queue_ok_def)
  have lt: "unat (nrequests s ! t) < unat backlog" using assms(3) by (simp add: word_less_nat_alt)
  have "unat (nrequests s ! t + 1) = unat (nrequests s ! t) + 1"
    using lt unat_less_two_power_u32 [of backlog] by (subst unat_add_lem [THEN iffD1]) simp_all
  moreover have "inflight w t = Suc (inflight (world s) t)"
    using assms(1) g r unfolding aio_laws_def by blast
  ultimately have q: "queue_ok inflight t s1" "unat (nrequests s1 ! t) = unat (nrequests s ! t) + 1"
    using assms(2) t by (simp_all add: queue_ok_def s1_def)
  show ?thesis
  proof (cases "nrequests s1 ! t < backlog")
    case True
    then show ?thesis using res q by auto
  next
    case False
    then have fw: "file_wait os backlog t 1 s1 = (None, s')" using res by simp
    have "0 < inflight (world s1) t" using q by (simp add: queue_ok_def)
    with file_wait_queue [OF assms(1) q(1) fw] q lt show ?thesis
      by (simp add: word_less_nat_alt)
  qed
qed

section \<open>Lemmas: creating files\<close>

lemma create_blocks_returns:
  assumes "0 < file_block_size c"
  shows "create_blocks os m c validate fd offset st \<noteq> None"
proof (induction "nat (file_size c - offset)" arbitrary: offset st rule: less_induct)
  case less
  obtain buf rng written w where st: "st = (buf, rng, written, w)" by (cases st)
  show ?case
  proof (cases "offset < file_size c")
    case True
    then have "nat (file_size c - (offset + file_block_size c)) < nat (file_size c - offset)"
      using assms by simp
    then have rec: "create_blocks os m c validate fd (offset + file_block_size c) st' \<noteq> None" for st'
      by (rule less)
    let ?fill = "if validate then file_fill_buffer (by_four m) (little_endian m) (buffer_addr m 0) buf
        (nat (file_block_size c)) (word_of_int offset) rng else Some (buf, rng)"
    show ?thesis
    proof (cases ?fill)
      case None
      then show ?thesis by (subst create_blocks.simps) (simp only: st True prod.case if_True option.case, simp)
    next
      case (Some br)
      obtain buf1 rng1 where br: "br = (buf1, rng1)" by (cases br)
      obtain r w1 where o: "os_write os fd (take (nat (file_block_size c)) buf1) w = (r, w1)" by (metis prod.exhaust)
      show ?thesis
        using rec [of "(buf1, rng1, written + file_block_size c, w1)"]
        by (subst create_blocks.simps) (simp only: st True prod.case if_True Some br option.case o, cases "r < 0", simp_all only: if_True if_False, simp_all)
    qed
  next
    case False
    then show ?thesis by (subst create_blocks.simps) (simp add: st)
  qed
qed

lemma create_blocks_written:
  assumes "0 < file_block_size c" "create_blocks os m c validate fd offset (buf, rng, written, w) = Some (None, buf', rng', written', w')"
  shows "written' - written = (if offset < file_size c
     then file_block_size c * ((file_size c - offset + file_block_size c - 1) div file_block_size c) else 0)"
  using assms(2)
proof (induction "nat (file_size c - offset)" arbitrary: offset buf rng written w rule: less_induct)
  case less
  let ?B = "file_block_size c" and ?F = "file_size c"
  show ?case
  proof (cases "offset < ?F")
    case True
    obtain buf1 rng1 w1 where rec: "create_blocks os m c validate fd (offset + ?B) (buf1, rng1, written + ?B, w1) =
        Some (None, buf', rng', written', w')"
      using less.prems True by (subst (asm) create_blocks.simps) (auto split: option.splits prod.splits if_splits)
    have m: "nat (?F - (offset + ?B)) < nat (?F - offset)" using True assms(1) by simp
    note IH = less.hyps [OF m rec]
    have "(?F - offset + ?B - 1) div ?B = 1 + (?F - (offset + ?B) + ?B - 1) div ?B"
      using div_add_self2 [of ?B "?F - offset - 1"] assms(1) by (simp add: algebra_simps)
    moreover have "(?F - (offset + ?B) + ?B - 1) div ?B = 0" if "\<not> offset + ?B < ?F"
      using that True by (intro div_pos_pos_trivial) simp_all
    ultimately show ?thesis
      using IH True by (auto simp: distrib_left split: if_splits)
  next
    case False
    then show ?thesis using less.prems by (subst (asm) create_blocks.simps) simp
  qed
qed

lemma create_each_returns:
  assumes "0 < file_block_size c"
  shows "create_each os m c validate flags is st \<noteq> None"
proof (induction "is" arbitrary: st)
  case (Cons i "is")
  obtain buf rng written w where st: "st = (buf, rng, written, w)" by (cases st)
  obtain fd w1 where o: "os_open os (file_name i) (O_CREAT # O_WRONLY # flags) w = (fd, w1)" by (metis prod.exhaust)
  obtain off w2 where l: "os_lseek_end os fd w1 = (off, w2)" by (metis prod.exhaust)
  obtain r where r: "create_blocks os m c validate fd off (buf, rng, written, w2) = Some r"
    using create_blocks_returns [OF assms] by blast
  show ?case
    using Cons by (auto simp: st o l r Let_def simp del: split_paired_All split_paired_Ex not_None_eq split: prod.splits option.splits)
qed (cases st, simp)

section \<open>Lemmas: files in memory\<close>

lemma ram_reads_back: "reads_back ram_os"
proof -
  have "ram_read fd (length bs) off (ram_write fd bs off w) = bs" for fd bs off w
    by (rule nth_equalityI) (simp_all add: ram_read_def ram_write_def)
  then show ?thesis by (simp add: reads_back_def ram_os_def)
qed

lemma fill_length:
  assumes "file_fill_buffer b4 little addr buf len offset rng = Some (buf', rng')"
  shows "length buf' = length buf"
  by (rule fill_shape [OF assms]) simp

lemma ram_aio: "aio_laws ram_os (\<lambda>w t. length (ram_queue w t))"
  by (simp add: aio_laws_def ram_os_def)

lemma default_parse_ok: "case default_parse of Inl _ \<Rightarrow> False | Inr _ \<Rightarrow> True"
  by code_simp

section \<open>Properties\<close>

text \<open>
  C32 (parsed_configuration): whatever \<open>parse_arguments\<close> accepts has at least one file, a positive
  total size and block size, the file size as their quotient, a frequency of synchronisation that
  is not negative, and with \<open>--file-fsync-all\<close> no other synchronisation; there is a buffer of the size of one request for
  every thread, and a command other than \<open>run\<close> does not change the test mode.
\<close>

theorem parsed_configuration:
  assumes "parse_arguments fp strtod plat alloc junk cmdname threads opts c0 = Inr (c, pt)"
  shows "conf_parsed c \<and> length pt = threads \<and> (\<forall>b \<in> set pt. length (buffer b) = nat (file_request_size c)) \<and>
    (cmdname \<noteq> ''run'' \<longrightarrow> test_mode c = test_mode c0)"
  using assms by (rule parse_arguments_ok)

theorem parsed_configuration_witness:
  "\<exists>c pt. default_parse = Inr (c, pt) \<and> conf_parsed c \<and> length pt = 1"
proof -
  obtain c pt where d: "default_parse = Inr (c, pt)"
    using default_parse_ok by (auto split: sum.splits)
  with parsed_configuration [OF d [unfolded default_parse_def]] show ?thesis by blast
qed

text \<open>
  C30 (requests_counted): a synchronous or memory-mapped request that succeeds adds exactly its operation and its
  bytes to the counters of the thread; a request that fails, at whatever point, adds nothing.
\<close>

theorem requests_counted:
  assumes "file_io_mode c \<noteq> FILE_IO_MODE_ASYNC"
    and "file_execute_event os plat m backlog c validate req t rng s = (err, rng', s')"
  shows "counters s' = (if err = None then request_counts c req t (counters s) else counters s)"
proof (cases "operation req")
  case FILE_OP_TYPE_WRITE
  then have "exec_write os plat m backlog c validate req t rng s = (err, rng', s') \<or> err \<noteq> None \<and> s' = s"
    using assms(2) by (auto simp: file_execute_event_def split: if_splits)
  then show ?thesis
    using exec_write_counters [OF assms(1) FILE_OP_TYPE_WRITE, of os plat m backlog validate t rng s err rng' s'] by auto
next
  case FILE_OP_TYPE_READ
  then have "exec_read os m backlog c validate req t s = (err, s') \<or> err \<noteq> None \<and> s' = s"
    using assms(2) by (auto simp: file_execute_event_def split: if_splits prod.splits)
  then show ?thesis
    using exec_read_counters [OF assms(1) FILE_OP_TYPE_READ, of os m backlog validate t s err s'] by auto
next
  case FILE_OP_TYPE_FSYNC
  then have "file_fsync os plat c (unat (file_id req)) t s = (err, s') \<and> \<not> file_fsync_all c \<or>
      err = None \<and> s' = s \<and> file_fsync_all c \<or> err \<noteq> None \<and> s' = s"
    using assms(2) by (auto simp: file_execute_event_def split: if_splits prod.splits)
  with fsync_counters [of os plat c "unat (file_id req)" t s err s'] FILE_OP_TYPE_FSYNC show ?thesis
    by (auto simp: request_counts_def)
next
  case FILE_OP_TYPE_NULL
  then show ?thesis
    using assms by (auto simp: file_execute_event_def split: if_splits)
qed

theorem requests_counted_witness:
  "counters (snd (snd (file_execute_event ram_os linux x86 0 (demo_conf 2 64 16 MODE_RND_WRITE) False
      (block_request FILE_OP_TYPE_WRITE) 1 (1, 2) ram_state))) =
    request_counts (demo_conf 2 64 16 MODE_RND_WRITE) (block_request FILE_OP_TYPE_WRITE) 1 (counters ram_state)"
proof -
  let ?c = "demo_conf 2 64 16 MODE_RND_WRITE"
  obtain err rng s where e: "file_execute_event ram_os linux x86 0 ?c False (block_request FILE_OP_TYPE_WRITE) 1 (1, 2) ram_state = (err, rng, s)"
    by (metis prod_cases3)
  then have "err = None"
    by (auto simp: file_execute_event_def exec_write_def file_pwrite_def block_request_def ram_state_def ram_os_def
      set_buffer_def Let_def eval_nat_numeral)
  with requests_counted [OF _ e] e show ?thesis by simp
qed



text \<open>
  C31 (aio_queue_bounded): as long as the kernel reports each request once, the number of requests a thread has
  in flight is what the thread counts and stays below \<open>--file-async-backlog\<close> after every submission that succeeds.
\<close>

theorem aio_queue_bounded:
  assumes "aio_laws os inflight" "queue_ok inflight t s" "nrequests s ! t < backlog"
    and "file_submit_or_wait os backlog oper t s = (None, s')"
  shows "queue_ok inflight t s' \<and> nrequests s' ! t < backlog"
  using assms by (rule submit_queue)

theorem aio_queue_bounded_witness:
  "\<exists>s. file_submit_or_wait ram_os 1 \<lparr>oper_type = FILE_OP_TYPE_READ, oper_len = 16, oper_fd = 3, oper_pos = 0, oper_data = []\<rparr> 0 ram_state = (None, s) \<and>
     nrequests s ! 0 < 1"
proof -
  let ?o = "\<lparr>oper_type = FILE_OP_TYPE_READ, oper_len = 16, oper_fd = 3, oper_pos = 0, oper_data = []\<rparr>"
  obtain err s where e: "file_submit_or_wait ram_os 1 ?o 0 ram_state = (err, s)" by (metis prod.exhaust)
  then have "err = None"
    by (auto simp: file_submit_or_wait_def file_wait_def ram_os_def ram_state_def ram0_def Let_def)
  with aio_queue_bounded [OF ram_aio, of 0 ram_state 1 ?o s] e show ?thesis
    by (simp add: queue_ok_def ram_state_def ram0_def)
qed

text \<open>
  Creating the files ends for every positive block size, and the bytes
  it writes to a file are the least number of whole blocks that reach the file size.
\<close>

theorem create_files_returns:
  assumes "0 < file_block_size c"
  shows "create_files os m c validate buf rng w \<noteq> None \<and>
    (\<forall>fd offset buf rng written w buf' rng' written' w'.
       create_blocks os m c validate fd offset (buf, rng, written, w) = Some (None, buf', rng', written', w') \<longrightarrow>
       written' - written = (if offset < file_size c
         then file_block_size c * ((file_size c - offset + file_block_size c - 1) div file_block_size c) else 0))"
proof (intro conjI allI impI)
  show "create_files os m c validate buf rng w \<noteq> None"
    using create_each_returns [OF assms]
    by (cases "convert_extra_flags (file_extra_flags c)") (simp_all add: create_files_def del: not_None_eq)
qed (rule create_blocks_written [OF assms])

theorem create_files_returns_witness:
  "create_files ram_os x86 (demo_conf 2 100 16 MODE_READ) False (replicate 16 0) (1, 2) ram0 \<noteq> None"
  using create_files_returns [of "demo_conf 2 100 16 MODE_READ" ram_os x86 False "replicate 16 0" "(1, 2)" ram0] by simp

text \<open>
  The \<open>prepare\<close> command always creates the files: the test mode is only read
  for \<open>run\<close>, so the branch for the sequential write test is never taken.
\<close>

theorem prepare_always_creates:
  assumes "test_mode c0 = MODE_READ" "cmdname \<noteq> ''run''"
    and "file_cmd_prepare fp strtod plat alloc junk cmdname threads opts c0 os m validate rng w = Inr r"
  shows "\<exists>x. r = Created x"
  using assms parse_arguments_ok by (fastforce simp: file_cmd_prepare_def check_Inr split: if_splits)

theorem prepare_always_creates_witness:
  "\<exists>x. file_cmd_prepare (rounded_ops (\<lambda>x. x) (\<lambda>x. x) (\<lambda>x y. x)) (\<lambda>_. 3 / 2) linux (\<lambda>_. True) (\<lambda>_. (0, 0)) ''prepare'' 1
     (fst (set_option Map.empty ''file-block-size'' (Some ''64'') SB_ARG_TYPE_INT
        (fst (sb_register_arg_set Map.empty (fileio_args True) [])))) (demo_conf 0 0 0 MODE_READ) ram_os x86 False (1, 2) ram0 = Inr (Created x)"
proof -
  obtain c pt where d: "default_parse = Inr (c, pt)"
    using default_parse_ok by (auto split: sum.splits)
  obtain r where "file_cmd_prepare (rounded_ops (\<lambda>x. x) (\<lambda>x. x) (\<lambda>x y. x)) (\<lambda>_. 3 / 2) linux (\<lambda>_. True) (\<lambda>_. (0, 0)) ''prepare'' 1
     (fst (set_option Map.empty ''file-block-size'' (Some ''64'') SB_ARG_TYPE_INT
        (fst (sb_register_arg_set Map.empty (fileio_args True) [])))) (demo_conf 0 0 0 MODE_READ) ram_os x86 False (1, 2) ram0 = Inr r"
    using d by (cases "test_mode c = MODE_WRITE") (auto simp: file_cmd_prepare_def check_def default_parse_def)
  with prepare_always_creates [OF _ _ this] show ?thesis by auto
qed

section \<open>Deviations\<close>

text \<open>The test of the file number lets the number of files itself pass, which is outside of the array.\<close>

lemma file_id_check_off_by_one:
  "fst (file_execute_event ram_os linux x86 0 (demo_conf 2 64 16 MODE_RND_READ) False
     \<lparr>file_id = 2, req_pos = 0, req_size = 16, operation = FILE_OP_TYPE_READ\<rparr> 0 (1, 2) ram_state) = Some Out_of_bounds"
  by (simp add: file_execute_event_def ram_state_def)

text \<open>Two of the flags together are taken for an unknown value.\<close>

lemma combined_flags_rejected: "convert_extra_flags (SB_FILE_FLAG_SYNC OR SB_FILE_FLAG_DIRECTIO) = None"
  by (simp add: convert_extra_flags_def file_flag_defs)

text \<open>The size of merged requests is an \<open>int\<close> product.\<close>

lemma merged_request_size_overflows: "int_mult 1073741824 4 = 0"
  by (simp add: int_mult_def)

end
