(* ===== verification/SB_Tests.thy ===== *)
theory SB_Tests
  imports SB_Rand
begin

text \<open>
  The CPU, threads and mutex tests: \<open>src/src/tests/cpu/sb_cpu.c\<close>,
  \<open>src/src/tests/threads/sb_threads.c\<close> and \<open>src/src/tests/mutex/sb_mutex.c\<close>.

  Executing an event of the threads or the mutex test yields the sequence of actions the thread
  performs; several threads run by interleaving their actions over an array of mutexes.  An
  increment of the shared variable is two actions, a load and a store.  Messages to the log are
  left out.
\<close>

section \<open>The CPU test\<close>

datatype test_error =
    Test_exit exit_failure
  | Invalid_max_prime int
  | Allocation_failed

definition get_test_int :: "options \<Rightarrow> string \<Rightarrow> test_error + int" where
  "get_test_int opts n = (case sb_get_value_int opts n of Inl e \<Rightarrow> Inl (Test_exit e) | Inr i \<Rightarrow> Inr i)"

definition cpu_args :: "sb_arg_t list" where
  "cpu_args = [sb_opt ''cpu-max-prime'' ''upper limit for primes generator'' (Some ''10000'') SB_ARG_TYPE_INT]"

text \<open>The result is the new value of \<open>max_prime\<close>.\<close>

definition cpu_init :: "options \<Rightarrow> test_error + u32" where
  "cpu_init opts =
     check (get_test_int opts ''cpu-max-prime'') (\<lambda>prime_option.
       if prime_option \<le> 0 then Inl (Invalid_max_prime prime_option) else Inr (word_of_int prime_option))"

text \<open>An event of one of these tests: its type with the member of the union that the type uses.\<close>

datatype sb_event_t = Null_event | Cpu_event | Threads_event u32 | Mutex_event u32 u32

definition cpu_next_event :: "nat \<Rightarrow> sb_event_t" where
  "cpu_next_event thread_id = Cpu_event"

text \<open>
  The inner and the outer loop.  The candidates are below the 32-bit limit and the divisors below
  \<open>2 ^ 17\<close>, so that the 64-bit counters do not wrap and their conversions to \<open>double\<close> are exact.
\<close>

function cpu_divisors :: "nat \<Rightarrow> rat \<Rightarrow> nat \<Rightarrow> nat" where
  "cpu_divisors c t l =
     (if of_nat l \<le> t then (if c mod l = 0 then l else cpu_divisors c t (l + 1)) else l)"
  by pat_completeness auto

termination cpu_divisors
proof (relation "measure (\<lambda>(c, t, l). nat (\<lfloor>t\<rfloor> + 1) - l)")
  fix t :: rat and c l :: nat
  assume "of_nat l \<le> t"
  then have "int l \<le> \<lfloor>t\<rfloor>" by (simp add: le_floor_iff)
  then show "((c, t, l + 1), (c, t, l)) \<in> measure (\<lambda>(c, t, l). nat (\<lfloor>t\<rfloor> + 1) - l)"
    by (simp add: nat_add_distrib)
qed simp

declare cpu_divisors.simps [simp del]

function cpu_candidates :: "nat \<Rightarrow> nat \<Rightarrow> nat \<Rightarrow> nat" where
  "cpu_candidates max_prime c n =
     (if c < max_prime
      then let t = sqrt_double (of_nat c); l = cpu_divisors c t 2
           in cpu_candidates max_prime (c + 1) (if of_nat l > t then n + 1 else n)
      else n)"
  by pat_completeness auto

termination cpu_candidates
  by (relation "measure (\<lambda>(m, c, n). m - c)") auto

declare cpu_candidates.simps [simp del]

text \<open>The return code and the final value of the counter \<open>n\<close>.\<close>

definition cpu_execute_event :: "u32 \<Rightarrow> int \<times> nat" where
  "cpu_execute_event max_prime = (0, cpu_candidates (unat max_prime) 3 0)"

section \<open>Threads over an array of mutexes\<close>

datatype lock_act =
    Mutex_lock u32
  | Mutex_unlock u32
  | Yield
  | Load_var
  | Store_var

text \<open>What every thread still has to do, the owner of every mutex, and the shared variable with
  the register every thread loads it into.\<close>

record lock_world =
  progs :: "lock_act list list"
  owners :: "nat option list"
  registers :: "u32 list"
  global_var :: u32

text \<open>
  A thread waits for a mutex that is taken; outside the array, and for the release of a mutex
  that the thread does not own, the behaviour is undefined.  All of these are \<open>None\<close>.
\<close>

fun do_act :: "nat \<Rightarrow> lock_act \<Rightarrow> lock_world \<Rightarrow> lock_world option" where
  "do_act t (Mutex_lock m) w =
     (if unat m < length (owners w) \<and> owners w ! unat m = None
      then Some (w\<lparr>owners := (owners w)[unat m := Some t]\<rparr>) else None)"
| "do_act t (Mutex_unlock m) w =
     (if unat m < length (owners w) \<and> owners w ! unat m = Some t
      then Some (w\<lparr>owners := (owners w)[unat m := None]\<rparr>) else None)"
| "do_act t Yield w = Some w"
| "do_act t Load_var w = Some (w\<lparr>registers := (registers w)[t := global_var w]\<rparr>)"
| "do_act t Store_var w = Some (w\<lparr>global_var := registers w ! t + 1\<rparr>)"

definition lock_step :: "nat \<Rightarrow> lock_world \<Rightarrow> lock_world option" where
  "lock_step t w =
     (if t < length (progs w) then
        (case progs w ! t of
           [] \<Rightarrow> None
         | a # p \<Rightarrow> do_act t a (w\<lparr>progs := (progs w)[t := p]\<rparr>))
      else None)"

definition lock_start :: "nat option list \<Rightarrow> u32 \<Rightarrow> lock_act list list \<Rightarrow> lock_world" where
  "lock_start mutexes g ps =
     \<lparr>progs = ps, owners = mutexes, registers = replicate (length ps) 0, global_var = g\<rparr>"

section \<open>The threads test\<close>

definition threads_args :: "sb_arg_t list" where
  "threads_args =
    [sb_opt ''thread-yields'' ''number of yields to do per request'' (Some ''1000'') SB_ARG_TYPE_INT,
     sb_opt ''thread-locks'' ''number of locks per thread'' (Some ''8'') SB_ARG_TYPE_INT]"

record threads_vars =
  thread_yields :: u32
  thread_locks :: u32
  test_mutexes :: "nat option list"
  requests_done :: u32

definition threads_init :: "options \<Rightarrow> threads_vars \<Rightarrow> test_error + threads_vars" where
  "threads_init opts v =
     check (get_test_int opts ''thread-yields'') (\<lambda>y.
     check (get_test_int opts ''thread-locks'') (\<lambda>l.
       Inr (v\<lparr>thread_yields := word_of_int y, thread_locks := word_of_int l, requests_done := 0\<rparr>)))"

text \<open>\<open>alloc\<close> tells whether an array of so many mutexes can be allocated.\<close>

definition threads_prepare :: "(u32 \<Rightarrow> bool) \<Rightarrow> threads_vars \<Rightarrow> test_error + threads_vars" where
  "threads_prepare alloc v =
     (if \<not> alloc (thread_locks v) then Inl Allocation_failed
      else Inr (v\<lparr>test_mutexes := replicate (unat (thread_locks v)) None\<rparr>))"

definition threads_cleanup :: "threads_vars \<Rightarrow> threads_vars" where
  "threads_cleanup v = v\<lparr>test_mutexes := []\<rparr>"

text \<open>The remainder by zero locks is a division by zero (\<open>None\<close>).\<close>

definition threads_next_event :: "threads_vars \<Rightarrow> (sb_event_t \<times> threads_vars) option" where
  "threads_next_event v =
     (if thread_locks v = 0 then None
      else Some (Threads_event (requests_done v mod thread_locks v),
                 v\<lparr>requests_done := requests_done v + 1\<rparr>))"

definition threads_execute_event :: "u32 \<Rightarrow> u32 \<Rightarrow> lock_act list" where
  "threads_execute_event yields lock_num =
     concat (replicate (unat yields) [Mutex_lock lock_num, Yield, Mutex_unlock lock_num])"

section \<open>The mutex test\<close>

definition mutex_args :: "sb_arg_t list" where
  "mutex_args =
    [sb_opt ''mutex-num'' ''total size of mutex array'' (Some ''4096'') SB_ARG_TYPE_INT,
     sb_opt ''mutex-locks'' ''number of mutex locks to do per thread'' (Some ''50000'') SB_ARG_TYPE_INT,
     sb_opt ''mutex-loops'' ''number of empty loops to do outside mutex lock'' (Some ''10000'') SB_ARG_TYPE_INT]"

record mutex_vars =
  mutex_num :: u32
  mutex_loops :: u32
  mutex_locks :: u32
  mutexes :: "nat option list"

definition mutex_init :: "(u32 \<Rightarrow> bool) \<Rightarrow> options \<Rightarrow> test_error + mutex_vars" where
  "mutex_init alloc opts =
     check (get_test_int opts ''mutex-num'') (\<lambda>num.
     check (get_test_int opts ''mutex-loops'') (\<lambda>loops.
     check (get_test_int opts ''mutex-locks'') (\<lambda>locks.
       if \<not> alloc (word_of_int num) then Inl Allocation_failed
       else Inr \<lparr>mutex_num = word_of_int num, mutex_loops = word_of_int loops, mutex_locks = word_of_int locks,
                 mutexes = replicate (unat (word_of_int num :: u32)) None\<rparr>)))"

definition mutex_done :: "mutex_vars \<Rightarrow> mutex_vars" where
  "mutex_done v = v\<lparr>mutexes := []\<rparr>"

text \<open>The counter is the calling thread's own \<open>tls_counter\<close>.\<close>

definition mutex_next_event :: "mutex_vars \<Rightarrow> int \<Rightarrow> sb_event_t \<times> int" where
  "mutex_next_event v tls_counter =
     (if tls_counter > 0 then Null_event
      else Mutex_event (mutex_locks v) (mutex_loops v), tls_counter + 1)"

text \<open>The empty loops outside of the mutex have no effect.\<close>

function mutex_execute_event ::
  "'d fp_ops \<Rightarrow> u32 \<Rightarrow> u32 \<Rightarrow> sb_rng_state_t \<Rightarrow> lock_act list \<times> sb_rng_state_t"
where
  "mutex_execute_event fp num nlocks s =
     (let (current_lock, s) = sb_rand_uniform fp 0 (num - 1) s;
          acts = [Mutex_lock current_lock, Load_var, Store_var, Mutex_unlock current_lock]
      in if nlocks - 1 > 0
         then let (rest, s) = mutex_execute_event fp num (nlocks - 1) s in (acts @ rest, s)
         else (acts, s))"
  by pat_completeness auto

termination mutex_execute_event
proof (relation "measure (\<lambda>(fp, num, nlocks, s). unat (nlocks - 1))")
  fix nlocks :: u32
  assume "nlocks - 1 > 0"
  then have "unat (nlocks - 1 - 1) < unat (nlocks - 1)"
    by (metis word_less_nat_alt word_gt_0 measure_unat)
  then show "((fp, num, nlocks - 1, s), (fp, num, nlocks, s')) \<in> measure (\<lambda>(fp, num, nlocks, s). unat (nlocks - 1))"
    for fp num s s' by simp
qed simp

declare mutex_execute_event.simps [simp del]

section \<open>Specifications\<close>

text \<open>
  Every mutex is released before another one is taken: the mutex that is held, and what the thread
  still has to do.
\<close>

fun bracketed :: "nat \<Rightarrow> u32 option \<Rightarrow> lock_act list \<Rightarrow> bool" where
  "bracketed n h [] \<longleftrightarrow> h = None"
| "bracketed n h (Mutex_lock m # p) \<longleftrightarrow> h = None \<and> unat m < n \<and> bracketed n (Some m) p"
| "bracketed n h (Mutex_unlock m # p) \<longleftrightarrow> h = Some m \<and> unat m < n \<and> bracketed n None p"
| "bracketed n h (a # p) \<longleftrightarrow> bracketed n h p"

definition finished :: "lock_world \<Rightarrow> bool" where
  "finished w \<longleftrightarrow> (\<forall>p \<in> set (progs w). p = [])"

definition work_left :: "lock_world \<Rightarrow> nat" where
  "work_left w = sum_list (map length (progs w))"

definition holders_ok :: "u32 option list \<Rightarrow> lock_world \<Rightarrow> bool" where
  "holders_ok hs w \<longleftrightarrow> length hs = length (progs w) \<and>
     (\<forall>t < length hs. bracketed (length (owners w)) (hs ! t) (progs w ! t)) \<and>
     (\<forall>i < length (owners w). \<forall>t. owners w ! i = Some t \<longleftrightarrow> t < length hs \<and> map_option unat (hs ! t) = Some i)"

text \<open>The critical section of the mutex test.\<close>

definition increment_section :: "u32 \<Rightarrow> lock_act list" where
  "increment_section m = [Mutex_lock m, Load_var, Store_var, Mutex_unlock m]"

text \<open>
  The variable is only accessed by the owner of the mutex, and a store follows its load at once.
\<close>

fun guarded :: "bool \<Rightarrow> lock_act list \<Rightarrow> bool" where
  "guarded h [] \<longleftrightarrow> True"
| "guarded h (Mutex_lock m # p) \<longleftrightarrow> guarded True p"
| "guarded h (Mutex_unlock m # p) \<longleftrightarrow> guarded False p"
| "guarded h (Yield # p) \<longleftrightarrow> guarded h p"
| "guarded h (Load_var # Store_var # p) \<longleftrightarrow> h \<and> guarded h p"
| "guarded h (Load_var # _) \<longleftrightarrow> False"
| "guarded h (Store_var # p) \<longleftrightarrow> False"

definition thread_ok :: "lock_world \<Rightarrow> nat \<Rightarrow> bool" where
  "thread_ok w t \<longleftrightarrow>
     (case progs w ! t of
        Store_var # p \<Rightarrow> owners w ! 0 = Some t \<and> registers w ! t = global_var w \<and> guarded True p
      | p \<Rightarrow> guarded (owners w ! 0 = Some t) p)"

definition stores_left :: "lock_world \<Rightarrow> nat" where
  "stores_left w = sum_list (map (\<lambda>p. count_list p Store_var) (progs w))"

definition serial :: "lock_world \<Rightarrow> bool" where
  "serial w \<longleftrightarrow> length (owners w) = 1 \<and> length (registers w) = length (progs w) \<and>
     (\<forall>t < length (progs w). thread_ok w t)"

definition mutex_programs :: "'d fp_ops \<Rightarrow> mutex_vars \<Rightarrow> sb_rng_state_t list \<Rightarrow> lock_act list list" where
  "mutex_programs fp v seeds = map (\<lambda>s. fst (mutex_execute_event fp (mutex_num v) (mutex_locks v) s)) seeds"

definition threads_programs :: "threads_vars \<Rightarrow> u32 list list \<Rightarrow> lock_act list list" where
  "threads_programs v lockss = map (\<lambda>ls. concat (map (threads_execute_event (thread_yields v)) ls)) lockss"

lemma cpu_divisors_exhausted:
  "t < of_nat (cpu_divisors c t l) \<longleftrightarrow> (\<forall>d. l \<le> d \<and> of_nat d \<le> t \<longrightarrow> c mod d \<noteq> 0)"
proof (induction c t l rule: cpu_divisors.induct)
  case (1 c t l)
  show ?case
  proof (cases "of_nat l \<le> t \<and> c mod l \<noteq> 0")
    case True
    then have "cpu_divisors c t l = cpu_divisors c t (l + 1)"
      by (simp add: cpu_divisors.simps [of c t l])
    with 1 True show ?thesis
      by (metis Suc_eq_plus1 Suc_leD le_antisym not_less_eq_eq)
  next
    case False
    then have "cpu_divisors c t l = l"
      by (auto simp: cpu_divisors.simps [of c t l])
    moreover have "of_nat l \<le> (of_nat d :: rat)" if "l \<le> d" for d using that by simp
    ultimately show ?thesis
      using False by (metis linorder_not_less order_refl order_trans)
  qed
qed

lemma cpu_prime_test:
  assumes "3 \<le> c" "c < 2 ^ 32"
  shows "sqrt_double (of_nat c) < of_nat (cpu_divisors c (sqrt_double (of_nat c)) 2) \<longleftrightarrow> is_prime c"
proof -
  have le: "of_nat d \<le> sqrt_double (of_nat c) \<longleftrightarrow> d * d \<le> c" for d
  proof (cases "d < 2 ^ 30")
    case True
    then show ?thesis using sqrt_double_le_iff [of c d] assms by simp
  next
    case False
    then have "(2 ^ 17 :: nat) \<le> d" by simp
    then have "(of_nat (2 ^ 17) :: rat) \<le> of_nat d" by (simp only: of_nat_le_iff)
    moreover have "\<not> of_nat (2 ^ 17) \<le> sqrt_double (of_nat c)"
      using sqrt_double_le_iff [of c "2 ^ 17"] assms by simp
    moreover have "(2 ^ 17 :: nat) * 2 ^ 17 \<le> d * d"
      using \<open>2 ^ 17 \<le> d\<close> by (intro mult_le_mono)
    ultimately show ?thesis using assms(2) by (auto simp: not_le)
  qed
  have "(\<forall>d. 2 \<le> d \<and> d * d \<le> c \<longrightarrow> c mod d \<noteq> 0) \<longleftrightarrow> is_prime c"
  proof
    assume *: "\<forall>d. 2 \<le> d \<and> d * d \<le> c \<longrightarrow> c mod d \<noteq> 0"
    show "is_prime c"
    proof (rule prime_by_small_divisors)
      show "1 < c" using assms(1) by simp
      fix r assume "is_prime r" "r dvd c"
      then show "c < r * r"
        using * by (auto simp: is_prime_def mod_eq_0_iff_dvd not_le [symmetric])
    qed
  next
    assume p: "is_prime c"
    show "\<forall>d. 2 \<le> d \<and> d * d \<le> c \<longrightarrow> c mod d \<noteq> 0"
    proof (intro allI impI notI)
      fix d assume d: "2 \<le> d \<and> d * d \<le> c" and "c mod d = 0"
      then have "d = c" using p by (auto simp: is_prime_def mod_eq_0_iff_dvd)
      with d assms(1) show False by simp
    qed
  qed
  then show ?thesis
    by (simp add: cpu_divisors_exhausted le)
qed

lemma cpu_candidates_count:
  assumes "3 \<le> c" "m \<le> 2 ^ 32"
  shows "cpu_candidates m c n = n + card {p. is_prime p \<and> c \<le> p \<and> p < m}"
  using assms
proof (induction m c n rule: cpu_candidates.induct)
  case (1 m c n)
  show ?case
  proof (cases "c < m")
    case True
    define n' where "n' = (if is_prime c then n + 1 else n)"
    have "cpu_candidates m c n = cpu_candidates m (c + 1) n'"
      using True cpu_prime_test [of c] 1 by (subst cpu_candidates.simps) (simp add: Let_def n'_def)
    also have "\<dots> = n' + card {p. is_prime p \<and> c + 1 \<le> p \<and> p < m}"
      using 1 True cpu_prime_test [of c] by (simp add: Let_def n'_def split: if_splits)
    also have "\<dots> = n + card {p. is_prime p \<and> c \<le> p \<and> p < m}"
    proof -
      have "{p. is_prime p \<and> c \<le> p \<and> p < m} =
          (if is_prime c then insert c else id) {p. is_prime p \<and> c + 1 \<le> p \<and> p < m}"
        using True by (auto simp: le_less Suc_le_eq)
      then show ?thesis by (simp add: n'_def)
    qed
    finally show ?thesis .
  next
    case False
    then have "{p. is_prime p \<and> c \<le> p \<and> p < m} = {}" by auto
    with False show ?thesis by (simp add: cpu_candidates.simps)
  qed
qed

text \<open>
  C38 (cpu_counts_primes): an event of the CPU test succeeds and counts exactly the odd prime
  numbers below the limit, although it compares its divisors with a rounded square root.
\<close>

theorem cpu_counts_primes:
  "cpu_execute_event max_prime = (0, card {p. is_prime p \<and> 2 < p \<and> p < unat max_prime})"
proof -
  have "{p. is_prime p \<and> 2 < p \<and> p < unat max_prime} = {p. is_prime p \<and> 3 \<le> p \<and> p < unat max_prime}"
    by auto
  then show ?thesis
    using cpu_candidates_count [of 3 "unat max_prime" 0] unat_less_two_power_u32 [of max_prime]
    by (simp add: cpu_execute_event_def)
qed

section \<open>Interleaved threads\<close>

lemma lock_step_cases:
  assumes "lock_step t w = Some w'"
  obtains a p where "t < length (progs w)" "progs w ! t = a # p" "do_act t a (w\<lparr>progs := (progs w)[t := p]\<rparr>) = Some w'"
  using assms by (auto simp: lock_step_def split: if_splits list.splits)

lemma do_act_frame:
  assumes "do_act t a w = Some w'"
  shows "progs w' = progs w" and "length (owners w') = length (owners w)"
    and "length (registers w') = length (registers w)"
  using assms by (cases a; auto split: if_splits)+

lemma holders_ok_bracketed:
  "holders_ok hs w \<Longrightarrow> t < length (progs w) \<Longrightarrow> bracketed (length (owners w)) (hs ! t) (progs w ! t)"
  by (simp add: holders_ok_def)

lemma holders_ok_owner:
  "holders_ok hs w \<Longrightarrow> i < length (owners w) \<Longrightarrow>
    owners w ! i = Some t \<longleftrightarrow> t < length (progs w) \<and> map_option unat (hs ! t) = Some i"
  by (simp add: holders_ok_def)

lemma holders_ok_update:
  assumes "holders_ok hs w" "t < length (progs w)"
    and "bracketed (length (owners w)) h p" "length os = length (owners w)"
    and "\<And>i u. i < length os \<Longrightarrow> os ! i = Some u \<longleftrightarrow>
      (if u = t then map_option unat h = Some i else owners w ! i = Some u)"
    and "progs w' = (progs w)[t := p]" "owners w' = os"
  shows "holders_ok (hs[t := h]) w'"
  using assms unfolding holders_ok_def by (auto simp: nth_list_update)

lemma holders_ok_step:
  assumes "holders_ok hs w" "lock_step t w = Some w'"
  shows "\<exists>h. holders_ok (hs[t := h]) w'"
proof -
  from assms(2) obtain a p where t: "t < length (progs w)" and p: "progs w ! t = a # p"
    and act: "do_act t a (w\<lparr>progs := (progs w)[t := p]\<rparr>) = Some w'"
    by (rule lock_step_cases)
  let ?n = "length (owners w)"
  have b: "bracketed ?n (hs ! t) (a # p)"
    using holders_ok_bracketed [OF assms(1) t] p by simp
  have own: "owners w ! i = Some u \<longleftrightarrow> u < length (progs w) \<and> map_option unat (hs ! u) = Some i"
    if "i < ?n" for i u using holders_ok_owner [OF assms(1) that] .
  have pw: "progs w' = (progs w)[t := p]" using do_act_frame(1) [OF act] by simp
  have len: "length (owners w') = ?n" using do_act_frame(2) [OF act] by simp
  show ?thesis
  proof (cases a)
    case (Mutex_lock m)
    have free: "owners w ! unat m = None" "unat m < ?n" and "owners w' = (owners w)[unat m := Some t]"
      using act Mutex_lock by (auto split: if_splits)
    moreover have "hs ! t = None" using b Mutex_lock by simp
    moreover note free
    moreover have "map_option unat (hs ! u) \<noteq> Some (unat m)" if "u < length (progs w)" for u
      using own [of "unat m" u] free that by auto
    ultimately have "holders_ok (hs[t := Some m]) w'"
      using b Mutex_lock own t
      by (intro holders_ok_update [OF assms(1) t _ len _ pw refl]) (auto simp: nth_list_update)
    then show ?thesis ..
  next
    case (Mutex_unlock m)
    have taken: "owners w ! unat m = Some t" "unat m < ?n" and "owners w' = (owners w)[unat m := None]"
      using act Mutex_unlock by (auto split: if_splits)
    moreover have "map_option unat (hs ! u) \<noteq> Some (unat m)" if "u < length (progs w)" "u \<noteq> t" for u
      using own [of "unat m" u] taken that by auto
    moreover have "hs ! t = Some m" using b Mutex_unlock by simp
    ultimately have "holders_ok (hs[t := None]) w'"
      using b Mutex_unlock own t
      by (intro holders_ok_update [OF assms(1) t _ len _ pw refl]) (auto simp: nth_list_update)
    then show ?thesis ..
  next
    case Yield
    then have "holders_ok (hs[t := hs ! t]) w'"
      using b own t act by (intro holders_ok_update [OF assms(1) t _ len _ pw refl]) auto
    then show ?thesis ..
  next
    case Load_var
    then have "holders_ok (hs[t := hs ! t]) w'"
      using b own t act by (intro holders_ok_update [OF assms(1) t _ len _ pw refl]) auto
    then show ?thesis ..
  next
    case Store_var
    then have "holders_ok (hs[t := hs ! t]) w'"
      using b own t act by (intro holders_ok_update [OF assms(1) t _ len _ pw refl]) auto
    then show ?thesis ..
  qed
qed

lemma work_left_step:
  assumes "lock_step t w = Some w'"
  shows "work_left w = Suc (work_left w')"
proof -
  from assms obtain a p where t: "t < length (progs w)" and p: "progs w ! t = a # p"
    and act: "do_act t a (w\<lparr>progs := (progs w)[t := p]\<rparr>) = Some w'"
    by (rule lock_step_cases)
  have "progs w' = (progs w)[t := p]" using do_act_frame(1) [OF act] by simp
  moreover have "Suc (length p) \<le> sum_list (map length (progs w))"
    using elem_le_sum_list [of t "map length (progs w)"] t p by simp
  ultimately show ?thesis
    using t p by (simp add: work_left_def map_update sum_list_update [where xs = "map length (progs w)"])
qed

lemma lock_progress:
  assumes "holders_ok hs w" "\<not> finished w"
  shows "\<exists>t. lock_step t w \<noteq> None"
proof (cases "\<exists>t < length (progs w). hs ! t \<noteq> None")
  case True
  then obtain t m where t: "t < length (progs w)" "hs ! t = Some m" by auto
  note b = holders_ok_bracketed [OF assms(1) t(1)]
  with t(2) obtain a p where p: "progs w ! t = a # p" by (cases "progs w ! t") auto
  have "unat n < length (owners w) \<and> owners w ! unat n = Some t" if "a = Mutex_unlock n" for n
  proof -
    have "n = m" "unat m < length (owners w)" using b t(2) p that by simp_all
    then show ?thesis using holders_ok_owner [OF assms(1)] t by simp
  qed
  then have "lock_step t w \<noteq> None"
    using b t p by (cases a) (auto simp: lock_step_def)
  then show ?thesis ..
next
  case False
  obtain t where t: "t < length (progs w)" "progs w ! t \<noteq> []"
    using assms(2) by (auto simp: finished_def in_set_conv_nth)
  then obtain a p where p: "progs w ! t = a # p" by (cases "progs w ! t") auto
  note b = holders_ok_bracketed [OF assms(1) t(1)]
  have h: "hs ! t = None" using False t(1) by blast
  have "owners w ! i = None" if "i < length (owners w)" for i
  proof (cases "owners w ! i")
    case (Some u)
    then show ?thesis using holders_ok_owner [OF assms(1) that, of u] False by auto
  qed
  then have "lock_step t w \<noteq> None"
    using b t p h by (cases a) (auto simp: lock_step_def)
  then show ?thesis ..
qed

lemma lock_run:
  assumes "fold_opt lock_step ts w = Some w'" "holders_ok hs w"
  shows "(\<exists>hs. holders_ok hs w') \<and> work_left w = length ts + work_left w'"
  using assms
proof (induction ts arbitrary: w hs)
  case Nil
  then show ?case by auto
next
  case (Cons t ts)
  from Cons.prems(1) obtain w1 where w1: "lock_step t w = Some w1" "fold_opt lock_step ts w1 = Some w'"
    by (auto simp: bind_eq_Some_conv)
  with holders_ok_step [OF Cons.prems(2) w1(1)] work_left_step [OF w1(1)] Cons.IH show ?case
    by fastforce
qed

lemma lock_completes: "holders_ok hs w \<Longrightarrow> \<exists>ts w'. fold_opt lock_step ts w = Some w' \<and> finished w'"
proof (induction "work_left w" arbitrary: w hs rule: less_induct)
  case less
  show ?case
  proof (cases "finished w")
    case True
    then show ?thesis by (intro exI [of _ "[]"]) simp
  next
    case False
    then obtain t w1 where w1: "lock_step t w = Some w1"
      using lock_progress [OF less.prems] by blast
    obtain h where "holders_ok (hs[t := h]) w1" using holders_ok_step [OF less.prems w1] by blast
    moreover have "work_left w1 < work_left w" using work_left_step [OF w1] by simp
    ultimately obtain ts w' where "fold_opt lock_step ts w1 = Some w'" "finished w'"
      using less.hyps by blast
    then show ?thesis using w1 by (intro exI [of _ "t # ts"]) simp
  qed
qed

lemma holders_ok_start:
  assumes "\<forall>p \<in> set ps. bracketed n None p"
  shows "holders_ok (replicate (length ps) None) (lock_start (replicate n None) g ps)"
  using assms by (auto simp: holders_ok_def lock_start_def)

text \<open>No interleaving of threads that release every mutex before they take the next one gets stuck.\<close>

lemma lock_programs_complete:
  assumes "\<forall>p \<in> set ps. bracketed n None p"
    and "fold_opt lock_step ts (lock_start (replicate n None) g ps) = Some w"
  shows "length ts \<le> sum_list (map length ps)"
    and "finished w \<or> (\<exists>t. lock_step t w \<noteq> None)"
    and "\<exists>ts' w'. fold_opt lock_step ts' w = Some w' \<and> finished w'"
proof -
  from lock_run [OF assms(2) holders_ok_start [OF assms(1)]] obtain hs where hs: "holders_ok hs w"
    and len: "work_left (lock_start (replicate n None) g ps) = length ts + work_left w"
    by blast
  from len show "length ts \<le> sum_list (map length ps)" by (simp add: work_left_def lock_start_def)
  from lock_progress [OF hs] show "finished w \<or> (\<exists>t. lock_step t w \<noteq> None)" by blast
  from lock_completes [OF hs] show "\<exists>ts' w'. fold_opt lock_step ts' w = Some w' \<and> finished w'" .
qed

lemma bracketed_append: "bracketed n h p \<Longrightarrow> bracketed n None q \<Longrightarrow> bracketed n h (p @ q)"
  by (induction n h p rule: bracketed.induct) auto

lemma bracketed_concat: "(\<And>p. p \<in> set ps \<Longrightarrow> bracketed n None p) \<Longrightarrow> bracketed n None (concat ps)"
  by (induction ps) (simp_all add: bracketed_append)

lemma threads_execute_bracketed: "unat l < n \<Longrightarrow> bracketed n None (threads_execute_event y l)"
  unfolding threads_execute_event_def by (rule bracketed_concat) simp

lemma threads_next_event_lock:
  "threads_next_event v = Some (Threads_event l, v') \<Longrightarrow> unat l < unat (thread_locks v)"
  by (auto simp: threads_next_event_def unat_mod word_gt_0 unat_gt_0 split: if_splits)

lemma mutex_execute_sections:
  "\<exists>ls. fst (mutex_execute_event fp num nlocks s) = concat (map increment_section ls) \<and>
     (\<forall>m \<in> set ls. \<exists>s. m = fst (sb_rand_uniform fp 0 (num - 1) s)) \<and> of_nat (length ls) = nlocks"
proof (induction fp num nlocks s rule: mutex_execute_event.induct)
  case (1 fp num nlocks s)
  obtain m s1 where m: "sb_rand_uniform fp 0 (num - 1) s = (m, s1)"
    by (cases "sb_rand_uniform fp 0 (num - 1) s")
  then have mem: "\<exists>s. m = fst (sb_rand_uniform fp 0 (num - 1) s)" by (metis fst_conv)
  show ?case
  proof (cases "nlocks - 1 > 0")
    case True
    from 1 [OF m [symmetric] refl refl True] obtain ls where
      ls: "fst (mutex_execute_event fp num (nlocks - 1) s1) = concat (map increment_section ls)"
        "\<forall>m \<in> set ls. \<exists>s. m = fst (sb_rand_uniform fp 0 (num - 1) s)" "of_nat (length ls) = nlocks - 1"
      by blast
    have "fst (mutex_execute_event fp num nlocks s) = concat (map increment_section (m # ls))"
      using True ls(1) by (subst mutex_execute_event.simps) (simp add: m increment_section_def split: prod.split, auto)
    moreover have "of_nat (length (m # ls)) = nlocks" using ls(3) by simp
    ultimately show ?thesis using ls(2) mem by (metis set_ConsD)
  next
    case False
    then have "nlocks - 1 = 0" by (simp add: word_gt_0)
    then have "nlocks = 1" by simp
    moreover have "fst (mutex_execute_event fp num nlocks s) = concat (map increment_section [m])"
      using False by (subst mutex_execute_event.simps) (simp add: m increment_section_def)
    ultimately show ?thesis using mem by (intro exI [of _ "[m]"]) simp
  qed
qed

lemma serial_step:
  assumes "serial w" "lock_step t w = Some w'"
  shows "serial w' \<and> global_var w' + of_nat (stores_left w') = global_var w + of_nat (stores_left w)"
proof -
  from assms(2) obtain a p where t: "t < length (progs w)" and p: "progs w ! t = a # p"
    and act: "do_act t a (w\<lparr>progs := (progs w)[t := p]\<rparr>) = Some w'"
    by (rule lock_step_cases)
  have pw: "progs w' = (progs w)[t := p]" using do_act_frame(1) [OF act] by simp
  have len: "length (owners w) = 1" "length (registers w) = length (progs w)"
    and ok: "\<And>u. u < length (progs w) \<Longrightarrow> thread_ok w u"
    using assms(1) by (auto simp: serial_def)
  have zero: "m = 0" if "unat m < 1" for m :: u32 using that by (simp add: unat_eq_0)
  have left: "stores_left w = stores_left w' + (if a = Store_var then 1 else 0)"
  proof -
    let ?f = "\<lambda>p. count_list p Store_var"
    have "stores_left w' + ?f (progs w ! t) = stores_left w + ?f p"
      using sum_list_update_nat [of t "map ?f (progs w)" "?f p"] t by (simp add: stores_left_def pw map_update)
    then show ?thesis using p by (simp split: if_splits)
  qed
  have self: "thread_ok w' t"
    using ok [OF t] p act t len pw unfolding thread_ok_def
    by (cases a; cases p) (auto dest: zero split: if_splits lock_act.splits)
  have other: "thread_ok w' u" if u: "u < length (progs w)" "u \<noteq> t" for u
    using ok [OF u(1)] ok [OF t] u p act len pw unfolding thread_ok_def
    by (cases a) (auto dest: zero split: if_splits list.splits lock_act.splits)
  have "global_var w' = global_var w + (if a = Store_var then 1 else 0)"
    using act ok [OF t] p by (cases a) (auto simp: thread_ok_def split: if_splits)
  moreover have "serial w'"
    using do_act_frame(2,3) [OF act] self other len pw by (auto simp: serial_def)
  ultimately show ?thesis using left by simp
qed

lemma serial_run:
  assumes "fold_opt lock_step ts w = Some w'" "serial w"
  shows "global_var w' + of_nat (stores_left w') = global_var w + of_nat (stores_left w)"
  using assms
proof (induction ts arbitrary: w)
  case Nil
  then show ?case by simp
next
  case (Cons t ts)
  from Cons.prems(1) obtain w1 where "lock_step t w = Some w1" "fold_opt lock_step ts w1 = Some w'"
    by (auto simp: bind_eq_Some_conv)
  with serial_step [OF Cons.prems(2)] Cons.IH show ?case by metis
qed

lemma guarded_sections: "guarded h (concat (map increment_section ls))"
  by (induction ls arbitrary: h) (simp_all add: increment_section_def)

lemma count_sections: "count_list (concat (map increment_section ls)) Store_var = length ls"
  by (induction ls) (simp_all add: increment_section_def)

lemma bracketed_sections: "\<forall>m \<in> set ls. unat m < n \<Longrightarrow> bracketed n None (concat (map increment_section ls))"
  by (rule bracketed_concat) (auto simp: increment_section_def)

lemma lock_index_in_range:
  assumes "0 < num"
  shows "unat (fst (sb_rand_uniform (ieee_ops f p) 0 (num - 1) s)) < unat num"
proof -
  have n: "unat (num - 1) = unat num - 1" "0 < unat num"
    using assms by (simp_all add: unat_sub word_less_nat_alt word_le_nat_alt)
  then have "num - 1 < 0xFFFFFFFF"
    using unat_less_two_power_u32 [of num] by (simp add: word_less_nat_alt)
  moreover have "same_binade (unat 0) (unat (num - 1))" by (simp add: same_binade_def)
  ultimately have "fst (sb_rand_uniform (ieee_ops f p) 0 (num - 1) s) \<le> num - 1"
    using uniform_bounds [of 0 "num - 1"] by simp
  with n show ?thesis by (simp add: word_le_nat_alt)
qed

lemma mutex_programs_bracketed:
  assumes "0 < mutex_num v"
  shows "\<forall>q \<in> set (mutex_programs (ieee_ops f p) v seeds). bracketed (unat (mutex_num v)) None q"
proof
  fix q assume "q \<in> set (mutex_programs (ieee_ops f p) v seeds)"
  then obtain s where "q = fst (mutex_execute_event (ieee_ops f p) (mutex_num v) (mutex_locks v) s)"
    by (auto simp: mutex_programs_def)
  with mutex_execute_sections [of "ieee_ops f p" "mutex_num v" "mutex_locks v" s] obtain ls where
    q: "q = concat (map increment_section ls)"
    and ls: "\<forall>m \<in> set ls. \<exists>s. m = fst (sb_rand_uniform (ieee_ops f p) 0 (mutex_num v - 1) s)"
    by blast
  have "\<forall>m \<in> set ls. unat m < unat (mutex_num v)"
  proof
    fix m assume "m \<in> set ls"
    then obtain s where "m = fst (sb_rand_uniform (ieee_ops f p) 0 (mutex_num v - 1) s)"
      using ls by blast
    then show "unat m < unat (mutex_num v)" using lock_index_in_range [OF assms, of f p s] by simp
  qed
  then show "bracketed (unat (mutex_num v)) None q"
    unfolding q by (rule bracketed_sections)
qed

lemma mutex_programs_serial:
  assumes "length m = 1"
  shows "serial (lock_start m g (mutex_programs fp v seeds))"
    and "of_nat (stores_left (lock_start m g (mutex_programs fp v seeds))) = of_nat (length seeds) * mutex_locks v"
proof -
  have sec: "\<exists>ls. fst (mutex_execute_event fp (mutex_num v) (mutex_locks v) s) = concat (map increment_section ls) \<and>
      of_nat (length ls) = mutex_locks v" for s
    using mutex_execute_sections [of fp "mutex_num v" "mutex_locks v" s] by blast
  let ?w = "lock_start m g (mutex_programs fp v seeds)"
  have "thread_ok ?w t" if t: "t < length seeds" for t
  proof -
    obtain ls where "fst (mutex_execute_event fp (mutex_num v) (mutex_locks v) (seeds ! t)) = concat (map increment_section ls)"
      using sec [of "seeds ! t"] by blast
    then have "progs ?w ! t = concat (map increment_section ls)"
      using t by (simp add: lock_start_def mutex_programs_def)
    then show ?thesis
      using guarded_sections by (cases ls) (simp_all add: thread_ok_def increment_section_def)
  qed
  then show "serial ?w" using assms by (simp add: serial_def) (simp add: lock_start_def mutex_programs_def)
  have "of_nat (count_list (fst (mutex_execute_event fp (mutex_num v) (mutex_locks v) s)) Store_var) = mutex_locks v" for s
  proof -
    obtain ls where "fst (mutex_execute_event fp (mutex_num v) (mutex_locks v) s) = concat (map increment_section ls)"
      "of_nat (length ls) = mutex_locks v"
      using sec [of s] by blast
    then show ?thesis by (simp add: count_sections)
  qed
  then show "of_nat (stores_left ?w) = of_nat (length seeds) * mutex_locks v"
    by (induction seeds) (simp_all add: stores_left_def lock_start_def mutex_programs_def algebra_simps)
qed

lemma finished_stores: "finished w \<Longrightarrow> stores_left w = 0"
  by (auto simp: finished_def stores_left_def sum_list_eq_0_iff)

lemma mutex_init_num: "mutex_init alloc opts = Inr v \<Longrightarrow> mutexes v = replicate (unat (mutex_num v)) None"
  by (auto simp: mutex_init_def check_def split: sum.splits if_splits)

text \<open>
  C36 (threads_never_deadlock): whatever locks the requests of the threads test name and however
  the threads are scheduled, some thread can always continue until all are finished, a schedule
  has at most as many steps as the threads have actions, and every unfinished schedule can be
  completed.
\<close>

theorem threads_never_deadlock:
  assumes "threads_prepare alloc v = Inr v'"
    and "\<And>l. l \<in> \<Union> (set ` set lockss) \<Longrightarrow>
      \<exists>n. map_option fst (threads_next_event (v'\<lparr>requests_done := n\<rparr>)) = Some (Threads_event l)"
    and "fold_opt lock_step ts (lock_start (test_mutexes v') g (threads_programs v' lockss)) = Some w"
  shows "length ts \<le> sum_list (map length (threads_programs v' lockss)) \<and>
    (finished w \<or> (\<exists>t. lock_step t w \<noteq> None)) \<and>
    (\<exists>ts' w'. fold_opt lock_step ts' w = Some w' \<and> finished w')"
proof -
  have m: "test_mutexes v' = replicate (unat (thread_locks v')) None"
    using assms(1) by (auto simp: threads_prepare_def split: if_splits)
  have l: "unat l < unat (thread_locks v')" if l: "l \<in> \<Union> (set ` set lockss)" for l
  proof -
    obtain n where "map_option fst (threads_next_event (v'\<lparr>requests_done := n\<rparr>)) = Some (Threads_event l)"
      using assms(2) [OF l] by blast
    then show ?thesis
      using threads_next_event_lock [of "v'\<lparr>requests_done := n\<rparr>"] by auto
  qed
  have "\<forall>q \<in> set (threads_programs v' lockss). bracketed (unat (thread_locks v')) None q"
    unfolding threads_programs_def
    by (auto intro!: bracketed_concat threads_execute_bracketed l)
  from lock_programs_complete [OF this assms(3) [unfolded m]] show ?thesis by blast
qed

text \<open>
  C37 (mutex_test_serialises): threads of the mutex test never deadlock, whatever mutexes they
  draw; and with a single mutex no increment of the shared variable is lost, so that all threads
  together add the number of threads times the number of locks.
\<close>

theorem mutex_test_serialises:
  assumes "mutex_init alloc opts = Inr v" "0 < mutex_num v"
    and "fold_opt lock_step ts (lock_start (mutexes v) g (mutex_programs (ieee_ops f p) v seeds)) = Some w"
  shows "(finished w \<or> (\<exists>t. lock_step t w \<noteq> None)) \<and>
    (\<exists>ts' w'. fold_opt lock_step ts' w = Some w' \<and> finished w') \<and>
    (mutex_num v = 1 \<and> finished w \<longrightarrow> global_var w = g + of_nat (length seeds) * mutex_locks v)"
proof -
  note m = mutex_init_num [OF assms(1)]
  note c = lock_programs_complete [OF mutex_programs_bracketed [OF assms(2)] assms(3) [unfolded m]]
  have "global_var w = g + of_nat (length seeds) * mutex_locks v" if "mutex_num v = 1" "finished w"
  proof -
    have one: "length (mutexes v) = 1" using m that(1) by simp
    from serial_run [OF assms(3) mutex_programs_serial(1) [OF one]] show ?thesis
      using finished_stores [OF that(2)] mutex_programs_serial(2) [OF one, where seeds = seeds]
      by (simp add: lock_start_def)
  qed
  with c(2,3) show ?thesis by blast
qed

text \<open>With two mutexes two increments can overlap: one of them is lost.\<close>

lemma increments_lost:
  "map_option global_var
     (fold_opt lock_step [0, 1, 0, 1, 0, 1, 0, 1]
        (lock_start [None, None] 0 [increment_section 0, increment_section 1])) = Some 1"
  by (simp add: lock_start_def lock_step_def increment_section_def)

text \<open>With no locks to take the loop runs \<open>2 ^ 32\<close> times.\<close>

lemma mutex_zero_locks: "2 ^ 32 * 4 \<le> length (fst (mutex_execute_event fp num 0 s))"
proof -
  obtain ls where ls: "fst (mutex_execute_event fp num 0 s) = concat (map increment_section ls)"
    "of_nat (length ls) = (0 :: u32)"
    using mutex_execute_sections [of fp num 0 s] by blast
  have "fst (mutex_execute_event fp num 0 s) \<noteq> []"
    by (subst mutex_execute_event.simps) (auto simp: Let_def split: prod.split)
  then have "0 < length ls" using ls(1) by (cases ls) simp_all
  moreover have "2 ^ 32 dvd length ls"
    using ls(2) by (simp add: word_of_nat_eq_0_iff)
  ultimately have "2 ^ 32 \<le> length ls" by (rule dvd_imp_le [rotated])
  moreover have "length (concat (map increment_section ls)) = length ls * 4"
    by (induction ls) (simp_all add: increment_section_def)
  ultimately show ?thesis using ls(1) by simp
qed

theorem threads_never_deadlock_witness:
  "let v' = \<lparr>thread_yields = 2, thread_locks = 3, test_mutexes = [None, None, None], requests_done = 0\<rparr>
   in \<exists>ts' w'. fold_opt lock_step ts' (lock_start (test_mutexes v') 0 (threads_programs v' [[0, 2], [1, 2]])) = Some w' \<and> finished w'"
proof -
  let ?v = "\<lparr>thread_yields = 2, thread_locks = 3, test_mutexes = [], requests_done = 0\<rparr>"
  let ?v' = "\<lparr>thread_yields = 2, thread_locks = 3, test_mutexes = [None, None, None], requests_done = 0\<rparr>"
  have three: "replicate 3 None = [None, None, None :: nat option]" by (simp add: numeral_3_eq_3)
  have p: "threads_prepare (\<lambda>n. True) ?v = Inr ?v'"
    by (simp add: threads_prepare_def three)
  have l: "\<exists>n. map_option fst (threads_next_event (?v'\<lparr>requests_done := n\<rparr>)) = Some (Threads_event l)"
    if "l \<in> \<Union> (set ` set [[0, 2], [1, 2]])" for l
    using that by (intro exI [of _ l]) (auto simp: threads_next_event_def)
  show ?thesis
    using threads_never_deadlock [OF p l, of "[[0, 2], [1, 2]]" "[]" 0] by simp
qed

theorem mutex_test_serialises_witness:
  "let opts = set_options Map.empty [(''mutex-num'', Some ''2'', SB_ARG_TYPE_INT), (''mutex-loops'', Some ''3'', SB_ARG_TYPE_INT),
         (''mutex-locks'', Some ''4'', SB_ARG_TYPE_INT)] [];
       v = \<lparr>mutex_num = 2, mutex_loops = 3, mutex_locks = 4, mutexes = [None, None]\<rparr>
   in mutex_init (\<lambda>n. True) opts = Inr v \<and>
      (\<exists>ts' w'. fold_opt lock_step ts' (lock_start (mutexes v) 0
        (mutex_programs (ieee_ops id (\<lambda>a b. a)) v [(1, 2), (3, 4)])) = Some w' \<and> finished w')"
proof -
  let ?v = "\<lparr>mutex_num = 2, mutex_loops = 3, mutex_locks = 4, mutexes = [None, None]\<rparr> :: mutex_vars"
  let ?o = "set_options Map.empty [(''mutex-num'', Some ''2'', SB_ARG_TYPE_INT), (''mutex-loops'', Some ''3'', SB_ARG_TYPE_INT),
         (''mutex-locks'', Some ''4'', SB_ARG_TYPE_INT)] []"
  have two: "replicate 2 None = [None, None :: nat option]" by (simp add: numeral_2_eq_2)
  have "get_test_int ?o ''mutex-num'' = Inr 2" "get_test_int ?o ''mutex-loops'' = Inr 3"
    "get_test_int ?o ''mutex-locks'' = Inr 4"
    by code_simp+
  then have i: "mutex_init (\<lambda>n. True) ?o = Inr ?v"
    by (simp add: mutex_init_def check_def two)
  have "0 < mutex_num ?v" by simp
  note * = mutex_test_serialises [OF i this, of "[]" 0 id "\<lambda>a b. a" "[(1, 2), (3, 4)]"]
  show ?thesis
    unfolding Let_def using i * [OF fold_opt.simps(1)] by blast
qed

end
