(* ===== verification/SB_Memory.thy ===== *)
theory SB_Memory
  imports SB_Rand
begin

text \<open>
  The memory test, \<open>src/src/tests/memory/sb_memory.c\<close>, on a 64-bit platform.

  The store maps the address of a block to its words, so that the threads of the global scope
  share one block and those of the local scope have one each.  An access outside of a block has no
  result.  Allocation and shared memory segments belong to the operating system: a record of
  functions on a state of its own.  \<open>large_pages\<close> is \<open>HAVE_LARGE_PAGES\<close>.
\<close>

unbundle bit_operations_syntax

section \<open>Data\<close>

definition SIZEOF_SIZE_T :: int where
  "SIZEOF_SIZE_T = 8"

definition LARGE_PAGE_SIZE :: u64 where
  "LARGE_PAGE_SIZE = 4 * 1024 * 1024"

datatype sb_mem_op_t = SB_MEM_OP_NONE | SB_MEM_OP_READ | SB_MEM_OP_WRITE

datatype sb_mem_scope_t = SB_MEM_SCOPE_GLOBAL | SB_MEM_SCOPE_LOCAL

definition memory_args :: "bool \<Rightarrow> sb_arg_t list" where
  "memory_args large_pages =
    [sb_opt ''memory-block-size'' ''size of memory block for test'' (Some ''1K'') SB_ARG_TYPE_SIZE,
     sb_opt ''memory-total-size'' ''total size of data to transfer'' (Some ''100G'') SB_ARG_TYPE_SIZE,
     sb_opt ''memory-scope'' ''memory access scope {global,local}'' (Some ''global'') SB_ARG_TYPE_STRING] @
    (if large_pages then
       [sb_opt ''memory-hugetlb'' ''allocate memory from HugeTLB pool'' (Some ''off'') SB_ARG_TYPE_BOOL]
     else []) @
    [sb_opt ''memory-oper'' ''type of memory operations {read, write, none}'' (Some ''write'') SB_ARG_TYPE_STRING,
     sb_opt ''memory-access-mode'' ''memory access mode {seq,rnd}'' (Some ''seq'') SB_ARG_TYPE_STRING]"

text \<open>The six functions that \<open>ops.execute_event\<close> can point to.\<close>

datatype mem_event = Event_rnd_none | Event_rnd_read | Event_rnd_write | Event_seq_none | Event_seq_read | Event_seq_write

record mem_vars =
  memory_block_size :: int
  memory_total_size :: int
  memory_scope :: sb_mem_scope_t
  memory_oper :: sb_mem_op_t
  memory_access_rnd :: bool
  memory_hugetlb :: bool
  max_offset :: int
  buffers :: "nat list"
  thread_counters :: "u64 list"
  execute_event :: mem_event

type_synonym store = "nat \<rightharpoonup> u64 list"

record 'w mem_os =
  os_memalign :: "u64 \<Rightarrow> 'w \<Rightarrow> nat option \<times> 'w"
  os_malloc :: "u64 \<Rightarrow> 'w \<Rightarrow> bool \<times> 'w"
  os_shmget :: "u64 \<Rightarrow> 'w \<Rightarrow> int \<times> 'w"
  os_shmat :: "int \<Rightarrow> 'w \<Rightarrow> nat option \<times> 'w"
  os_shmctl_rmid :: "int \<Rightarrow> 'w \<Rightarrow> 'w"

datatype mem_error =
    Mem_null_pointer
  | Invalid_block_size int
  | Invalid_scope string
  | Invalid_oper string
  | Invalid_access_mode string
  | Buffer_failed
  | Thread_memory_failed
  | Thread_buffer_failed nat

section \<open>Initialisation\<close>

text \<open>The number of bytes that are requested for a block of the given size.\<close>

definition hugetlb_size :: "u64 \<Rightarrow> u64" where
  "hugetlb_size sz = ((sz - 1) AND NOT LARGE_PAGE_SIZE) + LARGE_PAGE_SIZE"

definition hugetlb_alloc :: "'w mem_os \<Rightarrow> u64 \<Rightarrow> 'w \<Rightarrow> nat option \<times> 'w" where
  "hugetlb_alloc os sz w =
     (let (shmid, w) = os_shmget os (hugetlb_size sz) w
      in if shmid < 0 then (None, w)
         else
           let (ptr, w) = os_shmat os shmid w
           in (ptr, os_shmctl_rmid os shmid w))"

definition alloc_block :: "'w mem_os \<Rightarrow> bool \<Rightarrow> mem_vars \<Rightarrow> 'w \<Rightarrow> nat option \<times> 'w" where
  "alloc_block os large_pages v w =
     (let sz = word_of_int (memory_block_size v)
      in if large_pages \<and> memory_hugetlb v then hugetlb_alloc os sz w else os_memalign os sz w)"

text \<open>\<open>memset (buffer, 0, memory_block_size)\<close>.\<close>

definition zero_block :: "mem_vars \<Rightarrow> nat \<Rightarrow> store \<Rightarrow> store" where
  "zero_block v a m = m(a \<mapsto> replicate (nat (memory_block_size v div SIZEOF_SIZE_T)) 0)"

definition parse_string :: "options \<Rightarrow> string \<Rightarrow> (string \<Rightarrow> 'a option) \<Rightarrow> (string \<Rightarrow> mem_error) \<Rightarrow> mem_error + 'a" where
  "parse_string opts n f err =
     (case sb_get_value_string opts n of
        None \<Rightarrow> Inl Mem_null_pointer
      | Some s \<Rightarrow> (case f s of None \<Rightarrow> Inl (err s) | Some x \<Rightarrow> Inr x))"

definition scope_of :: "string \<Rightarrow> sb_mem_scope_t option" where
  "scope_of s = (if s = ''global'' then Some SB_MEM_SCOPE_GLOBAL
     else if s = ''local'' then Some SB_MEM_SCOPE_LOCAL else None)"

definition oper_of :: "string \<Rightarrow> sb_mem_op_t option" where
  "oper_of s = (if s = ''write'' then Some SB_MEM_OP_WRITE else if s = ''read'' then Some SB_MEM_OP_READ
     else if s = ''none'' then Some SB_MEM_OP_NONE else None)"

definition access_rnd_of :: "string \<Rightarrow> bool option" where
  "access_rnd_of s = (if s = ''seq'' then Some False else if s = ''rnd'' then Some True else None)"

text \<open>The options, before anything is allocated.\<close>

definition memory_options :: "bool \<Rightarrow> options \<Rightarrow> mem_vars \<Rightarrow> mem_error + mem_vars" where
  "memory_options large_pages opts v =
     (let bs = sint (sb_get_value_size opts ''memory-block-size'')
      in if bs < SIZEOF_SIZE_T \<or> bs AND (bs - 1) \<noteq> 0 then Inl (Invalid_block_size bs)
         else
           check (parse_string opts ''memory-scope'' scope_of Invalid_scope) (\<lambda>sc.
           check (parse_string opts ''memory-oper'' oper_of Invalid_oper) (\<lambda>op.
           check (parse_string opts ''memory-access-mode'' access_rnd_of Invalid_access_mode) (\<lambda>rnd.
             Inr (v\<lparr>memory_block_size := bs, max_offset := bs div SIZEOF_SIZE_T - 1,
                    memory_total_size := sint (sb_get_value_size opts ''memory-total-size''),
                    memory_scope := sc,
                    memory_hugetlb := large_pages \<and> sb_get_value_flag opts ''memory-hugetlb'',
                    memory_oper := op, memory_access_rnd := rnd\<rparr>)))))"

text \<open>
  The loop over the threads.  The quotients are those of \<open>long long\<close>: they round towards zero.
\<close>

definition thread_events :: "mem_vars \<Rightarrow> nat \<Rightarrow> u64" where
  "thread_events v threads =
     (let q = \<bar>memory_total_size v\<bar> div memory_block_size v div int threads
      in word_of_int (if memory_total_size v < 0 then - q else q))"

fun thread_blocks ::
  "'w mem_os \<Rightarrow> bool \<Rightarrow> nat \<Rightarrow> nat \<Rightarrow> nat list \<Rightarrow> mem_vars \<times> store \<times> 'w \<Rightarrow> (mem_error + mem_vars \<times> store) \<times> 'w"
where
  "thread_blocks os large_pages threads buffer [] (v, m, w) = (Inr (v, m), w)"
| "thread_blocks os large_pages threads buffer (i # rest) (v, m, w) =
     (let counted = (\<lambda>a v. v\<lparr>buffers := buffers v @ [a], thread_counters := thread_counters v @ [thread_events v threads]\<rparr>)
      in if memory_scope v = SB_MEM_SCOPE_GLOBAL
         then thread_blocks os large_pages threads buffer rest (counted buffer v, m, w)
         else
           (case alloc_block os large_pages v w of
              (None, w) \<Rightarrow> (Inl (Thread_buffer_failed i), w)
            | (Some a, w) \<Rightarrow> thread_blocks os large_pages threads buffer rest (counted a v, zero_block v a m, w)))"

definition select_event :: "sb_mem_op_t \<Rightarrow> bool \<Rightarrow> mem_event" where
  "select_event op rnd =
     (case op of
        SB_MEM_OP_NONE \<Rightarrow> if rnd then Event_rnd_none else Event_seq_none
      | SB_MEM_OP_READ \<Rightarrow> if rnd then Event_rnd_read else Event_seq_read
      | SB_MEM_OP_WRITE \<Rightarrow> if rnd then Event_rnd_write else Event_seq_write)"

text \<open>
  A block of the global scope is allocated first.  The result has the variables, the store and
  the new value of \<open>sb_globals.max_events\<close>.
\<close>

definition memory_init ::
  "'w mem_os \<Rightarrow> bool \<Rightarrow> u32 \<Rightarrow> options \<Rightarrow> mem_vars \<Rightarrow> store \<Rightarrow> 'w \<Rightarrow> (mem_error + mem_vars \<times> store \<times> u64) \<times> 'w"
where
  "memory_init os large_pages threads opts v m w =
     (case memory_options large_pages opts v of
        Inl e \<Rightarrow> (Inl e, w)
      | Inr v \<Rightarrow>
         (let (b, w) = (if memory_scope v = SB_MEM_SCOPE_GLOBAL then alloc_block os large_pages v w else (Some 0, w))
          in case b of
               None \<Rightarrow> (Inl Buffer_failed, w)
             | Some buffer \<Rightarrow>
                (let m = (if memory_scope v = SB_MEM_SCOPE_GLOBAL then zero_block v buffer m else m);
                     (ok1, w) = os_malloc os (ucast threads * 8) w;
                     (ok2, w) = os_malloc os (ucast threads * 8) w
                 in if \<not> ok1 \<or> \<not> ok2 then (Inl Thread_memory_failed, w)
                    else
                      (case thread_blocks os large_pages (unat threads) buffer [0..<unat threads]
                              (v\<lparr>buffers := [], thread_counters := []\<rparr>, m, w) of
                         (Inl e, w) \<Rightarrow> (Inl e, w)
                       | (Inr (v, m), w) \<Rightarrow>
                           (Inr (v\<lparr>execute_event := select_event (memory_oper v) (memory_access_rnd v)\<rparr>, m, 0), w)))))"

section \<open>Events\<close>

text \<open>Whether there is an event (\<open>SB_REQ_TYPE_MEMORY\<close>) or none (\<open>SB_REQ_TYPE_NULL\<close>).\<close>

definition memory_next_event :: "nat \<Rightarrow> mem_vars \<Rightarrow> bool \<times> mem_vars" where
  "memory_next_event tid v =
     (if memory_total_size v > 0
      then let c = thread_counters v ! tid
           in (c \<noteq> 0, v\<lparr>thread_counters := (thread_counters v)[tid := c - 1]\<rparr>)
      else (True, v))"

definition size_t_load :: "nat \<Rightarrow> nat \<Rightarrow> store \<Rightarrow> u64 option" where
  "size_t_load a i m =
     (case m a of None \<Rightarrow> None | Some ws \<Rightarrow> if i < length ws then Some (ws ! i) else None)"

definition size_t_store :: "nat \<Rightarrow> nat \<Rightarrow> u64 \<Rightarrow> store \<Rightarrow> store option" where
  "size_t_store a i x m =
     (case m a of None \<Rightarrow> None | Some ws \<Rightarrow> if i < length ws then Some (m(a \<mapsto> ws[i := x])) else None)"

text \<open>
  The loops over the words of a block.  \<open>max_offset\<close> is converted to the 32-bit arguments of the
  random numbers.
\<close>

abbreviation word_count :: "mem_vars \<Rightarrow> nat" where
  "word_count v \<equiv> nat (max_offset v + 1)"

type_synonym mem_state = "store \<times> sb_rng_state_t"

definition event_rnd_none :: "'d fp_ops \<Rightarrow> 'd rand_state \<Rightarrow> mem_vars \<Rightarrow> nat \<Rightarrow> mem_state \<Rightarrow> mem_state option" where
  "event_rnd_none fp q v tid =
     fold_opt (\<lambda>i (m, s). do { (off, s) \<leftarrow> sb_rand_default fp q 0 (word_of_int (max_offset v)) s; Some (m, s) })
       [0..<word_count v]"

definition event_rnd_read :: "'d fp_ops \<Rightarrow> 'd rand_state \<Rightarrow> mem_vars \<Rightarrow> nat \<Rightarrow> mem_state \<Rightarrow> mem_state option" where
  "event_rnd_read fp q v tid =
     fold_opt (\<lambda>i (m, s). do {
       (off, s) \<leftarrow> sb_rand_default fp q 0 (word_of_int (max_offset v)) s;
       x \<leftarrow> size_t_load (buffers v ! tid) (unat off) m;
       Some (m, s) }) [0..<word_count v]"

definition event_rnd_write :: "'d fp_ops \<Rightarrow> 'd rand_state \<Rightarrow> mem_vars \<Rightarrow> nat \<Rightarrow> mem_state \<Rightarrow> mem_state option" where
  "event_rnd_write fp q v tid =
     fold_opt (\<lambda>i (m, s). do {
       (off, s) \<leftarrow> sb_rand_default fp q 0 (word_of_int (max_offset v)) s;
       m \<leftarrow> size_t_store (buffers v ! tid) (unat off) (of_nat i) m;
       Some (m, s) }) [0..<word_count v]"

definition event_seq_none :: "mem_vars \<Rightarrow> nat \<Rightarrow> mem_state \<Rightarrow> mem_state option" where
  "event_seq_none v tid = fold_opt (\<lambda>i st. Some st) [0..<word_count v]"

text \<open>These two loops stop before \<open>end\<close>, the last word of the block.\<close>

definition event_seq_read :: "mem_vars \<Rightarrow> nat \<Rightarrow> mem_state \<Rightarrow> mem_state option" where
  "event_seq_read v tid =
     fold_opt (\<lambda>i (m, s). do { x \<leftarrow> size_t_load (buffers v ! tid) i m; Some (m, s) }) [0..<nat (max_offset v)]"

definition event_seq_write :: "mem_vars \<Rightarrow> nat \<Rightarrow> mem_state \<Rightarrow> mem_state option" where
  "event_seq_write v tid =
     fold_opt (\<lambda>i (m, s). do { m \<leftarrow> size_t_store (buffers v ! tid) i (of_nat tid) m; Some (m, s) }) [0..<nat (max_offset v)]"

definition memory_execute_event ::
  "'d fp_ops \<Rightarrow> 'd rand_state \<Rightarrow> mem_vars \<Rightarrow> nat \<Rightarrow> mem_state \<Rightarrow> mem_state option"
where
  "memory_execute_event fp q v tid =
     (case execute_event v of
        Event_rnd_none \<Rightarrow> event_rnd_none fp q v tid
      | Event_rnd_read \<Rightarrow> event_rnd_read fp q v tid
      | Event_rnd_write \<Rightarrow> event_rnd_write fp q v tid
      | Event_seq_none \<Rightarrow> event_seq_none v tid
      | Event_seq_read \<Rightarrow> event_seq_read v tid
      | Event_seq_write \<Rightarrow> event_seq_write v tid)"

section \<open>Reports\<close>

text \<open>The texts of the operation and the scope, and the sizes in KiB and MiB.\<close>

definition memory_print_mode :: "mem_vars \<Rightarrow> int \<times> int \<times> string \<times> string" where
  "memory_print_mode v =
     (memory_block_size v div 1024,
      (if memory_total_size v < 0 then - (- memory_total_size v div 1024 div 1024) else memory_total_size v div 1024 div 1024),
      (case memory_oper v of SB_MEM_OP_READ \<Rightarrow> ''read'' | SB_MEM_OP_WRITE \<Rightarrow> ''write'' | SB_MEM_OP_NONE \<Rightarrow> ''none''),
      (case memory_scope v of SB_MEM_SCOPE_GLOBAL \<Rightarrow> ''global'' | SB_MEM_SCOPE_LOCAL \<Rightarrow> ''local''))"

text \<open>MiB transferred by a number of events; the product is one of 64-bit words.\<close>

definition memory_megabytes :: "'d fp_ops \<Rightarrow> mem_vars \<Rightarrow> u64 \<Rightarrow> 'd" where
  "memory_megabytes fp v events =
     fp_div fp (fp_of_u64 fp (events * word_of_int (memory_block_size v))) (fp_of fp (1024 * 1024))"

definition memory_report_intermediate :: "'d fp_ops \<Rightarrow> mem_vars \<Rightarrow> u64 \<Rightarrow> 'd \<Rightarrow> 'd" where
  "memory_report_intermediate fp v events time_interval = fp_div fp (memory_megabytes fp v events) time_interval"

definition memory_report_cumulative :: "'d fp_ops \<Rightarrow> mem_vars \<Rightarrow> u64 \<Rightarrow> 'd \<Rightarrow> (u64 \<times> 'd) \<times> ('d \<times> 'd) option" where
  "memory_report_cumulative fp v events time_interval =
     ((events, fp_div fp (fp_of_u64 fp events) time_interval),
      if memory_oper v \<noteq> SB_MEM_OP_NONE
      then let mb = memory_megabytes fp v events in Some (mb, fp_div fp mb time_interval)
      else None)"

section \<open>Specification\<close>

text \<open>Every thread has a block of the configured size, and a counter.\<close>

definition mem_ok :: "u32 \<Rightarrow> mem_vars \<Rightarrow> store \<Rightarrow> bool" where
  "mem_ok threads v m \<longleftrightarrow> length (buffers v) = unat threads \<and>
     thread_counters v = replicate (unat threads) (thread_events v (unat threads)) \<and>
     (\<exists>k \<ge> 3. memory_block_size v = 2 ^ k \<and> k < 63) \<and> max_offset v = memory_block_size v div 8 - 1 \<and>
     memory_total_size v < 2 ^ 63 \<and>
     (\<forall>a \<in> set (buffers v). \<exists>ws. m a = Some ws \<and> length ws = word_count v)"

text \<open>The events a thread gets from repeated calls, up to the first call without one.\<close>

fun events_until_null :: "nat \<Rightarrow> nat \<Rightarrow> mem_vars \<Rightarrow> nat option" where
  "events_until_null 0 tid v = None"
| "events_until_null (Suc fuel) tid v =
     (let (more, v) = memory_next_event tid v in if more then map_option Suc (events_until_null fuel tid v) else Some 0)"

definition store_ok :: "mem_vars \<Rightarrow> store \<Rightarrow> bool" where
  "store_ok v m \<longleftrightarrow> (\<forall>a \<in> set (buffers v). \<exists>ws. m a = Some ws \<and> length ws = word_count v)"

text \<open>A system in which every allocation succeeds.\<close>

definition mem_ram_os :: "nat mem_os" where
  "mem_ram_os = \<lparr>os_memalign = (\<lambda>n w. (Some w, w + 1)), os_malloc = (\<lambda>n w. (True, w)), os_shmget = (\<lambda>n w. (0, w)),
     os_shmat = (\<lambda>i w. (Some w, w + 1)), os_shmctl_rmid = (\<lambda>i w. w)\<rparr>"

definition mem_vars0 :: mem_vars where
  "mem_vars0 = \<lparr>memory_block_size = 0, memory_total_size = 0, memory_scope = SB_MEM_SCOPE_GLOBAL,
     memory_oper = SB_MEM_OP_NONE, memory_access_rnd = False, memory_hugetlb = False, max_offset = 0,
     buffers = [], thread_counters = [], execute_event = Event_seq_none\<rparr>"

definition mem_opts :: options where
  "mem_opts = set_options Map.empty
     [(''memory-block-size'', Some ''16'', SB_ARG_TYPE_SIZE), (''memory-total-size'', Some ''100'', SB_ARG_TYPE_SIZE),
      (''memory-scope'', Some ''local'', SB_ARG_TYPE_STRING), (''memory-oper'', Some ''write'', SB_ARG_TYPE_STRING),
      (''memory-access-mode'', Some ''rnd'', SB_ARG_TYPE_STRING)] []"

definition uniform_state :: "rat rand_state" where
  "uniform_state = \<lparr>sb_rand_seed = 0, rand_type = DIST_TYPE_UNIFORM, rand_iter = 0, rand_pct = 0, rand_res = 0,
      rand_iter_mult = 0, rand_pct_mult = 0, rand_pct_2_mult = 0, rand_res_mult = 0, pareto_h = 0,
      pareto_power = 0, zipf_exp = 0, zipf_s = 0, zipf_hIntegralX1 = 0,
      rand_unique_index = 0, rand_unique_offset = 0\<rparr>"

section \<open>Lemmas\<close>

lemma power_of_two_test:
  assumes "0 < n" "n AND (n - 1) = (0 :: int)"
  shows "\<exists>k. n = 2 ^ k"
  using assms
proof (induction "nat n" arbitrary: n rule: less_induct)
  case less
  show ?case
  proof (cases "even n")
    case True
    then obtain m where m: "n = 2 * m" by blast
    then have "(n - 1) div 2 = m - 1" by presburger
    with less.prems(2) m have "m AND (m - 1) = 0" by (subst (asm) and_rec) simp
    moreover have "0 < m" "nat m < nat n" using less.prems(1) m by simp_all
    ultimately obtain k where "m = 2 ^ k" using less.hyps by blast
    then show ?thesis using m by (intro exI [of _ "Suc k"]) simp
  next
    case False
    then obtain m where m: "n = 2 * m + 1" by (rule oddE)
    have "n div 2 = m" "(n - 1) div 2 = m" using m by presburger+
    with less.prems(2) m have "m = 0" by (subst (asm) and_rec) simp
    then show ?thesis using m by (intro exI [of _ 0]) simp
  qed
qed

lemma memory_options_ok:
  assumes "memory_options lp opts v = Inr v'"
  shows "(\<exists>k \<ge> 3. memory_block_size v' = 2 ^ k \<and> k < 63) \<and> max_offset v' = memory_block_size v' div 8 - 1 \<and>
    memory_total_size v' < 2 ^ 63"
proof -
  let ?b = "sint (sb_get_value_size opts ''memory-block-size'')"
  have b: "memory_block_size v' = ?b" "max_offset v' = ?b div 8 - 1" "8 \<le> ?b" "?b AND (?b - 1) = 0"
    using assms by (auto simp: memory_options_def SIZEOF_SIZE_T_def check_def Let_def split: if_splits sum.splits)
  then obtain k where k: "?b = 2 ^ k" using power_of_two_test [of ?b] by auto
  have "?b < 2 ^ 63" using sint_lt [of "sb_get_value_size opts ''memory-block-size''"] by simp
  then have "k < 63" using k power_less_imp_less_exp [of "2 :: int" k 63] by simp
  moreover have "(2 :: int) ^ 3 \<le> 2 ^ k" using b(3) k by simp
  then have "3 \<le> k" using power_le_imp_le_exp [of "2 :: int" 3 k] by simp
  moreover have "memory_total_size v' = sint (sb_get_value_size opts ''memory-total-size'')"
    using assms by (auto simp: memory_options_def check_def Let_def split: if_splits sum.splits)
  then have "memory_total_size v' < 2 ^ 63"
    using sint_lt [of "sb_get_value_size opts ''memory-total-size''"] by simp
  ultimately show ?thesis using b k by auto
qed

lemma zero_block_ok:
  "store_ok v m \<Longrightarrow> max_offset v = memory_block_size v div 8 - 1 \<Longrightarrow> store_ok v (zero_block v a m)"
  by (auto simp: store_ok_def zero_block_def SIZEOF_SIZE_T_def)

lemma thread_blocks_ok:
  assumes "thread_blocks os lp threads buffer ts (v, m, w) = (Inr (v', m'), w')"
    and "store_ok v m" "max_offset v = memory_block_size v div 8 - 1"
    and "memory_scope v = SB_MEM_SCOPE_GLOBAL \<Longrightarrow> \<exists>ws. m buffer = Some ws \<and> length ws = word_count v"
  shows "\<exists>bs. v' = v\<lparr>buffers := buffers v @ bs,
      thread_counters := thread_counters v @ replicate (length ts) (thread_events v threads)\<rparr> \<and>
    length bs = length ts \<and> store_ok v' m'"
  using assms
proof (induction ts arbitrary: v m w)
  case Nil
  then show ?case by auto
next
  case (Cons t ts)
  have step: ?case if run: "thread_blocks os lp threads buffer ts
        (v\<lparr>buffers := buffers v @ [a], thread_counters := thread_counters v @ [thread_events v threads]\<rparr>, m1, w1) = (Inr (v', m'), w')"
    and ok: "store_ok v m1" and blk: "\<exists>ws. m1 a = Some ws \<and> length ws = word_count v"
    and glob: "memory_scope v = SB_MEM_SCOPE_GLOBAL \<Longrightarrow> \<exists>ws. m1 buffer = Some ws \<and> length ws = word_count v" for a m1 w1
  proof -
    let ?v = "v\<lparr>buffers := buffers v @ [a], thread_counters := thread_counters v @ [thread_events v threads]\<rparr>"
    have "store_ok ?v m1" using ok blk by (auto simp: store_ok_def)
    moreover have "thread_events ?v threads = thread_events v threads" by (simp add: thread_events_def)
    ultimately obtain bs where bs: "v' = ?v\<lparr>buffers := buffers ?v @ bs,
        thread_counters := thread_counters ?v @ replicate (length ts) (thread_events v threads)\<rparr>"
      "length bs = length ts" "store_ok v' m'"
      using Cons.IH [OF run] Cons.prems(3) glob by auto
    then show ?thesis by (intro exI [of _ "a # bs"]) simp
  qed
  show ?case
  proof (cases "memory_scope v = SB_MEM_SCOPE_GLOBAL")
    case True
    with Cons.prems show ?thesis by (intro step [of buffer m w]) (simp_all add: Let_def)
  next
    case False
    then obtain a w1 where a: "alloc_block os lp v w = (Some a, w1)"
      using Cons.prems(1) by (auto simp: Let_def split: prod.splits option.splits)
    have "\<exists>ws. zero_block v a m a = Some ws \<and> length ws = word_count v"
      using Cons.prems(3) by (simp add: zero_block_def SIZEOF_SIZE_T_def)
    with a False Cons.prems show ?thesis
      by (intro step [of a "zero_block v a m" w1]) (simp_all add: Let_def zero_block_ok)
  qed
qed

lemma memory_init_ok:
  assumes "memory_init os lp threads opts v m w = (Inr (v', m', e), w')"
  shows "mem_ok threads v' m' \<and> e = 0 \<and> execute_event v' = select_event (memory_oper v') (memory_access_rnd v')"
proof -
  obtain v1 where v1: "memory_options lp opts v = Inr v1"
    using assms by (auto simp: memory_init_def split: sum.splits)
  note ok = memory_options_ok [OF v1]
  let ?v = "v1\<lparr>buffers := [], thread_counters := []\<rparr>"
  obtain buffer m1 w1 v2 w2 where
    run: "thread_blocks os lp (unat threads) buffer [0..<unat threads] (?v, m1, w1) = (Inr (v2, m'), w2)"
    and v': "v' = v2\<lparr>execute_event := select_event (memory_oper v2) (memory_access_rnd v2)\<rparr>" "e = 0"
    and m1: "m1 = (if memory_scope v1 = SB_MEM_SCOPE_GLOBAL then zero_block v1 buffer m else m)"
    using assms by (auto simp: memory_init_def v1 Let_def split: prod.splits option.splits sum.splits if_splits)
  have "store_ok ?v m1" by (simp add: store_ok_def)
  moreover have "\<exists>ws. m1 buffer = Some ws \<and> length ws = word_count ?v" if "memory_scope ?v = SB_MEM_SCOPE_GLOBAL"
    using that ok by (simp add: m1 zero_block_def SIZEOF_SIZE_T_def)
  ultimately obtain bs where "v2 = ?v\<lparr>buffers := bs,
      thread_counters := replicate (unat threads) (thread_events ?v (unat threads))\<rparr>" "length bs = unat threads" "store_ok v2 m'"
    using thread_blocks_ok [OF run] ok by auto
  then show ?thesis
    using v' ok by (auto simp: mem_ok_def store_ok_def thread_events_def)
qed

lemma size_t_store_ok:
  assumes "store_ok v m" "tid < length (buffers v)" "i < word_count v"
  shows "\<exists>m'. size_t_store (buffers v ! tid) i x m = Some m' \<and> store_ok v m'"
proof -
  obtain ws where ws: "m (buffers v ! tid) = Some ws" "length ws = word_count v"
    using assms(1) nth_mem [OF assms(2)] unfolding store_ok_def by blast
  then have "size_t_store (buffers v ! tid) i x m = Some (m(buffers v ! tid \<mapsto> ws[i := x]))"
    using assms(3) by (simp add: size_t_store_def)
  moreover have "store_ok v (m(buffers v ! tid \<mapsto> ws[i := x]))"
    using assms(1) ws(2) by (auto simp: store_ok_def)
  ultimately show ?thesis by blast
qed

lemma size_t_load_ok:
  assumes "store_ok v m" "tid < length (buffers v)" "i < word_count v"
  shows "\<exists>x. size_t_load (buffers v ! tid) i m = Some x"
proof -
  obtain ws where "m (buffers v ! tid) = Some ws" "length ws = word_count v"
    using assms(1) nth_mem [OF assms(2)] unfolding store_ok_def by blast
  then show ?thesis using assms(3) by (simp add: size_t_load_def)
qed

lemma random_offset_ok:
  assumes "rand_type q = DIST_TYPE_UNIFORM" "0 \<le> n" "n < 0xFFFFFFFF"
  shows "\<exists>off s'. sb_rand_default (ieee_ops f p) q 0 (word_of_int n) s = Some (off, s') \<and> unat off < nat (n + 1)"
proof -
  let ?b = "word_of_int n :: u32"
  have b: "uint ?b = n" using assms(2,3) by (simp add: uint_word_of_int)
  then have u: "unat ?b = nat n" by (metis unat_eq_nat_uint)
  obtain off s' where o: "sb_rand_uniform (ieee_ops f p) 0 ?b s = (off, s')"
    by (cases "sb_rand_uniform (ieee_ops f p) 0 ?b s")
  have "?b < 0xFFFFFFFF" using b assms(3) by (simp add: word_less_def)
  with uniform_bounds [of 0 ?b f p s] o have "off \<le> ?b" by (simp add: same_binade_def)
  then have "unat off \<le> nat n" using u by (simp add: word_le_nat_alt)
  then show ?thesis using assms(1,2) o by (auto simp: sb_rand_default_def)
qed

lemma memory_event_ok:
  assumes "rand_type q = DIST_TYPE_UNIFORM" "0 \<le> max_offset v" "max_offset v < 0xFFFFFFFF"
    and "store_ok v m" "tid < length (buffers v)"
  shows "\<exists>m' s'. memory_execute_event (ieee_ops f p) q v tid (m, s) = Some (m', s') \<and> store_ok v m'"
proof -
  let ?P = "\<lambda>st :: mem_state. store_ok v (fst st)"
  note off = random_offset_ok [OF assms(1-3), of f p]
  have rnd: "\<exists>st'. (case st of (m, s) \<Rightarrow> do { (off, s) \<leftarrow> sb_rand_default (ieee_ops f p) q 0 (word_of_int (max_offset v)) s;
      m \<leftarrow> g off m; Some (m, s) }) = Some st' \<and> ?P st'"
    if pst: "?P st" and g: "\<And>off m. store_ok v m \<Longrightarrow> unat off < word_count v \<Longrightarrow> \<exists>m'. g off m = Some m' \<and> store_ok v m'"
    for st and g :: "u32 \<Rightarrow> store \<Rightarrow> store option"
  proof -
    obtain m s where st: "st = (m, s)" by (cases st)
    obtain o1 s1 where o: "sb_rand_default (ieee_ops f p) q 0 (word_of_int (max_offset v)) s = Some (o1, s1)" "unat o1 < word_count v"
      using off by blast
    obtain m' where "g o1 m = Some m'" "store_ok v m'" using g [OF pst o(2)] st by auto
    then show ?thesis using o(1) st by simp
  qed
  have "\<exists>st'. memory_execute_event (ieee_ops f p) q v tid (m, s) = Some st' \<and> ?P st'"
  proof (cases "execute_event v")
    case Event_rnd_none
    show ?thesis
      unfolding memory_execute_event_def Event_rnd_none mem_event.case event_rnd_none_def
      using rnd [of _ "\<lambda>off m. Some m"] assms(4) by (intro fold_opt_total) simp_all
  next
    case Event_rnd_read
    show ?thesis
      unfolding memory_execute_event_def Event_rnd_read mem_event.case event_rnd_read_def
    proof (rule fold_opt_total)
      show "?P (m, s)" using assms(4) by simp
      fix i :: nat and st :: mem_state
      assume "?P st"
      then show "\<exists>st'. (case st of (m, s) \<Rightarrow> do { (off, s) \<leftarrow> sb_rand_default (ieee_ops f p) q 0 (word_of_int (max_offset v)) s;
          x \<leftarrow> size_t_load (buffers v ! tid) (unat off) m; Some (m, s) }) = Some st' \<and> ?P st'"
        using rnd [of st "\<lambda>off m. do { x \<leftarrow> size_t_load (buffers v ! tid) (unat off) m; Some m }"]
          size_t_load_ok [OF _ assms(5)] by (fastforce simp: bind_assoc)
    qed
  next
    case Event_rnd_write
    show ?thesis
      unfolding memory_execute_event_def Event_rnd_write mem_event.case event_rnd_write_def
      using rnd [of _ "\<lambda>off. size_t_store (buffers v ! tid) (unat off) (of_nat i)" for i]
        size_t_store_ok [OF _ assms(5)] assms(4) by (intro fold_opt_total) simp_all
  next
    case Event_seq_none
    show ?thesis
      unfolding memory_execute_event_def Event_seq_none mem_event.case event_seq_none_def
      using assms(4) by (intro fold_opt_total) simp_all
  next
    case Event_seq_read
    show ?thesis
      unfolding memory_execute_event_def Event_seq_read mem_event.case event_seq_read_def
    proof (rule fold_opt_total)
      show "?P (m, s)" using assms(4) by simp
      fix i and st :: mem_state
      assume "i \<in> set [0..<nat (max_offset v)]" "?P st"
      moreover from this have "i < word_count v" by simp
      ultimately show "\<exists>st'. (case st of (m, s) \<Rightarrow> do { x \<leftarrow> size_t_load (buffers v ! tid) i m; Some (m, s) }) = Some st' \<and> ?P st'"
        using size_t_load_ok [OF _ assms(5)] by (cases st) fastforce
    qed
  next
    case Event_seq_write
    show ?thesis
      unfolding memory_execute_event_def Event_seq_write mem_event.case event_seq_write_def
    proof (rule fold_opt_total)
      show "?P (m, s)" using assms(4) by simp
      fix i and st :: mem_state
      assume "i \<in> set [0..<nat (max_offset v)]" "?P st"
      moreover obtain m s where st: "st = (m, s)" by (cases st)
      ultimately obtain m' where "size_t_store (buffers v ! tid) i (of_nat tid) m = Some m'" "store_ok v m'"
        using size_t_store_ok [OF _ assms(5), of m i "of_nat tid"] nat_mono [of "max_offset v" "max_offset v + 1"] by auto
      then show "\<exists>st'. (case st of (m, s) \<Rightarrow> do { m \<leftarrow> size_t_store (buffers v ! tid) i (of_nat tid) m; Some (m, s) }) = Some st' \<and> ?P st'"
        using st by simp
    qed
  qed
  then show ?thesis by auto
qed

lemma events_until_null_count:
  assumes "0 < memory_total_size v" "tid < length (thread_counters v)" "unat (thread_counters v ! tid) = n"
  shows "events_until_null (Suc n) tid v = Some n"
  using assms
proof (induction n arbitrary: v)
  case 0
  then show ?case by (simp add: memory_next_event_def unat_eq_0)
next
  case (Suc n)
  let ?c = "thread_counters v ! tid"
  let ?v = "v\<lparr>thread_counters := (thread_counters v)[tid := ?c - 1]\<rparr>"
  have c: "?c \<noteq> 0" using Suc.prems(3) by auto
  then have "unat (?c - 1) = n" using Suc.prems(3) by (simp add: unat_minus_one)
  then have "events_until_null (Suc n) tid ?v = Some n"
    using Suc.IH [of ?v] Suc.prems by simp
  with c Suc.prems(1) show ?case
    by (subst events_until_null.simps) (simp add: memory_next_event_def del: events_until_null.simps)
qed


text \<open>
  C35 (memory_events_limited): with a positive total size every thread gets exactly
  its share of the events, rounded down, and then none; all threads together transfer at most
  the total size.
\<close>

theorem memory_events_limited:
  assumes "memory_init os lp threads opts v m w = (Inr (v', m', e), w')"
    and "0 < memory_total_size v'" "tid < unat threads"
  defines "n \<equiv> nat (memory_total_size v') div nat (memory_block_size v') div unat threads"
  shows "events_until_null (Suc n) tid v' = Some n \<and>
    int (unat threads) * int n * memory_block_size v' \<le> memory_total_size v'"
proof -
  note ok = memory_init_ok [OF assms(1), THEN conjunct1, unfolded mem_ok_def]
  have b: "0 < memory_block_size v'" using ok by auto
  define T B t where "T = nat (memory_total_size v')" and "B = nat (memory_block_size v')" and "t = unat threads"
  have int: "memory_total_size v' = int T" "memory_block_size v' = int B"
    using assms(2) b by (simp_all add: T_def B_def)
  have n: "n = T div B div t" by (simp add: n_def T_def B_def t_def)
  have nT: "n \<le> T" unfolding n using div_le_dividend order_trans by blast
  have "thread_events v' t = of_nat n"
    by (simp add: thread_events_def Let_def int n zdiv_int [symmetric])
  moreover have "unat (of_nat n :: u64) = n"
  proof -
    have "n < 2 ^ 64" using nT ok int by auto
    then show ?thesis by (simp add: unat_of_nat)
  qed
  ultimately have "unat (thread_counters v' ! tid) = n" "tid < length (thread_counters v')"
    using ok assms(3) by (simp_all add: t_def)
  moreover have "int t * int n * int B \<le> int T"
  proof -
    have "T div B div t * t \<le> T div B" by (rule div_times_less_eq_dividend)
    then have "t * n * B \<le> T div B * B" unfolding n by (intro mult_le_mono1) (simp add: mult.commute)
    also have "\<dots> \<le> T" by (rule div_times_less_eq_dividend)
    finally show ?thesis by (metis of_nat_le_iff of_nat_mult)
  qed
  ultimately show ?thesis
    using events_until_null_count assms(2) int by (simp add: t_def)
qed

text \<open>Deviations: sequential accesses leave out the last word, and large pages are not rounded up.\<close>

lemma seq_write_skips_last:
  assumes "m (buffers v ! tid) = Some ws" "length ws = Suc n" "max_offset v = int n"
  shows "event_seq_write v tid (m, s) = Some (m(buffers v ! tid \<mapsto> replicate n (of_nat tid) @ [ws ! n]), s)"
proof -
  let ?a = "buffers v ! tid"
  let ?f = "\<lambda>i (m, s). do { m \<leftarrow> size_t_store ?a i (of_nat tid) m; Some (m, s) }"
  have "k \<le> n \<Longrightarrow> fold_opt ?f [0..<k] (m, s) = Some (m(?a \<mapsto> replicate k (of_nat tid) @ drop k ws), s)" for k
  proof (induction k)
    case 0
    then show ?case using assms(1) by (simp add: fun_upd_idem)
  next
    case (Suc k)
    have "(replicate k x @ drop k ws)[k := x] = replicate (Suc k) x @ drop (Suc k) ws" for x
      using Suc.prems assms(2)
      by (simp add: list_update_append Cons_nth_drop_Suc [symmetric] replicate_append_same [symmetric])
    with Suc assms(2) show ?case by (simp add: size_t_store_def fun_eq_iff)
  qed
  from this [of n] show ?thesis
    using assms(2,3) by (simp add: event_seq_write_def Cons_nth_drop_Suc [symmetric])
qed

lemma hugetlb_too_small: "hugetlb_size (8 * 1024 * 1024) = 8 * 1024 * 1024 - 1"
  by (simp add: hugetlb_size_def LARGE_PAGE_SIZE_def)

lemma mem_opts_values:
  "memory_options False mem_opts mem_vars0 = Inr (mem_vars0\<lparr>memory_block_size := 16, memory_total_size := 100,
     memory_scope := SB_MEM_SCOPE_LOCAL, memory_oper := SB_MEM_OP_WRITE, memory_access_rnd := True, max_offset := 1\<rparr>)"
  by code_simp

lemma mem_init_witness:
  "memory_init mem_ram_os False 2 mem_opts mem_vars0 Map.empty 0 =
    (Inr (mem_vars0\<lparr>memory_block_size := 16, memory_total_size := 100,
       memory_scope := SB_MEM_SCOPE_LOCAL, memory_oper := SB_MEM_OP_WRITE, memory_access_rnd := True, max_offset := 1,
       buffers := [0, 1], thread_counters := [3, 3], execute_event := Event_rnd_write\<rparr>,
       [0 \<mapsto> [0, 0], 1 \<mapsto> [0, 0]], 0), 2)"
proof -
  have "[0..<2] = [0, 1 :: nat]" "replicate 2 0 = [0, 0 :: u64]" by (simp_all add: upt_rec numeral_2_eq_2)
  then show ?thesis
    unfolding memory_init_def mem_opts_values
    by (simp add: alloc_block_def mem_ram_os_def mem_vars0_def zero_block_def SIZEOF_SIZE_T_def thread_events_def
        select_event_def)
qed


theorem memory_events_limited_witness:
  "let (r, w) = memory_init mem_ram_os False 2 mem_opts mem_vars0 Map.empty 0; (v', m', e) = projr r
   in events_until_null (Suc 3) 1 v' = Some 3"
  using memory_events_limited [OF mem_init_witness, of 1]
  unfolding mem_init_witness by (simp add: mem_vars0_def del: events_until_null.simps)

end
