(* ===== verification/SB_Globals.thy ===== *)
theory SB_Globals
  imports SB_Options
begin

text \<open>
  The global variables of the program, \<open>sb_globals_t\<close> of \<open>src/src/sysbench.h\<close>.  The record is
  extended by the static variables of the logger and of the benchmark core, so that the
  operations of each part work on the state of the whole program.  The flags of type \<open>int\<close> and
  \<open>unsigned char\<close> are booleans; \<open>argc\<close>, \<open>argv\<close> and the mutex are left out.
\<close>

definition MAX_CHECKPOINTS :: nat where
  "MAX_CHECKPOINTS = 256"

record sb_globals_t =
  g_error :: bool
  g_tx_rate :: u32
  g_max_events :: u64
  g_max_time_ns :: u64
  g_testname :: "string option"
  g_cmdname :: "string option"
  g_threads :: u32
  g_threads_running :: u32
  g_report_interval :: u32
  g_percentile :: u32
  g_histogram :: bool
  g_checkpoints :: "u32 list"
  g_n_checkpoints :: u32
  g_debug :: bool
  g_timeout :: u32
  g_validate :: bool
  g_verbosity :: u8
  g_concurrency :: int
  g_force_shutdown :: bool
  g_forced_shutdown_in_progress :: bool
  g_warmup_time :: int
  g_nevents :: u64
  g_luajit_cmd :: "string option"

text \<open>The variables before \<open>main\<close> starts: all zero.\<close>

definition sb_globals0 :: sb_globals_t where
  "sb_globals0 = \<lparr>g_error = False, g_tx_rate = 0, g_max_events = 0, g_max_time_ns = 0, g_testname = None,
     g_cmdname = None, g_threads = 0, g_threads_running = 0, g_report_interval = 0, g_percentile = 0,
     g_histogram = False, g_checkpoints = replicate MAX_CHECKPOINTS 0, g_n_checkpoints = 0, g_debug = False,
     g_timeout = 0, g_validate = False, g_verbosity = 0, g_concurrency = 0, g_force_shutdown = False,
     g_forced_shutdown_in_progress = False, g_warmup_time = 0, g_nevents = 0, g_luajit_cmd = None\<rparr>"

end
