(* ===== verification/SB_Logger.thy ===== *)
theory SB_Logger
  imports SB_Histogram SB_Globals
begin

text \<open>
  The logger, \<open>src/src/sb_logger.c\<close> and \<open>src/src/sb_logger.h\<close>.

  The static variables extend the globals of the program.  What \<open>printf\<close> writes is the list
  \<open>printed\<close> of its calls.  The formatting of a message is done by the C library: a message is
  the text that its format and arguments give, or a failure of \<open>vsnprintf\<close> with what it left in
  the buffer.  The two handlers of the source are the values of a data type.
\<close>

section \<open>Data\<close>

definition TEXT_BUFFER_SIZE :: nat where
  "TEXT_BUFFER_SIZE = 4096"

definition OPER_LOG_GRANULARITY :: nat where
  "OPER_LOG_GRANULARITY = 1024"

datatype log_msg_type_t = LOG_MSG_TYPE_MIN | LOG_MSG_TYPE_TEXT | LOG_MSG_TYPE_OPER | LOG_MSG_TYPE_MAX

fun msg_type_index :: "log_msg_type_t \<Rightarrow> nat" where
  "msg_type_index LOG_MSG_TYPE_MIN = 0"
| "msg_type_index LOG_MSG_TYPE_TEXT = 1"
| "msg_type_index LOG_MSG_TYPE_OPER = 2"
| "msg_type_index LOG_MSG_TYPE_MAX = 3"

datatype log_msg_priority_t = LOG_FATAL | LOG_ALERT | LOG_WARNING | LOG_NOTICE | LOG_INFO | LOG_DEBUG | LOG_MAX

fun priority_index :: "log_msg_priority_t \<Rightarrow> nat" where
  "priority_index LOG_FATAL = 0"
| "priority_index LOG_ALERT = 1"
| "priority_index LOG_WARNING = 2"
| "priority_index LOG_NOTICE = 3"
| "priority_index LOG_INFO = 4"
| "priority_index LOG_DEBUG = 5"
| "priority_index LOG_MAX = 6"

text \<open>\<open>allow_duplicates\<close> is the flag \<open>LOG_MSG_TEXT_ALLOW_DUPLICATES\<close>.\<close>

record log_msg_text_t =
  msg_priority :: log_msg_priority_t
  msg_text :: string
  allow_duplicates :: bool

datatype log_handler_t = Text_handler | Oper_handler

record 'd log_state = sb_globals_t +
  handlers :: "log_handler_t list list"
  log_initialized :: bool
  text_cnt :: u32
  text_buf :: string
  printed :: "string list"
  sb_latency_histogram :: "'d sb_histogram_t"

definition text_handler_args :: "sb_arg_t list" where
  "text_handler_args =
    [sb_opt ''verbosity'' ''verbosity level {5 - debug, 0 - only critical messages}'' (Some ''3'') SB_ARG_TYPE_INT]"

definition oper_handler_args :: "sb_arg_t list" where
  "oper_handler_args =
    [sb_opt ''percentile'' (''percentile to calculate in latency statistics (1-100). '' @
       ''Use the special value of 0 to disable percentile calculations'') (Some ''95'') SB_ARG_TYPE_INT,
     sb_opt ''histogram'' ''print latency histogram in report'' (Some ''off'') SB_ARG_TYPE_BOOL]"

fun handler_args :: "log_handler_t \<Rightarrow> sb_arg_t list" where
  "handler_args Text_handler = text_handler_args"
| "handler_args Oper_handler = oper_handler_args"

section \<open>Handlers\<close>

definition printf :: "string \<Rightarrow> ('d, 'z) log_state_scheme \<Rightarrow> ('d, 'z) log_state_scheme" where
  "printf out s = s\<lparr>printed := printed s @ [out]\<rparr>"

fun get_msg_prefix :: "log_msg_priority_t \<Rightarrow> string" where
  "get_msg_prefix LOG_FATAL = ''FATAL: ''"
| "get_msg_prefix LOG_ALERT = ''ALERT: ''"
| "get_msg_prefix LOG_WARNING = ''WARNING: ''"
| "get_msg_prefix LOG_DEBUG = ''DEBUG: ''"
| "get_msg_prefix _ = []"

definition repeated_line :: "u32 \<Rightarrow> string" where
  "repeated_line n = ''(last message repeated '' @ print_dec (unat n) @ '' times)'' @ [newline]"

text \<open>The texts of \<open>log_text\<close> fit into the buffer, so that \<open>strncpy\<close> copies all of them.\<close>

definition text_handler_process :: "log_msg_text_t \<Rightarrow> ('d, 'z) log_state_scheme \<Rightarrow> ('d, 'z) log_state_scheme" where
  "text_handler_process msg s =
     (if priority_index (msg_priority msg) > unat (g_verbosity s) then s
      else if \<not> allow_duplicates msg \<and> text_buf s = msg_text msg then s\<lparr>text_cnt := text_cnt s + 1\<rparr>
      else
        let s = (if allow_duplicates msg then s
                 else (if text_cnt s > 0 then printf (repeated_line (text_cnt s)) s else s)
                        \<lparr>text_cnt := 0, text_buf := take TEXT_BUFFER_SIZE (msg_text msg)\<rparr>)
        in printf (get_msg_prefix (msg_priority msg) @ msg_text msg) s)"

text \<open>The result is the return code and the state; \<open>exit\<close> inside a getter is an error.\<close>

definition text_handler_init ::
  "options \<Rightarrow> ('d, 'z) log_state_scheme \<Rightarrow> exit_failure + bool \<times> ('d, 'z) log_state_scheme"
where
  "text_handler_init opts s =
     check (sb_get_value_int opts ''verbosity'') (\<lambda>v.
       let s = s\<lparr>g_verbosity := word_of_int v\<rparr>
       in if unat (g_verbosity s) > priority_index LOG_DEBUG
          then Inr (True, printf (''Invalid value for verbosity: '' @ print_dec (unat (g_verbosity s)) @ [newline]) s)
          else Inr (False, s\<lparr>text_cnt := 0, text_buf := []\<rparr>))"

section \<open>Messages\<close>

datatype formatted = Formatted string | Format_error string

text \<open>
  Appending a line to a buffer with \<open>room\<close> bytes left: the text, cut so that the terminating zero
  fits, and a newline if there is still room for it.
\<close>

definition line_in :: "nat \<Rightarrow> formatted \<Rightarrow> string" where
  "line_in room m =
     (case m of
        Formatted t \<Rightarrow> if length t + 1 < room then t @ [newline] else take (room - 1) t
      | Format_error junk \<Rightarrow> take (room - 1) junk)"

fun handler_process :: "log_handler_t \<Rightarrow> (log_msg_text_t \<Rightarrow> ('d, 'z) log_state_scheme \<Rightarrow> ('d, 'z) log_state_scheme) option" where
  "handler_process Text_handler = Some text_handler_process"
| "handler_process Oper_handler = None"

definition log_msg :: "log_msg_type_t \<Rightarrow> log_msg_text_t \<Rightarrow> ('d, 'z) log_state_scheme \<Rightarrow> ('d, 'z) log_state_scheme" where
  "log_msg type msg s =
     fold (\<lambda>h s. case handler_process h of None \<Rightarrow> s | Some process \<Rightarrow> process msg s)
       (handlers s ! msg_type_index type) s"

definition log_text :: "log_msg_priority_t \<Rightarrow> formatted \<Rightarrow> ('d, 'z) log_state_scheme \<Rightarrow> ('d, 'z) log_state_scheme" where
  "log_text priority m s =
     (let buf = line_in TEXT_BUFFER_SIZE m
      in if \<not> log_initialized s then printf (get_msg_prefix priority @ buf) s
         else log_msg LOG_MSG_TYPE_TEXT \<lparr>msg_priority = priority, msg_text = buf, allow_duplicates = False\<rparr> s)"

text \<open>\<open>stamp\<close> is the text of the seconds, formatted by \<open>%.0f\<close>.\<close>

definition log_timestamp ::
  "log_msg_priority_t \<Rightarrow> string \<Rightarrow> formatted \<Rightarrow> ('d, 'z) log_state_scheme \<Rightarrow> ('d, 'z) log_state_scheme"
where
  "log_timestamp priority stamp m s =
     (let pre = ''[ '' @ stamp @ ''s ] '';
          buf = pre @ line_in (TEXT_BUFFER_SIZE - length pre) m
      in if \<not> log_initialized s then printf (get_msg_prefix priority @ buf) s
         else log_msg LOG_MSG_TYPE_TEXT \<lparr>msg_priority = priority, msg_text = buf, allow_duplicates = True\<rparr> s)"

text \<open>
  \<open>errno\<close> and the text of the error are arguments.  A message longer than the buffer makes the
  code write behind its end: that run has no result.
\<close>

definition log_errno ::
  "int \<Rightarrow> string \<Rightarrow> log_msg_priority_t \<Rightarrow> formatted \<Rightarrow> ('d, 'z) log_state_scheme \<Rightarrow> ('d, 'z) log_state_scheme option"
where
  "log_errno old_errno tmp priority m s =
     (case m of
        Format_error junk \<Rightarrow> Some s
      | Formatted t \<Rightarrow>
          if length t = TEXT_BUFFER_SIZE then Some s
          else if length t > TEXT_BUFFER_SIZE then None
          else
            let tail = '' errno = '' @ print_int old_errno @ '' ('' @ tmp @ '')''
            in Some (log_text priority (Formatted (t @ take (TEXT_BUFFER_SIZE - length t - 1) tail)) s))"

section \<open>Starting and stopping\<close>

definition oper_handler_init ::
  "'d fp_ops \<Rightarrow> bool \<Rightarrow> options \<Rightarrow> ('d, 'z) log_state_scheme \<Rightarrow> exit_failure + bool \<times> ('d, 'z) log_state_scheme"
where
  "oper_handler_init fp alloc_ok opts s =
     check (sb_get_value_int opts ''percentile'') (\<lambda>tmp.
       if tmp < 0 \<or> tmp > 100
       then Inr (True, log_text LOG_FATAL (Formatted (''Invalid value for --percentile: '' @ print_int tmp)) s)
       else
         let s = s\<lparr>g_percentile := word_of_int tmp, g_histogram := sb_get_value_flag opts ''histogram''\<rparr>
         in if g_percentile s = 0 \<and> g_histogram s
            then Inr (True, log_text LOG_FATAL (Formatted ''--histogram cannot be used with --percentile=0'') s)
            else
              let (h, rc) = sb_histogram_init fp alloc_ok OPER_LOG_GRANULARITY (fp_of fp (1 / 1000)) (fp_of fp 100000)
                    (sb_latency_histogram s)
              in Inr (rc \<noteq> 0, s\<lparr>sb_latency_histogram := h\<rparr>))"

fun handler_init ::
  "'d fp_ops \<Rightarrow> bool \<Rightarrow> options \<Rightarrow> log_handler_t \<Rightarrow> ('d, 'z) log_state_scheme \<Rightarrow> exit_failure + bool \<times> ('d, 'z) log_state_scheme"
where
  "handler_init fp alloc_ok opts Text_handler s = text_handler_init opts s"
| "handler_init fp alloc_ok opts Oper_handler s = oper_handler_init fp alloc_ok opts s"

definition log_add_handler ::
  "file_system \<Rightarrow> log_msg_type_t \<Rightarrow> log_handler_t \<Rightarrow> options \<Rightarrow> ('d, 'z) log_state_scheme \<Rightarrow>
     bool \<times> options \<times> ('d, 'z) log_state_scheme"
where
  "log_add_handler fs type handler opts s =
     (let t = msg_type_index type
      in if t \<le> msg_type_index LOG_MSG_TYPE_MIN \<or> t \<ge> msg_type_index LOG_MSG_TYPE_MAX then (True, opts, s)
         else (False, fst (sb_register_arg_set fs (handler_args handler) opts),
               s\<lparr>handlers := (handlers s)[t := handlers s ! t @ [handler]]\<rparr>))"

definition log_register ::
  "file_system \<Rightarrow> options \<Rightarrow> ('d, 'z) log_state_scheme \<Rightarrow> options \<times> ('d, 'z) log_state_scheme"
where
  "log_register fs opts s =
     (let s = s\<lparr>handlers := replicate (msg_type_index LOG_MSG_TYPE_MAX) []\<rparr>;
          (_, opts, s) = log_add_handler fs LOG_MSG_TYPE_TEXT Text_handler opts s;
          (_, opts, s) = log_add_handler fs LOG_MSG_TYPE_OPER Oper_handler opts s
      in (opts, s))"

definition log_print_help :: "('d, 'z) log_state_scheme \<Rightarrow> string option" where
  "log_print_help s = do {
     ts \<leftarrow> those (map (\<lambda>h. sb_print_options (handler_args h)) (concat (handlers s)));
     Some (''Log options:'' @ [newline] @ concat ts)
   }"

fun init_chain ::
  "'d fp_ops \<Rightarrow> bool \<Rightarrow> options \<Rightarrow> log_handler_t list \<Rightarrow> ('d, 'z) log_state_scheme \<Rightarrow> exit_failure + bool \<times> ('d, 'z) log_state_scheme"
where
  "init_chain fp alloc_ok opts [] s = Inr (False, s)"
| "init_chain fp alloc_ok opts (h # hs) s =
     check (handler_init fp alloc_ok opts h s) (\<lambda>(rc, s). if rc then Inr (True, s) else init_chain fp alloc_ok opts hs s)"

definition log_init ::
  "'d fp_ops \<Rightarrow> bool \<Rightarrow> options \<Rightarrow> ('d, 'z) log_state_scheme \<Rightarrow> exit_failure + bool \<times> ('d, 'z) log_state_scheme"
where
  "log_init fp alloc_ok opts s =
     check (init_chain fp alloc_ok opts (concat (handlers s)) s) (\<lambda>(rc, s).
       if rc then Inr (True, s) else Inr (False, s\<lparr>log_initialized := True\<rparr>))"

text \<open>Releasing the histogram of the second handler is not a state change of the model.\<close>

definition log_done :: "('d, 'z) log_state_scheme \<Rightarrow> ('d, 'z) log_state_scheme" where
  "log_done s = s\<lparr>log_initialized := False\<rparr>"

text \<open>A line of an ordinary message, of a message with a time stamp, and of a repetition.\<close>

datatype log_line = Line log_msg_priority_t string | Stamped log_msg_priority_t string | Repeated u32

fun render :: "log_line \<Rightarrow> string" where
  "render (Line p t) = get_msg_prefix p @ t"
| "render (Stamped p t) = get_msg_prefix p @ t"
| "render (Repeated n) = repeated_line n"

text \<open>The ordinary messages that the lines stand for, and the last one.\<close>

fun decode_line :: "string list \<times> string \<Rightarrow> log_line \<Rightarrow> string list \<times> string" where
  "decode_line (ms, cur) (Line p t) = (ms @ [t], t)"
| "decode_line (ms, cur) (Repeated n) = (ms @ replicate (unat n) cur, cur)"
| "decode_line (ms, cur) (Stamped p t) = (ms, cur)"

definition decode_lines :: "log_line list \<Rightarrow> string list \<times> string" where
  "decode_lines = foldl decode_line ([], [])"

fun stamped :: "log_line \<Rightarrow> bool" where
  "stamped (Stamped p t) = True"
| "stamped _ = False"

definition visible :: "u8 \<Rightarrow> log_msg_text_t \<Rightarrow> bool" where
  "visible v m \<longleftrightarrow> priority_index (msg_priority m) \<le> unat v"

definition ordinary_texts :: "u8 \<Rightarrow> log_msg_text_t list \<Rightarrow> string list" where
  "ordinary_texts v ms = map msg_text (filter (\<lambda>m. visible v m \<and> \<not> allow_duplicates m) ms)"

definition stamped_lines :: "u8 \<Rightarrow> log_msg_text_t list \<Rightarrow> log_line list" where
  "stamped_lines v ms =
     map (\<lambda>m. Stamped (msg_priority m) (msg_text m)) (filter (\<lambda>m. visible v m \<and> allow_duplicates m) ms)"

definition log_rep :: "string list \<Rightarrow> log_msg_text_t list \<Rightarrow> log_line list \<Rightarrow> ('d, 'z) log_state_scheme \<Rightarrow> bool" where
  "log_rep p0 ms ls s \<longleftrightarrow> printed s = p0 @ map render ls \<and> filter stamped ls = stamped_lines (g_verbosity s) ms \<and>
     unat (text_cnt s) \<le> length ms \<and> snd (decode_lines ls) = text_buf s \<and>
     fst (decode_lines ls) @ replicate (unat (text_cnt s)) (text_buf s) = ordinary_texts (g_verbosity s) ms"

text \<open>A logger state for the witnesses.\<close>

definition log_state0 :: "u8 \<Rightarrow> rat log_state" where
  "log_state0 v = \<lparr>g_error = False, g_tx_rate = 0, g_max_events = 0, g_max_time_ns = 0, g_testname = None,
     g_cmdname = None, g_threads = 0, g_threads_running = 0, g_report_interval = 0, g_percentile = 0,
     g_histogram = False, g_checkpoints = [], g_n_checkpoints = 0, g_debug = False,
     g_timeout = 0, g_validate = False, g_verbosity = v, g_concurrency = 0, g_force_shutdown = False,
     g_forced_shutdown_in_progress = False, g_warmup_time = 0, g_nevents = 0, g_luajit_cmd = None,
     handlers = [[], [Text_handler], [Oper_handler]], log_initialized = True, text_cnt = 0, text_buf = [], printed = [],
     sb_latency_histogram = \<lparr>cumulative_array = [], cumulative_nevents = 0, temp_array = [], interm_slots = [],
       array_size = 0, range_min = 0, range_max = 0, range_deduct = 0, range_mult = 0, hist_locked = False\<rparr>\<rparr>"

section \<open>What the printed lines tell\<close>

lemma decode_lines_snoc: "decode_lines (ls @ [l]) = decode_line (decode_lines ls) l"
  by (simp add: decode_lines_def)

lemma decode_lines_Nil [simp]: "decode_lines [] = ([], [])"
  by (simp add: decode_lines_def)

lemma printf_sel [simp]:
  "printed (printf x s) = printed s @ [x]" "text_cnt (printf x s) = text_cnt s" "text_buf (printf x s) = text_buf s"
  "g_verbosity (printf x s) = g_verbosity s" "handlers (printf x s) = handlers s"
  "log_initialized (printf x s) = log_initialized s"
  by (simp_all add: printf_def)

lemma process_verbosity [simp]: "g_verbosity (text_handler_process m s) = g_verbosity s"
  by (simp add: text_handler_process_def Let_def)

lemma log_rep_step:
  assumes "log_rep p0 ms ls s" "length (msg_text m) \<le> TEXT_BUFFER_SIZE" "length ms < 2 ^ 32 - 1"
  shows "\<exists>ls'. log_rep p0 (ms @ [m]) ls' (text_handler_process m s)"
proof -
  let ?v = "g_verbosity s"
  obtain acc where s: "printed s = p0 @ map render ls" "filter stamped ls = stamped_lines ?v ms"
    "unat (text_cnt s) \<le> length ms" "decode_lines ls = (acc, text_buf s)"
    "acc @ replicate (unat (text_cnt s)) (text_buf s) = ordinary_texts ?v ms"
    using assms(1) by (cases "decode_lines ls") (auto simp: log_rep_def)
  consider (hidden) "\<not> visible ?v m" | (stamp) "visible ?v m" "allow_duplicates m"
    | (same) "visible ?v m" "\<not> allow_duplicates m" "text_buf s = msg_text m"
    | (new) "visible ?v m" "\<not> allow_duplicates m" "text_buf s \<noteq> msg_text m"
    by blast
  then show ?thesis
  proof cases
    case hidden
    then have "text_handler_process m s = s" by (simp add: text_handler_process_def visible_def)
    with hidden s show ?thesis
      by (intro exI [of _ ls]) (simp add: log_rep_def stamped_lines_def ordinary_texts_def)
  next
    case stamp
    then have "text_handler_process m s = printf (get_msg_prefix (msg_priority m) @ msg_text m) s"
      by (simp add: text_handler_process_def visible_def)
    with stamp s show ?thesis
      by (intro exI [of _ "ls @ [Stamped (msg_priority m) (msg_text m)]"])
        (simp add: log_rep_def stamped_lines_def ordinary_texts_def decode_lines_snoc)
  next
    case same
    then have p: "text_handler_process m s = s\<lparr>text_cnt := text_cnt s + 1\<rparr>"
      by (simp add: text_handler_process_def visible_def)
    have "unat (text_cnt s + 1) = unat (text_cnt s) + 1"
      using s(3) assms(3) by (subst unat_add_lem [THEN iffD1]) simp_all
    moreover have "acc @ replicate (Suc n) x = (acc @ replicate n x) @ [x]" for n x
      by (simp add: replicate_append_same)
    ultimately show ?thesis
      using same s p
      by (intro exI [of _ ls])
        (simp add: log_rep_def stamped_lines_def ordinary_texts_def del: replicate_Suc append_assoc)
  next
    case new
    have "text_handler_process m s = printf (get_msg_prefix (msg_priority m) @ msg_text m)
        ((if text_cnt s > 0 then printf (repeated_line (text_cnt s)) s else s)\<lparr>text_cnt := 0, text_buf := msg_text m\<rparr>)"
      using new assms(2) by (simp add: text_handler_process_def visible_def)
    note p = this
    have d: "decode_lines (ls @ [l, l']) = decode_line (decode_line (decode_lines ls) l) l'" for l l'
      using decode_lines_snoc [of "ls @ [l]" l'] by (simp add: decode_lines_snoc)
    show ?thesis
    proof (cases "text_cnt s > 0")
      case True
      with new s p d show ?thesis
        by (intro exI [of _ "ls @ [Repeated (text_cnt s), Line (msg_priority m) (msg_text m)]"])
          (simp add: log_rep_def stamped_lines_def ordinary_texts_def)
    next
      case False
      then have "text_cnt s = 0" by (simp add: word_gt_0)
      with new s p False show ?thesis
        by (intro exI [of _ "ls @ [Line (msg_priority m) (msg_text m)]"])
          (simp add: log_rep_def stamped_lines_def ordinary_texts_def decode_lines_snoc)
    qed
  qed
qed

lemma log_rep_run:
  assumes "log_rep p0 ms ls s" "\<forall>m \<in> set ns. length (msg_text m) \<le> TEXT_BUFFER_SIZE" "length ms + length ns < 2 ^ 32"
  shows "\<exists>ls'. log_rep p0 (ms @ ns) ls' (fold text_handler_process ns s)"
  using assms
proof (induction ns arbitrary: ms ls s)
  case Nil
  then show ?case by auto
next
  case (Cons m ns)
  then obtain ls' where "log_rep p0 (ms @ [m]) ls' (text_handler_process m s)"
    using log_rep_step [of p0 ms ls s m] by auto
  from Cons.IH [OF this] Cons.prems show ?case by simp
qed

lemma line_in_length: "0 < room \<Longrightarrow> length (line_in room m) < room"
  by (auto simp: line_in_def split: formatted.splits)


text \<open>The ranges that a successful start of the logger establishes.\<close>

lemma log_init_ranges:
  assumes "log_init fp alloc_ok (fst r) (snd r) = Inr (False, s')" "r = log_register fs opts s"
  shows "unat (g_verbosity s') \<le> 5" "g_percentile s' \<le> 100" "g_percentile s' = 0 \<Longrightarrow> \<not> g_histogram s'"
    "log_initialized s'"
proof -
  have h: "concat (handlers (snd r)) = [Text_handler, Oper_handler]"
    by (simp add: assms(2) log_register_def log_add_handler_def Let_def numeral_3_eq_3)
  from assms(1) obtain s1 s2 where
    1: "text_handler_init (fst r) (snd r) = Inr (False, s1)" and
    2: "oper_handler_init fp alloc_ok (fst r) s1 = Inr (False, s2)" and s': "s' = s2\<lparr>log_initialized := True\<rparr>"
    by (auto simp: log_init_def h check_def split: sum.splits if_splits prod.splits)
  from 1 have "unat (g_verbosity s1) \<le> 5"
    by (auto simp: text_handler_init_def check_def Let_def split: sum.splits if_splits)
  moreover from 2 obtain p where p: "sb_get_value_int (fst r) ''percentile'' = Inr p" "0 \<le> p" "p \<le> 100"
    and "g_percentile s2 = word_of_int p" "g_verbosity s2 = g_verbosity s1"
    and "\<not> (g_percentile s2 = 0 \<and> g_histogram s2)"
    by (auto simp: oper_handler_init_def check_def Let_def split: sum.splits if_splits prod.splits)
  moreover from p have "(word_of_int p :: u32) \<le> 100"
    by (simp add: word_le_def uint_word_of_int)
  ultimately show "unat (g_verbosity s') \<le> 5" "g_percentile s' \<le> 100" "g_percentile s' = 0 \<Longrightarrow> \<not> g_histogram s'"
    "log_initialized s'"
    using s' by auto
qed

text \<open>Deviations: a verbosity of 256 is accepted as 0, and a long error message has no result.\<close>

lemma verbosity_truncated:
  "sb_get_value_int opts ''verbosity'' = Inr 256 \<Longrightarrow>
    text_handler_init opts s = Inr (False, s\<lparr>g_verbosity := 0, text_cnt := 0, text_buf := []\<rparr>)"
  by (simp add: text_handler_init_def check_def)

lemma log_errno_overflow:
  "TEXT_BUFFER_SIZE < length t \<Longrightarrow> log_errno e tmp p (Formatted t) s = None"
  by (simp add: log_errno_def)


end
