(* ===== verification/SB_Ring.thy ===== *)
theory SB_Ring
  imports SB_Prelude
begin

text \<open>
  The ring buffer that the event queue uses, \<open>src/third_party/concurrency_kit/ck/include/ck_ring.h\<close>,
  and the contract of a bounded queue.

  The producer and the consumers of the single-producer, multi-consumer interface are
  linearizable; every operation is one step of the model, in which the compare-and-swap of the
  first attempt succeeds.  The counters are 32-bit words that wrap.
\<close>

unbundle bit_operations_syntax

section \<open>Bounded queues\<close>

text \<open>One operation of a client: the elements accepted and returned so far, and the queue.\<close>

fun queue_op ::
  "('a \<Rightarrow> 'q \<Rightarrow> 'q option) \<Rightarrow> ('q \<Rightarrow> ('a \<times> 'q) option) \<Rightarrow> 'a option \<Rightarrow> 'a list \<times> 'a list \<times> 'q \<Rightarrow> 'a list \<times> 'a list \<times> 'q"
where
  "queue_op enq deq (Some x) (ins, outs, q) =
     (case enq x q of None \<Rightarrow> (ins, outs, q) | Some q' \<Rightarrow> (ins @ [x], outs, q'))"
| "queue_op enq deq None (ins, outs, q) =
     (case deq q of None \<Rightarrow> (ins, outs, q) | Some (x, q') \<Rightarrow> (ins, outs @ [x], q'))"

text \<open>
  What a client of a queue relies on.  \<open>rep q xs\<close>: the queue holds \<open>xs\<close>, the oldest element first.
\<close>

locale fifo =
  fixes rep :: "'q \<Rightarrow> 'a list \<Rightarrow> bool"
    and enq :: "'a \<Rightarrow> 'q \<Rightarrow> 'q option"
    and deq :: "'q \<Rightarrow> ('a \<times> 'q) option"
    and capacity :: nat
  assumes enq_room: "rep q xs \<Longrightarrow> length xs < capacity \<Longrightarrow> \<exists>q'. enq x q = Some q' \<and> rep q' (xs @ [x])"
    and enq_full: "rep q xs \<Longrightarrow> length xs = capacity \<Longrightarrow> enq x q = None"
    and rep_length: "rep q xs \<Longrightarrow> length xs \<le> capacity"
    and deq_empty: "rep q [] \<Longrightarrow> deq q = None"
    and deq_item: "rep q (x # xs) \<Longrightarrow> \<exists>q'. deq q = Some (x, q') \<and> rep q' xs"
begin

lemma queue_op_rep:
  assumes "rep q xs" "ins = outs @ xs" "queue_op enq deq a (ins, outs, q) = (ins', outs', q')"
  shows "\<exists>xs'. rep q' xs' \<and> ins' = outs' @ xs'"
proof (cases a)
  case (Some x)
  show ?thesis
  proof (cases "length xs < capacity")
    case True
    from enq_room [OF assms(1) True, of x] obtain q1 where "enq x q = Some q1" "rep q1 (xs @ [x])" by blast
    with Some assms(2,3) show ?thesis by auto
  next
    case False
    then have "enq x q = None" using enq_full [OF assms(1)] rep_length [OF assms(1)] by simp
    with Some assms show ?thesis by auto
  qed
next
  case None
  show ?thesis
  proof (cases xs)
    case Nil
    then show ?thesis using None assms deq_empty by auto
  next
    case (Cons x ys)
    with deq_item assms(1) obtain q1 where "deq q = Some (x, q1)" "rep q1 ys" by blast
    with None Cons assms(2,3) show ?thesis by auto
  qed
qed

lemma queue_ops_rep:
  assumes "rep q xs" "ins = outs @ xs" "fold (queue_op enq deq) as (ins, outs, q) = (ins', outs', q')"
  shows "\<exists>xs'. rep q' xs' \<and> ins' = outs' @ xs'"
  using assms
proof (induction as arbitrary: q xs ins outs)
  case Nil
  then show ?case by auto
next
  case (Cons a as)
  obtain i o1 q1 where 1: "queue_op enq deq a (ins, outs, q) = (i, o1, q1)" by (cases "queue_op enq deq a (ins, outs, q)")
  with queue_op_rep [OF Cons.prems(1,2)] obtain ys where "rep q1 ys" "i = o1 @ ys" by blast
  with Cons.IH Cons.prems(3) 1 show ?case by simp
qed

end

section \<open>The ring buffer\<close>

record ck_ring =
  c_head :: u32
  p_tail :: u32
  p_head :: u32
  ring_size :: u32
  ring_mask :: u32

definition ck_ring_size :: "ck_ring \<Rightarrow> u32" where
  "ck_ring_size ring = (p_tail ring - c_head ring) AND ring_mask ring"

definition ck_ring_init :: "u32 \<Rightarrow> ck_ring" where
  "ck_ring_init sz = \<lparr>c_head = 0, p_tail = 0, p_head = 0, ring_size = sz, ring_mask = sz - 1\<rparr>"

type_synonym 'a ring_state = "ck_ring \<times> 'a list"

definition ck_ring_enqueue_spmc :: "'a \<Rightarrow> 'a ring_state \<Rightarrow> 'a ring_state option" where
  "ck_ring_enqueue_spmc entry = (\<lambda>(ring, buffer).
     let mask = ring_mask ring; consumer = c_head ring; producer = p_tail ring; delta = producer + 1
     in if delta AND mask = consumer AND mask then None
        else Some (ring\<lparr>p_tail := delta\<rparr>, buffer[unat (producer AND mask) := entry]))"

definition ck_ring_dequeue_spmc :: "'a ring_state \<Rightarrow> ('a \<times> 'a ring_state) option" where
  "ck_ring_dequeue_spmc = (\<lambda>(ring, buffer).
     let mask = ring_mask ring; consumer = c_head ring; producer = p_tail ring
     in if consumer = producer then None
        else Some (buffer ! unat (consumer AND mask), (ring\<lparr>c_head := consumer + 1\<rparr>, buffer)))"

text \<open>The elements between the two counters.\<close>

definition ring_rep :: "nat \<Rightarrow> 'a ring_state \<Rightarrow> 'a list \<Rightarrow> bool" where
  "ring_rep k = (\<lambda>(ring, buffer) xs.
     k < 32 \<and> ring_mask ring = 2 ^ k - 1 \<and> length buffer = 2 ^ k \<and> length xs < 2 ^ k \<and>
     p_tail ring = c_head ring + of_nat (length xs) \<and>
     (\<forall>j < length xs. xs ! j = buffer ! unat ((c_head ring + of_nat j) AND (2 ^ k - 1))))"

section \<open>Lemmas\<close>

lemma and_mask_unat:
  assumes "k < 32"
  shows "unat (x AND (2 ^ k - 1 :: u32)) = unat x mod 2 ^ k"
proof -
  have "x AND (2 ^ k - 1) = take_bit k x" by (simp only: mask_eq_decr_exp [symmetric] take_bit_eq_mask)
  then have "unat (x AND (2 ^ k - 1)) = take_bit k (unat x)" by (simp only: unsigned_take_bit_eq)
  then show ?thesis by (simp only: take_bit_eq_mod)
qed

lemma and_mask_eq_iff:
  "k < 32 \<Longrightarrow> x AND (2 ^ k - 1) = y AND (2 ^ k - 1 :: u32) \<longleftrightarrow> unat x mod 2 ^ k = unat y mod 2 ^ k"
  using and_mask_unat [of k x] and_mask_unat [of k y] by (metis word_unat_eq_iff)

lemma unat_add_mod_two_power:
  assumes "k < 32"
  shows "unat (x + of_nat n :: u32) mod 2 ^ k = (unat x + n) mod 2 ^ k"
proof -
  have d: "(2 :: nat) ^ k dvd 2 ^ 32" using assms by (intro le_imp_power_dvd) simp
  have "unat (x + of_nat n) = (unat x + n) mod 2 ^ 32"
    by (simp add: unat_word_ariths(1) unat_of_nat mod_add_right_eq)
  then show ?thesis by (simp only: mod_mod_cancel [OF d])
qed

lemma ring_index_inj:
  assumes "i < m" "j < m" "(x + i) mod m = (x + j) mod (m :: nat)"
  shows "i = j"
proof -
  have *: "a = b" if "a \<le> b" "b < m" "(x + a) mod m = (x + b) mod m" for a b
  proof -
    have "m dvd (x + b) - (x + a)" using that by (intro mod_eq_dvd_iff_nat [THEN iffD1]) simp_all
    then have "m dvd b - a" by simp
    then show ?thesis using that(1,2) by (metis diff_is_0_eq' dvd_imp_le le_antisym less_imp_diff_less not_le zero_less_diff)
  qed
  show ?thesis using * [of i j] * [of j i] assms by (metis nat_le_linear)
qed

lemma ring_rep_init: "k < 32 \<Longrightarrow> length buf = 2 ^ k \<Longrightarrow> ring_rep k (ck_ring_init (2 ^ k), buf) []"
  by (simp add: ring_rep_def ck_ring_init_def)

lemma ring_full_iff:
  assumes "ring_rep k (ring, buffer) xs"
  shows "(p_tail ring + 1) AND ring_mask ring = c_head ring AND ring_mask ring \<longleftrightarrow> length xs = 2 ^ k - 1"
proof -
  have r: "k < 32" "ring_mask ring = 2 ^ k - 1" "length xs < 2 ^ k" "p_tail ring = c_head ring + of_nat (length xs)"
    using assms by (simp_all add: ring_rep_def)
  have d: "p_tail ring + 1 = c_head ring + of_nat (length xs + 1)" using r(4) by simp
  have "(p_tail ring + 1) AND ring_mask ring = c_head ring AND ring_mask ring \<longleftrightarrow>
      (unat (c_head ring) + (length xs + 1)) mod 2 ^ k = unat (c_head ring) mod 2 ^ k"
    by (simp only: d r(2) and_mask_eq_iff [OF r(1)] unat_add_mod_two_power [OF r(1)])
  also have "\<dots> \<longleftrightarrow> length xs = 2 ^ k - 1"
  proof (cases "length xs + 1 = 2 ^ k")
    case True
    then show ?thesis by simp
  next
    case False
    then have "length xs + 1 < 2 ^ k" using r(3) by simp
    then show ?thesis using ring_index_inj [of "length xs + 1" "2 ^ k" 0 "unat (c_head ring)"] False by auto
  qed
  finally show ?thesis .
qed

lemma ring_enqueue:
  assumes "ring_rep k q xs" "length xs < 2 ^ k - 1"
  shows "\<exists>q'. ck_ring_enqueue_spmc x q = Some q' \<and> ring_rep k q' (xs @ [x])"
proof -
  obtain ring buffer where q: "q = (ring, buffer)" by (cases q)
  have r: "k < 32" "ring_mask ring = 2 ^ k - 1" "length buffer = 2 ^ k"
    "p_tail ring = c_head ring + of_nat (length xs)"
    "\<And>j. j < length xs \<Longrightarrow> xs ! j = buffer ! unat ((c_head ring + of_nat j) AND (2 ^ k - 1))"
    using assms(1) by (simp_all add: q ring_rep_def)
  let ?i = "\<lambda>j. unat ((c_head ring + of_nat j) AND (2 ^ k - 1 :: u32))"
  have i: "?i j = (unat (c_head ring) + j) mod 2 ^ k" for j
    using and_mask_unat [OF r(1)] unat_add_mod_two_power [OF r(1)] by simp
  have "?i (length xs) \<noteq> ?i j" if "j < length xs" for j
    using ring_index_inj [of j "2 ^ k" "length xs" "unat (c_head ring)"] that assms(2) less_le_trans [OF assms(2) diff_le_self] unfolding i by auto
  moreover have "?i j < 2 ^ k" for j unfolding i by simp
  ultimately have "ring_rep k (ring\<lparr>p_tail := p_tail ring + 1\<rparr>, buffer[?i (length xs) := x]) (xs @ [x])"
    using r assms(2) by (auto simp: ring_rep_def nth_append less_Suc_eq add.assoc)
  moreover have "ck_ring_enqueue_spmc x q = Some (ring\<lparr>p_tail := p_tail ring + 1\<rparr>, buffer[?i (length xs) := x])"
    using ring_full_iff [of k ring buffer xs] assms r(2,4) by (simp add: q ck_ring_enqueue_spmc_def Let_def)
  ultimately show ?thesis by blast
qed

lemma ring_dequeue:
  assumes "ring_rep k q (x # xs)"
  shows "\<exists>q'. ck_ring_dequeue_spmc q = Some (x, q') \<and> ring_rep k q' xs"
proof -
  obtain ring buffer where q: "q = (ring, buffer)" by (cases q)
  have r: "k < 32" "ring_mask ring = 2 ^ k - 1" "length buffer = 2 ^ k" "Suc (length xs) < 2 ^ k"
    "p_tail ring = c_head ring + of_nat (Suc (length xs))"
    and nth: "\<And>j. j < Suc (length xs) \<Longrightarrow> (x # xs) ! j = buffer ! unat ((c_head ring + of_nat j) AND (2 ^ k - 1))"
    using assms by (simp_all add: q ring_rep_def)
  have "(of_nat (Suc (length xs)) :: u32) \<noteq> 0"
  proof -
    have "(2 :: nat) ^ k \<le> 2 ^ 32" using r(1) by (intro power_increasing) simp_all
    then have "unat (of_nat (Suc (length xs)) :: u32) = Suc (length xs)"
      using r(4) by (subst unat_of_nat) simp
    then show ?thesis by (metis nat.distinct(1) unat_0)
  qed
  then have ne: "c_head ring \<noteq> p_tail ring" using r(5) by simp
  have "ring_rep k (ring\<lparr>c_head := c_head ring + 1\<rparr>, buffer) xs"
    using r nth [of "Suc j" for j] by (simp add: ring_rep_def add.assoc)
  moreover have "ck_ring_dequeue_spmc q = Some (x, (ring\<lparr>c_head := c_head ring + 1\<rparr>, buffer))"
    using ne nth [of 0] r(2) by (simp add: q ck_ring_dequeue_spmc_def Let_def)
  ultimately show ?thesis by blast
qed

lemma ring_size_value:
  assumes "ring_rep k (ring, buffer) xs"
  shows "unat (ck_ring_size ring) = length xs"
proof -
  have r: "k < 32" "ring_mask ring = 2 ^ k - 1" "length xs < 2 ^ k" "p_tail ring = c_head ring + of_nat (length xs)"
    using assms by (simp_all add: ring_rep_def)
  then show ?thesis
    using unat_add_mod_two_power [OF r(1), of 0 "length xs"] by (simp add: ck_ring_size_def and_mask_unat)
qed

interpretation ring_queue: fifo "ring_rep k" ck_ring_enqueue_spmc ck_ring_dequeue_spmc "2 ^ k - 1"
proof unfold_locales
  fix q :: "'a ring_state" and xs x
  assume rep: "ring_rep k q xs"
  show "length xs < 2 ^ k - 1 \<Longrightarrow> \<exists>q'. ck_ring_enqueue_spmc x q = Some q' \<and> ring_rep k q' (xs @ [x])"
    by (rule ring_enqueue [OF rep])
  show "length xs \<le> 2 ^ k - 1" using rep by (cases q) (auto simp: ring_rep_def)
  show "length xs = 2 ^ k - 1 \<Longrightarrow> ck_ring_enqueue_spmc x q = None"
    using rep ring_full_iff [of k "fst q" "snd q" xs] by (cases q) (simp add: ck_ring_enqueue_spmc_def Let_def)
next
  show "ring_rep k q [] \<Longrightarrow> ck_ring_dequeue_spmc q = None" for q :: "'a ring_state"
    by (cases q) (simp add: ring_rep_def ck_ring_dequeue_spmc_def)
next
  show "ring_rep k q (x # xs) \<Longrightarrow> \<exists>q'. ck_ring_dequeue_spmc q = Some (x, q') \<and> ring_rep k q' xs"
    for q :: "'a ring_state" and x xs by (rule ring_dequeue)
qed

end
