(* ===== verification/SB_Core.thy ===== *)
theory SB_Core
  imports SB_Logger SB_Timer SB_Counter SB_Rand SB_Ring
begin

text \<open>
  The event loop of the benchmark core, \<open>src/src/sysbench.c\<close>: the limits on time and events, the
  start and the end of an event, the queue of events of the rate-limited mode with its generator
  thread, and the worker threads.

  The variables of the core extend those of the logger.  Clock readings, random words and the
  functions of the test are arguments.  The threads run by interleaving: waiting on the condition
  variable splits \<open>sb_more_events\<close> into parts, each of which is one step, as is every call of a
  function of the test and every pass of the generator.
\<close>

section \<open>State\<close>

definition MAX_QUEUE_LEN :: nat where
  "MAX_QUEUE_LEN = 131072"

record 'd core_state = "'d log_state" +
  sb_exec_timer :: sb_timer_t
  sb_intermediate_timer :: sb_timer_t
  sb_checkpoint_timer :: sb_timer_t
  thread_timers :: "sb_timer_t list"
  timers_copy :: "sb_timer_t list"
  sb_counters :: "sb_counters_t list"
  last_counters :: report_state
  queue_array :: "u64 list"
  queue_ring :: "nat ring_state"

text \<open>The functions of a test; \<open>None\<close> is a null pointer, and an event of type \<open>SB_REQ_TYPE_NULL\<close>.\<close>

record ('ev, 'w) sb_operations_t =
  op_init :: "('w \<Rightarrow> int \<times> 'w) option"
  op_prepare :: "('w \<Rightarrow> int \<times> 'w) option"
  op_thread_init :: "(nat \<Rightarrow> 'w \<Rightarrow> int \<times> 'w) option"
  op_next_event :: "nat \<Rightarrow> 'w \<Rightarrow> 'ev option \<times> 'w"
  op_execute_event :: "'ev \<Rightarrow> nat \<Rightarrow> 'w \<Rightarrow> int \<times> 'w"
  op_thread_done :: "(nat \<Rightarrow> 'w \<Rightarrow> 'w) option"
  op_cleanup :: "('w \<Rightarrow> int \<times> 'w) option"
  op_done :: "('w \<Rightarrow> 'w) option"

section \<open>Limits\<close>

definition time_limit_exceeded :: "timespec \<Rightarrow> ('d, 'z) core_state_scheme \<Rightarrow> bool" where
  "time_limit_exceeded now c \<longleftrightarrow> g_max_time_ns c > 0 \<and> sb_timer_value now (sb_exec_timer c) \<ge> g_max_time_ns c"

datatype more_events = No_more | More | Take_from_queue

text \<open>\<open>sb_more_events\<close> up to the queue.\<close>

definition more_events_begin :: "timespec \<Rightarrow> ('d, 'z) core_state_scheme \<Rightarrow> more_events \<times> ('d, 'z) core_state_scheme" where
  "more_events_begin now c =
     (if g_error c then (No_more, c)
      else if time_limit_exceeded now c
      then (No_more, log_text LOG_INFO (Formatted ''Time limit exceeded, exiting...'') c)
      else
        let max_events = g_max_events c; old = g_nevents c;
            c = (if max_events > 0 then c\<lparr>g_nevents := old + 1\<rparr> else c)
        in if max_events > 0 \<and> old \<ge> max_events
           then (No_more, log_text LOG_INFO (Formatted ''Event limit exceeded, exiting...'') c)
           else (if g_tx_rate c > 0 then Take_from_queue else More, c))"

text \<open>The condition of the loop: the pointer taken from the queue, or waiting.\<close>

datatype dequeue_result = Loop_exit "nat option" | Wait

definition more_events_dequeue :: "('d, 'z) core_state_scheme \<Rightarrow> dequeue_result \<times> ('d, 'z) core_state_scheme" where
  "more_events_dequeue c =
     (case ck_ring_dequeue_spmc (queue_ring c) of
        Some (ptr, r) \<Rightarrow> (Loop_exit (Some ptr), c\<lparr>queue_ring := r\<rparr>)
      | None \<Rightarrow> (if g_error c then Loop_exit None else Wait, c))"

text \<open>After waiting: whether to try again.\<close>

definition more_events_recheck :: "timespec \<Rightarrow> ('d, 'z) core_state_scheme \<Rightarrow> bool \<times> ('d, 'z) core_state_scheme" where
  "more_events_recheck now c =
     (if g_error c then (False, c)
      else if time_limit_exceeded now c
      then (False, log_text LOG_INFO (Formatted ''Time limit exceeded, exiting...'') c)
      else (True, c))"

text \<open>After the loop; reading through a null pointer has no result.\<close>

definition more_events_finish :: "timespec \<Rightarrow> nat \<Rightarrow> nat option \<Rightarrow> ('d, 'z) core_state_scheme \<Rightarrow> ('d, 'z) core_state_scheme option" where
  "more_events_finish now thread_id ptr c =
     (case ptr of
        None \<Rightarrow> None
      | Some p \<Rightarrow>
          let c = c\<lparr>g_concurrency := g_concurrency c + 1\<rparr>;
              t = (thread_timers c ! thread_id)\<lparr>queue_time := sb_timer_value now (sb_exec_timer c) - queue_array c ! p\<rparr>
          in Some (c\<lparr>thread_timers := (thread_timers c)[thread_id := t]\<rparr>))"

section \<open>Events\<close>

definition NS2MS :: "'d fp_ops \<Rightarrow> int \<Rightarrow> 'd" where
  "NS2MS fp nsec = fp_div fp (fp_of fp (of_int nsec)) (fp_of fp 1000000)"

definition sb_event_start :: "timespec \<Rightarrow> nat \<Rightarrow> ('d, 'z) core_state_scheme \<Rightarrow> ('d, 'z) core_state_scheme" where
  "sb_event_start now thread_id c =
     c\<lparr>thread_timers := (thread_timers c)[thread_id := sb_timer_start now (thread_timers c ! thread_id)]\<rparr>"

definition sb_event_stop :: "'d fp_ops \<Rightarrow> timespec \<Rightarrow> u64 \<Rightarrow> nat \<Rightarrow> ('d, 'z) core_state_scheme \<Rightarrow> ('d, 'z) core_state_scheme" where
  "sb_event_stop fp now rnd thread_id c =
     (let (t, elapsed) = sb_timer_stop now (thread_timers c ! thread_id);
          c = c\<lparr>thread_timers := (thread_timers c)[thread_id := t]\<rparr>;
          c = (if g_percentile c > 0
               then c\<lparr>sb_latency_histogram := sb_histogram_update fp rnd (NS2MS fp (sint elapsed)) (sb_latency_histogram c)\<rparr>
               else c);
          c = c\<lparr>sb_counters := sb_counter_inc thread_id SB_CNT_EVENT (sb_counters c)\<rparr>
      in if g_tx_rate c > 0 then c\<lparr>g_concurrency := g_concurrency c - 1\<rparr> else c)"

section \<open>The generator of events\<close>

text \<open>\<open>-lambda * log (1 - sb_rand_uniform_double ())\<close>.\<close>

definition sb_rand_exp :: "'d fp_ops \<Rightarrow> 'd \<Rightarrow> sb_rng_state_t \<Rightarrow> 'd \<times> sb_rng_state_t" where
  "sb_rand_exp fp lambda s =
     (let (d, s) = sb_rand_uniform_double fp s
      in (fp_mul fp (fp_neg fp lambda) (fp_log fp (fp_sub fp (fp_of fp 1) d)), s))"

definition interval_ns :: "'d fp_ops \<Rightarrow> u32 \<Rightarrow> sb_rng_state_t \<Rightarrow> u64 \<times> sb_rng_state_t" where
  "interval_ns fp tx_rate s =
     (let (d, s) = sb_rand_exp fp (fp_div fp (fp_of fp 1000000000) (fp_of_u32 fp tx_rate)) s
      in (word_of_int (fp_floor fp d), s))"

text \<open>The local variables of the generator thread.\<close>

record gen_vars =
  gen_i :: nat
  gen_next_ns :: u64
  gen_rng :: sb_rng_state_t

text \<open>The state before the loop.\<close>

definition eventgen_start :: "'d fp_ops \<Rightarrow> timespec \<Rightarrow> sb_rng_state_t \<Rightarrow> ('d, 'z) core_state_scheme \<Rightarrow> gen_vars \<times> ('d, 'z) core_state_scheme" where
  "eventgen_start fp now s c =
     (let c = c\<lparr>queue_ring := (ck_ring_init (of_nat MAX_QUEUE_LEN), snd (queue_ring c))\<rparr>;
          c = log_text LOG_DEBUG (Formatted ''Event generating thread started'') c;
          curr_ns = sb_timer_value now (sb_exec_timer c);
          (intr_ns, s) = interval_ns fp (g_tx_rate c) s
      in (\<lparr>gen_i = 0, gen_next_ns = curr_ns + intr_ns, gen_rng = s\<rparr>, c))"

text \<open>
  The first half of a pass of the loop: the end of the run (\<open>None\<close>), or the number of nanoseconds
  to sleep.
\<close>

definition eventgen_tick ::
  "'d fp_ops \<Rightarrow> timespec \<Rightarrow> gen_vars \<Rightarrow> ('d, 'z) core_state_scheme \<Rightarrow> u64 option \<times> gen_vars"
where
  "eventgen_tick fp now g c =
     (let curr_ns = sb_timer_value now (sb_exec_timer c);
          (intr_ns, s) = interval_ns fp (g_tx_rate c) (gen_rng g);
          g = g\<lparr>gen_rng := s, gen_next_ns := gen_next_ns g + intr_ns\<rparr>
      in if g_max_time_ns c > 0 \<and> curr_ns \<ge> g_max_time_ns c then (None, g)
         else (Some (if gen_next_ns g > curr_ns then gen_next_ns g - curr_ns else 0), g))"

text \<open>The queue as the generator fills it: the index of its next slot, the array and the ring.\<close>

type_synonym event_queue = "nat \<times> u64 list \<times> nat ring_state"

definition queue_put :: "u64 \<Rightarrow> event_queue \<Rightarrow> event_queue option" where
  "queue_put x = (\<lambda>(i, array, ring).
     let array = array[i := x]
     in case ck_ring_enqueue_spmc i ring of None \<Rightarrow> None | Some ring \<Rightarrow> Some ((i + 1) mod MAX_QUEUE_LEN, array, ring))"

definition queue_take :: "event_queue \<Rightarrow> (u64 \<times> event_queue) option" where
  "queue_take = (\<lambda>(i, array, ring).
     case ck_ring_dequeue_spmc ring of None \<Rightarrow> None | Some (p, ring) \<Rightarrow> Some (array ! p, (i, array, ring)))"

text \<open>The second half: a new event, or the error that the queue is full.\<close>

definition eventgen_put :: "timespec \<Rightarrow> gen_vars \<Rightarrow> ('d, 'z) core_state_scheme \<Rightarrow> bool \<times> gen_vars \<times> ('d, 'z) core_state_scheme" where
  "eventgen_put now g c =
     (let x = sb_timer_value now (sb_exec_timer c)
      in case queue_put x (gen_i g, queue_array c, queue_ring c) of
           Some (i, array, ring) \<Rightarrow> (True, g\<lparr>gen_i := i\<rparr>, c\<lparr>queue_array := array, queue_ring := ring\<rparr>)
         | None \<Rightarrow>
             (False, g,
              log_text LOG_FATAL (Formatted (''The event queue is full. This means the worker threads are '' @
                ''unable to keep up with the specified event generation rate''))
                (c\<lparr>queue_array := (queue_array c)[gen_i g := x], g_error := True\<rparr>)))"

section \<open>Worker threads\<close>

datatype 'ev worker_pc =
    More_events
  | Dequeue
  | Before_wait
  | Cond_wait
  | Recheck
  | Finish "nat option"
  | Next_event
  | Execute 'ev
  | Exited

record 'ev worker =
  w_pc :: "'ev worker_pc"
  w_rc :: int

datatype gen_pc = Gen_tick | Gen_put | Gen_signal | Gen_exited | Gen_absent

record ('d, 'ev, 'w) system =
  core :: "'d core_state"
  workers :: "'ev worker list"
  test_world :: 'w
  gen_pc :: gen_pc
  gen_vars :: gen_vars

text \<open>What a step reads from outside: the clock and a random word.\<close>

type_synonym input = "timespec \<times> u64"

text \<open>
  The start of a worker thread: a failing initialisation sets the error flag.  The result tells
  whether the thread goes on after the barrier.
\<close>

definition worker_thread_enter ::
  "('ev, 'w) sb_operations_t \<Rightarrow> nat \<Rightarrow> 'w \<times> ('d, 'z) core_state_scheme \<Rightarrow> bool \<times> 'w \<times> ('d, 'z) core_state_scheme"
where
  "worker_thread_enter ops thread_id = (\<lambda>(w, c).
     let msg = (\<lambda>t. log_text LOG_DEBUG (Formatted (''Worker thread (#'' @ print_dec thread_id @ t)));
         c = msg '') started'' c;
         (rc, w) = (case op_thread_init ops of None \<Rightarrow> (0, w) | Some f \<Rightarrow> f thread_id w)
     in if rc \<noteq> 0 then (False, w, (msg '') failed to initialize!'' c)\<lparr>g_error := True\<rparr>)
        else (True, w, msg '') initialized'' c))"

text \<open>The end of a worker thread, with the result of \<open>thread_run\<close>.\<close>

definition worker_thread_leave ::
  "('ev, 'w) sb_operations_t \<Rightarrow> nat \<Rightarrow> int \<Rightarrow> 'w \<times> ('d, 'z) core_state_scheme \<Rightarrow> 'w \<times> ('d, 'z) core_state_scheme"
where
  "worker_thread_leave ops thread_id rc = (\<lambda>(w, c).
     if rc \<noteq> 0 then (w, c\<lparr>g_error := True\<rparr>)
     else (case op_thread_done ops of None \<Rightarrow> w | Some f \<Rightarrow> f thread_id w, c))"

text \<open>
  A step of the loop \<open>thread_run\<close>.  \<open>rc\<close> is tested after \<open>sb_more_events\<close>; a thread that waits for the
  condition variable does not step by itself.
\<close>

definition thread_run_step ::
  "('ev, 'w) sb_operations_t \<Rightarrow> 'd fp_ops \<Rightarrow> input \<Rightarrow> nat \<Rightarrow> 'ev worker \<Rightarrow> 'w \<times> 'd core_state \<Rightarrow>
     ('ev worker \<times> 'w \<times> 'd core_state) option"
where
  "thread_run_step ops fp inp tid wk = (\<lambda>(w, c).
     let (now, rnd) = inp;
         leave = (\<lambda>c. Some (wk\<lparr>w_pc := Exited\<rparr>, worker_thread_leave ops tid (w_rc wk) (w, c)));
         go = (\<lambda>pc c. Some (wk\<lparr>w_pc := pc\<rparr>, w, c));
         loop_body = (\<lambda>c. if w_rc wk = 0 then go Next_event c else leave c)
     in case w_pc wk of
          More_events \<Rightarrow>
            (case more_events_begin now c of
               (No_more, c) \<Rightarrow> leave c
             | (More, c) \<Rightarrow> loop_body c
             | (Take_from_queue, c) \<Rightarrow> go Dequeue c)
        | Dequeue \<Rightarrow>
            (case more_events_dequeue c of
               (Loop_exit p, c) \<Rightarrow> go (Finish p) c
             | (Wait, c) \<Rightarrow> go Before_wait c)
        | Before_wait \<Rightarrow> go Cond_wait c
        | Cond_wait \<Rightarrow> None
        | Recheck \<Rightarrow>
            (case more_events_recheck now c of
               (True, c) \<Rightarrow> go Dequeue c
             | (False, c) \<Rightarrow> leave c)
        | Finish p \<Rightarrow> (case more_events_finish now tid p c of None \<Rightarrow> None | Some c \<Rightarrow> loop_body c)
        | Next_event \<Rightarrow>
            (case op_next_event ops tid w of
               (None, w) \<Rightarrow> Some (wk\<lparr>w_pc := Exited\<rparr>, worker_thread_leave ops tid (w_rc wk) (w, c))
             | (Some ev, w) \<Rightarrow> Some (wk\<lparr>w_pc := Execute ev\<rparr>, w, sb_event_start now tid c))
        | Execute ev \<Rightarrow>
            (let (rc, w) = op_execute_event ops ev tid w
             in Some (wk\<lparr>w_pc := More_events, w_rc := rc\<rparr>, w, sb_event_stop fp now rnd tid c))
        | Exited \<Rightarrow> None)"

section \<open>The system\<close>

text \<open>Waking one given waiting thread, if there is one, and waking all of them.\<close>

definition wake :: "'ev worker \<Rightarrow> 'ev worker" where
  "wake wk = (if w_pc wk = Cond_wait then wk\<lparr>w_pc := Recheck\<rparr> else wk)"

definition signal :: "nat \<Rightarrow> 'ev worker list \<Rightarrow> 'ev worker list" where
  "signal t ws = (if t < length ws then ws[t := wake (ws ! t)] else ws)"

definition broadcast :: "'ev worker list \<Rightarrow> 'ev worker list" where
  "broadcast = map wake"

datatype sys_step = Worker_step nat input | Spurious_wakeup nat | Gen_step input nat

definition worker_step ::
  "('ev, 'w) sb_operations_t \<Rightarrow> 'd fp_ops \<Rightarrow> nat \<Rightarrow> input \<Rightarrow> ('d, 'ev, 'w) system \<Rightarrow> ('d, 'ev, 'w) system option"
where
  "worker_step ops fp t inp s =
     (if t < length (workers s)
      then case thread_run_step ops fp inp t (workers s ! t) (test_world s, core s) of
             None \<Rightarrow> None
           | Some (wk, w, c) \<Rightarrow> Some (s\<lparr>workers := (workers s)[t := wk], test_world := w, core := c\<rparr>)
      else None)"

text \<open>
  The signal goes to the thread \<open>t\<close>; when some thread is waiting, \<open>t\<close> has to be one.
\<close>

definition eventgen_step ::
  "'d fp_ops \<Rightarrow> input \<Rightarrow> nat \<Rightarrow> ('d, 'ev, 'w) system \<Rightarrow> ('d, 'ev, 'w) system option"
where
  "eventgen_step fp inp t s =
     (case gen_pc s of
        Gen_tick \<Rightarrow>
          (case eventgen_tick fp (fst inp) (gen_vars s) (core s) of
             (None, g) \<Rightarrow> Some (s\<lparr>gen_vars := g, gen_pc := Gen_exited, workers := broadcast (workers s)\<rparr>)
           | (Some pause, g) \<Rightarrow> Some (s\<lparr>gen_vars := g, gen_pc := Gen_put\<rparr>))
      | Gen_put \<Rightarrow>
          (case eventgen_put (fst inp) (gen_vars s) (core s) of
             (True, g, c) \<Rightarrow> Some (s\<lparr>gen_vars := g, core := c, gen_pc := Gen_signal\<rparr>)
           | (False, g, c) \<Rightarrow> Some (s\<lparr>gen_vars := g, core := c, gen_pc := Gen_exited, workers := broadcast (workers s)\<rparr>))
      | Gen_signal \<Rightarrow>
          if (\<exists>wk \<in> set (workers s). w_pc wk = Cond_wait) \<and> \<not> (t < length (workers s) \<and> w_pc (workers s ! t) = Cond_wait)
          then None
          else Some (s\<lparr>gen_pc := Gen_tick, workers := signal t (workers s)\<rparr>)
      | _ \<Rightarrow> None)"

text \<open>The threads are scheduled arbitrarily; a waiting thread may wake up without a signal.\<close>

fun step :: "('ev, 'w) sb_operations_t \<Rightarrow> 'd fp_ops \<Rightarrow> sys_step \<Rightarrow> ('d, 'ev, 'w) system \<Rightarrow> ('d, 'ev, 'w) system option" where
  "step ops fp (Worker_step t inp) s = worker_step ops fp t inp s"
| "step ops fp (Spurious_wakeup t) s = Some (s\<lparr>workers := signal t (workers s)\<rparr>)"
| "step ops fp (Gen_step inp t) s = eventgen_step fp inp t s"

section \<open>Notions of the properties\<close>

definition events_of :: "('d, 'z) core_state_scheme \<Rightarrow> nat \<Rightarrow> nat" where
  "events_of c t = unat (sb_counter_val (sb_counters c) t (cnt_index SB_CNT_EVENT))"

text \<open>All events that the threads have completed.\<close>

definition events_done :: "('d, 'ev, 'w) system \<Rightarrow> nat" where
  "events_done s = (\<Sum>t < length (workers s). events_of (core s) t)"

definition all_exited :: "('d, 'ev, 'w) system \<Rightarrow> bool" where
  "all_exited s \<longleftrightarrow> (\<forall>wk \<in> set (workers s). w_pc wk = Exited)"

text \<open>All threads have passed the barrier and start their loops.\<close>

definition sys_started :: "nat \<Rightarrow> ('d, 'ev, 'w) system \<Rightarrow> bool" where
  "sys_started n s \<longleftrightarrow> workers s = replicate n \<lparr>w_pc = More_events, w_rc = 0\<rparr> \<and>
     sb_counters (core s) = sb_counters_init n \<and> length (thread_timers (core s)) = n + 1 \<and>
     (\<forall>t < n. thread_timers (core s) ! t = sb_timer_init timer_zero) \<and> g_nevents (core s) = 0"

text \<open>A test that neither ends by itself nor fails.\<close>

definition reliable :: "('ev, 'w) sb_operations_t \<Rightarrow> bool" where
  "reliable ops \<longleftrightarrow> (\<forall>t w. fst (op_next_event ops t w) \<noteq> None) \<and> (\<forall>ev t w. fst (op_execute_event ops ev t w) = 0)"

definition only_workers :: "sys_step list \<Rightarrow> bool" where
  "only_workers ss \<longleftrightarrow> (\<forall>x \<in> set ss. \<exists>t inp. x = Worker_step t inp)"

definition forget_log :: "('d, 'z) log_state_scheme \<Rightarrow> ('d, 'z) log_state_scheme" where
  "forget_log s = s\<lparr>text_cnt := 0, text_buf := [], printed := []\<rparr>"

text \<open>The ring holds the indices of consecutive slots, up to the one the generator fills next.\<close>

definition event_queue_rep :: "event_queue \<Rightarrow> u64 list \<Rightarrow> bool" where
  "event_queue_rep = (\<lambda>(i, array, ring) xs.
     i < MAX_QUEUE_LEN \<and> length array = MAX_QUEUE_LEN \<and>
     (let ps = map (\<lambda>j. (i + MAX_QUEUE_LEN - length xs + j) mod MAX_QUEUE_LEN) [0..<length xs]
      in ring_rep 17 ring ps \<and> xs = map (\<lambda>p. array ! p) ps))"

definition slots_before :: "nat \<Rightarrow> nat \<Rightarrow> nat list" where
  "slots_before i n = map (\<lambda>j. (i + MAX_QUEUE_LEN - n + j) mod MAX_QUEUE_LEN) [0..<n]"

text \<open>Whether a thread has an event that it has been granted and not completed.\<close>

definition granted :: "'ev worker \<Rightarrow> nat" where
  "granted wk = (case w_pc wk of More_events \<Rightarrow> 0 | Exited \<Rightarrow> 0 | _ \<Rightarrow> 1)"

definition claims :: "('d, 'ev, 'w) system \<Rightarrow> nat \<Rightarrow> nat" where
  "claims s t = events_of (core s) t + granted (workers s ! t)"

definition limit_inv :: "u64 \<Rightarrow> nat \<Rightarrow> ('d, 'ev, 'w) system \<Rightarrow> bool" where
  "limit_inv m n s \<longleftrightarrow> g_max_events (core s) = m \<and> length (workers s) = n \<and> counters_wf n (sb_counters (core s)) \<and>
     (\<Sum>t<n. claims s t) \<le> min (unat (g_nevents (core s))) (unat m)"

fun pc_weight :: "'ev worker_pc \<Rightarrow> nat option" where
  "pc_weight More_events = Some 0"
| "pc_weight Next_event = Some 1"
| "pc_weight (Execute ev) = Some 2"
| "pc_weight Exited = Some 2"
| "pc_weight _ = None"

definition direct :: "('d, 'ev, 'w) system \<Rightarrow> bool" where
  "direct s \<longleftrightarrow> g_tx_rate (core s) = 0 \<and> gen_pc s = Gen_absent \<and> (\<forall>wk \<in> set (workers s). pc_weight (w_pc wk) \<noteq> None)"

definition work :: "('d, 'ev, 'w) system \<Rightarrow> nat \<Rightarrow> nat" where
  "work s t = 3 * events_of (core s) t + the (pc_weight (w_pc (workers s ! t)))"

text \<open>A reliable test without a time limit loses no claim: a thread leaves only at the limit.\<close>

definition exact_inv :: "u64 \<Rightarrow> nat \<Rightarrow> ('d, 'ev, 'w) system \<Rightarrow> bool" where
  "exact_inv m n s \<longleftrightarrow> limit_inv m n s \<and> direct s \<and> \<not> g_error (core s) \<and> g_max_time_ns (core s) = 0 \<and>
     (\<forall>wk \<in> set (workers s). w_rc wk = 0) \<and> min (unat (g_nevents (core s))) (unat m) \<le> (\<Sum>t<n. claims s t) \<and>
     ((\<exists>wk \<in> set (workers s). w_pc wk = Exited) \<longrightarrow> m \<le> g_nevents (core s))"

definition hist_total :: "'d sb_histogram_t \<Rightarrow> u64" where
  "hist_total h = (\<Sum>b < array_size h. hist_count h b)"

definition event_count :: "('d, 'z) core_state_scheme \<Rightarrow> nat \<Rightarrow> u64" where
  "event_count c t = sb_counter_val (sb_counters c) t (cnt_index SB_CNT_EVENT)"

text \<open>The timers and the histogram hold what was counted since the counters had the values \<open>base\<close>.\<close>

definition accounts :: "(nat \<Rightarrow> u64) \<Rightarrow> nat \<Rightarrow> ('d, 'ev, 'w) system \<Rightarrow> bool" where
  "accounts base n s \<longleftrightarrow> length (workers s) = n \<and> counters_wf n (sb_counters (core s)) \<and>
     length (thread_timers (core s)) = n + 1 \<and> hist_wf (sb_latency_histogram (core s)) \<and>
     (\<forall>t < n. tm_events (thread_timers (core s) ! t) = event_count (core s) t - base t) \<and>
     (0 < g_percentile (core s) \<longrightarrow>
        hist_total (sb_latency_histogram (core s)) = (\<Sum>t<n. event_count (core s) t - base t))"

text \<open>A system for the witnesses: \<open>n\<close> workers that have passed the barrier, and a test that does nothing.\<close>

definition core_start :: "nat \<Rightarrow> u64 \<Rightarrow> u32 \<Rightarrow> u32 \<Rightarrow> rat core_state" where
  "core_start n m pct rate = log_state.extend (log_state0 3\<lparr>g_threads := of_nat n, g_max_events := m, g_percentile := pct, g_tx_rate := rate,
      sb_latency_histogram := \<lparr>cumulative_array = [0], cumulative_nevents = 0, temp_array = [0],
        interm_slots = replicate SB_HISTOGRAM_NSLOTS [0], array_size = 1, range_min = 1, range_max = 1,
        range_deduct = 0, range_mult = 1, hist_locked = False\<rparr>\<rparr>)
     (core_state.fields timer_zero timer_zero timer_zero (replicate (n + 1) (sb_timer_init timer_zero)) (replicate (n + 1) timer_zero)
       (sb_counters_init n) report_state0 (replicate MAX_QUEUE_LEN 0) (ck_ring_init (of_nat MAX_QUEUE_LEN), replicate MAX_QUEUE_LEN 0))"

definition sys_start :: "nat \<Rightarrow> u64 \<Rightarrow> u32 \<Rightarrow> (rat, unit, nat) system" where
  "sys_start n m pct = \<lparr>core = core_start n m pct 0, workers = replicate n \<lparr>w_pc = More_events, w_rc = 0\<rparr>, test_world = 0,
     gen_pc = Gen_absent, gen_vars = \<lparr>gen_i = 0, gen_next_ns = 0, gen_rng = (0, 0)\<rparr>\<rparr>"

definition counting_test :: "(unit, nat) sb_operations_t" where
  "counting_test = \<lparr>op_init = None, op_prepare = None, op_thread_init = None, op_next_event = (\<lambda>t w. (Some (), w)),
     op_execute_event = (\<lambda>ev t w. (0, Suc w)), op_thread_done = None, op_cleanup = None, op_done = None\<rparr>"

definition one_event :: "sys_step list" where
  "one_event = replicate 4 (Worker_step 0 (\<lparr>tv_sec = 0, tv_nsec = 0\<rparr>, 0))"

section \<open>What the logger leaves alone\<close>

lemma forget_printf: "forget_log (printf x s) = forget_log s"
  by (simp add: forget_log_def printf_def)

lemma forget_process: "forget_log (text_handler_process m s) = forget_log s"
  by (simp add: text_handler_process_def Let_def forget_log_def printf_def)

lemma forget_log_msg: "forget_log (log_msg ty m s) = forget_log s"
proof -
  have "forget_log (fold (\<lambda>h s. case handler_process h of None \<Rightarrow> s | Some process \<Rightarrow> process m s) hs s) = forget_log s" for hs
  proof (induction hs arbitrary: s)
    case (Cons h hs)
    then show ?case by (cases h) (simp_all add: forget_process)
  qed simp
  then show ?thesis by (simp add: log_msg_def)
qed

lemma forget_log_text: "forget_log (log_text p m s) = forget_log s"
  by (simp add: log_text_def Let_def forget_printf forget_log_msg)

lemma forget_log_timestamp: "forget_log (log_timestamp p t m s) = forget_log s"
  by (simp add: log_timestamp_def Let_def forget_printf forget_log_msg)

lemma forget_log_eq: "forget_log s = forget_log s' \<Longrightarrow> (\<And>x. f (forget_log x) = f x) \<Longrightarrow> f s = f s'"
  by metis

lemmas log_text_eq = forget_log_eq [OF forget_log_text]

lemmas log_timestamp_eq = forget_log_eq [OF forget_log_timestamp]

lemma log_text_globals [simp]:
  "g_error (log_text p m s) = g_error s" "g_tx_rate (log_text p m s) = g_tx_rate s"
  "g_max_events (log_text p m s) = g_max_events s" "g_max_time_ns (log_text p m s) = g_max_time_ns s"
  "g_threads (log_text p m s) = g_threads s" "g_percentile (log_text p m s) = g_percentile s"
  "g_nevents (log_text p m s) = g_nevents s" "g_concurrency (log_text p m s) = g_concurrency s"
  "sb_latency_histogram (log_text p m s) = sb_latency_histogram s"
  by (rule log_text_eq, simp add: forget_log_def)+

lemma log_text_core [simp]:
  "sb_exec_timer (log_text p m s) = sb_exec_timer s" "thread_timers (log_text p m s) = thread_timers s"
  "sb_counters (log_text p m s) = sb_counters s" "queue_array (log_text p m s) = queue_array s"
  "queue_ring (log_text p m s) = queue_ring s" "timers_copy (log_text p m s) = timers_copy s"
  "last_counters (log_text p m s) = last_counters s"
  "sb_intermediate_timer (log_text p m s) = sb_intermediate_timer s"
  "sb_checkpoint_timer (log_text p m s) = sb_checkpoint_timer s"
  by (rule log_text_eq, simp add: forget_log_def)+

section \<open>The queue of events\<close>

lemma length_slots [simp]: "length (slots_before i n) = n"
  by (simp add: slots_before_def)

lemma event_queue_rep_alt:
  "event_queue_rep (i, array, ring) xs \<longleftrightarrow> i < MAX_QUEUE_LEN \<and> length array = MAX_QUEUE_LEN \<and>
     ring_rep 17 ring (slots_before i (length xs)) \<and> xs = map (\<lambda>p. array ! p) (slots_before i (length xs))"
  by (simp add: event_queue_rep_def slots_before_def Let_def)

lemma MAX_QUEUE_LEN_power: "MAX_QUEUE_LEN = 2 ^ 17"
  by (simp add: MAX_QUEUE_LEN_def)

lemma slots_before_Suc:
  assumes "i < MAX_QUEUE_LEN" "Suc n \<le> MAX_QUEUE_LEN"
  shows "slots_before ((i + 1) mod MAX_QUEUE_LEN) (Suc n) = slots_before i n @ [i]"
proof -
  let ?M = MAX_QUEUE_LEN
  have "((i + 1) mod ?M + ?M - Suc n + j) mod ?M = (i + ?M - n + j) mod ?M" if "j \<le> n" for j
  proof -
    have "(i + 1) mod ?M + ?M - Suc n + j = (i + 1) mod ?M + (?M - Suc n + j)"
      "i + ?M - n + j = (i + 1) + (?M - Suc n + j)" using assms by simp_all
    then show ?thesis by (metis mod_add_left_eq)
  qed
  moreover have "(i + ?M - n + n) mod ?M = i" using assms by simp
  ultimately show ?thesis by (simp add: slots_before_def)
qed

lemma slot_not_before:
  assumes "n < MAX_QUEUE_LEN" "i < MAX_QUEUE_LEN"
  shows "i \<notin> set (slots_before i n)"
proof
  let ?M = MAX_QUEUE_LEN
  assume "i \<in> set (slots_before i n)"
  then obtain j where j: "j < n" "i = (i + ?M - n + j) mod ?M" by (auto simp: slots_before_def)
  have "i + ?M - n + j = i + (?M - n + j)" using assms by simp
  then have "(i + (?M - n + j)) mod ?M = (i + 0) mod ?M" using j(2) assms(2) by (metis add.right_neutral mod_less)
  moreover have "?M - n + j < ?M" using j(1) assms(1) by linarith
  ultimately have "?M - n + j = 0" using ring_index_inj [of "?M - n + j" ?M 0 i] assms(1) by simp
  then show False using assms(1) by simp
qed

lemma slots_before_Cons:
  "slots_before i (Suc n) = ((i + MAX_QUEUE_LEN - Suc n) mod MAX_QUEUE_LEN) #
     map (\<lambda>j. (i + MAX_QUEUE_LEN - Suc n + Suc j) mod MAX_QUEUE_LEN) [0..<n]"
  unfolding slots_before_def by (subst upt_rec) (simp add: map_Suc_upt [symmetric] o_def del: upt_Suc map_Suc_upt)

lemma slots_before_tl:
  assumes "Suc n \<le> MAX_QUEUE_LEN"
  shows "slots_before i (Suc n) = ((i + MAX_QUEUE_LEN - Suc n) mod MAX_QUEUE_LEN) # slots_before i n"
  unfolding slots_before_Cons using assms by (auto simp: slots_before_def intro!: arg_cong [of _ _ "\<lambda>x. x mod MAX_QUEUE_LEN"])

lemma queue_put_room:
  assumes "event_queue_rep q xs" "length xs < MAX_QUEUE_LEN - 1"
  shows "\<exists>q'. queue_put x q = Some q' \<and> event_queue_rep q' (xs @ [x])"
proof -
  obtain i array ring where q: "q = (i, array, ring)" by (cases q)
  let ?ps = "slots_before i (length xs)"
  have r: "i < MAX_QUEUE_LEN" "length array = MAX_QUEUE_LEN" "ring_rep 17 ring ?ps" "xs = map (\<lambda>p. array ! p) ?ps"
    using assms(1) by (simp_all add: q event_queue_rep_alt)
  from ring_enqueue [OF r(3), of i] assms(2) obtain ring' where
    e: "ck_ring_enqueue_spmc i ring = Some ring'" "ring_rep 17 ring' (?ps @ [i])"
    by (auto simp: MAX_QUEUE_LEN_power)
  have i: "i \<notin> set ?ps" using slot_not_before [of "length xs" i] assms(2) r(1) by simp
  then have "map (\<lambda>p. array[i := x] ! p) ?ps = map (\<lambda>p. array ! p) ?ps"
    by (intro map_cong refl) (metis nth_list_update_neq)
  then have "xs @ [x] = map (\<lambda>p. array[i := x] ! p) (?ps @ [i])"
    using r(1,2,4) by simp
  then have "event_queue_rep ((i + 1) mod MAX_QUEUE_LEN, array[i := x], ring') (xs @ [x])"
    using e(2) r(1,2) slots_before_Suc [OF r(1), of "length xs"] assms(2) by (simp add: event_queue_rep_alt)
  then show ?thesis using e(1) by (simp add: q queue_put_def)
qed

lemma queue_take_item:
  assumes "event_queue_rep q (x # xs)"
  shows "\<exists>q'. queue_take q = Some (x, q') \<and> event_queue_rep q' xs"
proof -
  obtain i array ring where q: "q = (i, array, ring)" by (cases q)
  let ?M = MAX_QUEUE_LEN and ?n = "length xs"
  have r: "i < ?M" "length array = ?M" "ring_rep 17 ring (slots_before i (Suc ?n))"
    "x # xs = map (\<lambda>p. array ! p) (slots_before i (Suc ?n))"
    using assms by (simp_all add: q event_queue_rep_alt)
  have "Suc ?n \<le> ?M" using ring_queue.rep_length [OF r(3)] by (simp add: MAX_QUEUE_LEN_power)
  note s = slots_before_tl [OF this, of i]
  from ring_dequeue [OF r(3) [unfolded s]] obtain ring' where
    "ck_ring_dequeue_spmc ring = Some ((i + ?M - Suc ?n) mod ?M, ring')" "ring_rep 17 ring' (slots_before i ?n)" by blast
  moreover have "x = array ! ((i + ?M - Suc ?n) mod ?M)" "xs = map (\<lambda>p. array ! p) (slots_before i ?n)"
    using r(4) s by simp_all
  ultimately show ?thesis using r(1,2) by (simp add: q queue_take_def event_queue_rep_alt)
qed

interpretation event_fifo: fifo event_queue_rep queue_put queue_take "MAX_QUEUE_LEN - 1"
proof unfold_locales
  fix q xs x
  assume rep: "event_queue_rep q xs"
  obtain i array ring where q: "q = (i, array, ring)" by (cases q)
  have ring: "ring_rep 17 ring (slots_before i (length xs))" using rep by (simp add: q event_queue_rep_alt)
  show "length xs < MAX_QUEUE_LEN - 1 \<Longrightarrow> \<exists>q'. queue_put x q = Some q' \<and> event_queue_rep q' (xs @ [x])"
    by (rule queue_put_room [OF rep])
  show "length xs \<le> MAX_QUEUE_LEN - 1"
    using ring_queue.rep_length [OF ring] by (simp add: MAX_QUEUE_LEN_power)
  show "length xs = MAX_QUEUE_LEN - 1 \<Longrightarrow> queue_put x q = None"
    using ring_queue.enq_full [OF ring, of i] by (simp add: q queue_put_def MAX_QUEUE_LEN_power)
next
  show "event_queue_rep q [] \<Longrightarrow> queue_take q = None" for q
    by (cases q) (auto simp: event_queue_rep_alt queue_take_def slots_before_def dest!: ring_queue.deq_empty)
next
  show "event_queue_rep q (x # xs) \<Longrightarrow> \<exists>q'. queue_take q = Some (x, q') \<and> event_queue_rep q' xs" for q x xs
    by (rule queue_take_item)
qed


section \<open>Steps of the workers\<close>

lemma more_events_begin_effect:
  assumes "more_events_begin now c = (r, c')"
  shows "g_max_events c' = g_max_events c" "sb_counters c' = sb_counters c" "g_error c' = g_error c"
    "g_max_time_ns c' = g_max_time_ns c" "g_tx_rate c' = g_tx_rate c"
    "g_nevents c' = (if \<not> g_error c \<and> \<not> time_limit_exceeded now c \<and> g_max_events c > 0 then g_nevents c + 1 else g_nevents c)"
    "r = (if g_error c \<or> time_limit_exceeded now c \<or> (g_max_events c > 0 \<and> g_nevents c \<ge> g_max_events c) then No_more
          else if g_tx_rate c > 0 then Take_from_queue else More)"
    "thread_timers c' = thread_timers c" "sb_latency_histogram c' = sb_latency_histogram c" "g_percentile c' = g_percentile c"
  using assms by (auto simp: more_events_begin_def Let_def split: if_splits)

lemma event_stop_counters [simp]: "sb_counters (sb_event_stop fp now rnd t c) = sb_counter_inc t SB_CNT_EVENT (sb_counters c)"
  "g_max_events (sb_event_stop fp now rnd t c) = g_max_events c" "g_nevents (sb_event_stop fp now rnd t c) = g_nevents c"
  "g_error (sb_event_stop fp now rnd t c) = g_error c" "g_max_time_ns (sb_event_stop fp now rnd t c) = g_max_time_ns c"
  "g_tx_rate (sb_event_stop fp now rnd t c) = g_tx_rate c" "g_percentile (sb_event_stop fp now rnd t c) = g_percentile c"
  by (simp_all add: sb_event_stop_def Let_def split: prod.split)

lemma leave_effect [simp]:
  "sb_counters (snd (worker_thread_leave ops t rc (w, c))) = sb_counters c"
  "g_max_events (snd (worker_thread_leave ops t rc (w, c))) = g_max_events c"
  "g_nevents (snd (worker_thread_leave ops t rc (w, c))) = g_nevents c"
  "g_error (snd (worker_thread_leave ops t rc (w, c))) = (g_error c \<or> rc \<noteq> 0)"
  "g_max_time_ns (snd (worker_thread_leave ops t rc (w, c))) = g_max_time_ns c"
  "g_tx_rate (snd (worker_thread_leave ops t rc (w, c))) = g_tx_rate c"
  "thread_timers (snd (worker_thread_leave ops t rc (w, c))) = thread_timers c"
  "sb_latency_histogram (snd (worker_thread_leave ops t rc (w, c))) = sb_latency_histogram c"
  "g_percentile (snd (worker_thread_leave ops t rc (w, c))) = g_percentile c"
  by (auto simp: worker_thread_leave_def)

lemma more_events_dequeue_effect:
  assumes "more_events_dequeue c = (r, c')"
  shows "sb_counters c' = sb_counters c" "g_max_events c' = g_max_events c" "g_nevents c' = g_nevents c"
    "g_error c' = g_error c" "g_max_time_ns c' = g_max_time_ns c" "g_tx_rate c' = g_tx_rate c"
    "thread_timers c' = thread_timers c" "sb_latency_histogram c' = sb_latency_histogram c" "g_percentile c' = g_percentile c"
  using assms by (auto simp: more_events_dequeue_def split: option.splits if_splits)

lemma more_events_recheck_effect:
  assumes "more_events_recheck now c = (r, c')"
  shows "sb_counters c' = sb_counters c" "g_max_events c' = g_max_events c" "g_nevents c' = g_nevents c"
    "g_error c' = g_error c" "g_max_time_ns c' = g_max_time_ns c" "g_tx_rate c' = g_tx_rate c"
    "thread_timers c' = thread_timers c" "sb_latency_histogram c' = sb_latency_histogram c" "g_percentile c' = g_percentile c"
  using assms by (auto simp: more_events_recheck_def split: if_splits)

lemma more_events_finish_effect:
  assumes "more_events_finish now t p c = Some c'"
  shows "sb_counters c' = sb_counters c" "g_max_events c' = g_max_events c" "g_nevents c' = g_nevents c"
    "g_error c' = g_error c" "g_max_time_ns c' = g_max_time_ns c" "g_tx_rate c' = g_tx_rate c"
    "sb_latency_histogram c' = sb_latency_histogram c" "g_percentile c' = g_percentile c"
  using assms by (auto simp: more_events_finish_def Let_def split: option.splits)

lemma event_start_effect [simp]:
  "sb_counters (sb_event_start now t c) = sb_counters c" "g_max_events (sb_event_start now t c) = g_max_events c"
  "g_nevents (sb_event_start now t c) = g_nevents c" "g_error (sb_event_start now t c) = g_error c"
  "g_max_time_ns (sb_event_start now t c) = g_max_time_ns c" "g_tx_rate (sb_event_start now t c) = g_tx_rate c"
  "sb_latency_histogram (sb_event_start now t c) = sb_latency_histogram c" "g_percentile (sb_event_start now t c) = g_percentile c"
  by (simp_all add: sb_event_start_def)

lemma granted_le: "granted wk \<le> 1"
  by (simp add: granted_def split: worker_pc.split)

lemma thread_run_step_effect:
  assumes "thread_run_step ops fp inp t wk (w, c) = Some (wk', w', c')"
  shows "g_max_events c' = g_max_events c"
    and "w_pc wk \<noteq> More_events \<Longrightarrow> g_nevents c' = g_nevents c"
    and "w_pc wk = More_events \<Longrightarrow> g_nevents c' = g_nevents c + 1 \<or> g_nevents c' = g_nevents c"
    and "w_pc wk = More_events \<Longrightarrow> w_pc wk' \<noteq> Exited \<Longrightarrow> 0 < g_max_events c \<Longrightarrow>
      g_nevents c < g_max_events c \<and> g_nevents c' = g_nevents c + 1"
    and "sb_counters c' = (case w_pc wk of Execute ev \<Rightarrow> sb_counter_inc t SB_CNT_EVENT (sb_counters c) | _ \<Rightarrow> sb_counters c)"
    and "(case w_pc wk of Execute ev \<Rightarrow> True | _ \<Rightarrow> False) \<longleftrightarrow> w_pc wk' = More_events"
proof -
  obtain now rnd where inp: "inp = (now, rnd)" by (cases inp)
  note step = assms [unfolded thread_run_step_def inp prod.case Let_def]
  have all: "g_max_events c' = g_max_events c \<and>
    (w_pc wk \<noteq> More_events \<longrightarrow> g_nevents c' = g_nevents c) \<and>
    (w_pc wk = More_events \<longrightarrow> g_nevents c' = g_nevents c + 1 \<or> g_nevents c' = g_nevents c) \<and>
    (w_pc wk = More_events \<longrightarrow> w_pc wk' \<noteq> Exited \<longrightarrow> 0 < g_max_events c \<longrightarrow>
      g_nevents c < g_max_events c \<and> g_nevents c' = g_nevents c + 1) \<and>
    sb_counters c' = (case w_pc wk of Execute ev \<Rightarrow> sb_counter_inc t SB_CNT_EVENT (sb_counters c) | _ \<Rightarrow> sb_counters c) \<and>
    ((case w_pc wk of Execute ev \<Rightarrow> True | _ \<Rightarrow> False) \<longleftrightarrow> w_pc wk' = More_events)"
  proof (cases "w_pc wk")
    case More_events
    obtain r c1 where b: "more_events_begin now c = (r, c1)" by (cases "more_events_begin now c")
    note e = more_events_begin_effect [OF b]
    show ?thesis
    proof (cases r)
      case No_more
      then have "wk' = wk\<lparr>w_pc := Exited\<rparr>" "c' = snd (worker_thread_leave ops t (w_rc wk) (w, c1))"
        using step More_events b by auto
      with More_events e show ?thesis by auto
    next
      case More
      then have "(wk' = wk\<lparr>w_pc := Next_event\<rparr> \<and> c' = c1) \<or>
          (wk' = wk\<lparr>w_pc := Exited\<rparr> \<and> c' = snd (worker_thread_leave ops t (w_rc wk) (w, c1)))"
        using step More_events b by (auto split: if_splits)
      with More_events More e show ?thesis by (auto split: if_splits)
    next
      case Take_from_queue
      then have "wk' = wk\<lparr>w_pc := Dequeue\<rparr>" "c' = c1"
        using step More_events b by auto
      with More_events Take_from_queue e show ?thesis by (auto split: if_splits)
    qed
  next
    case Dequeue
    obtain r c1 where b: "more_events_dequeue c = (r, c1)" by (cases "more_events_dequeue c")
    then have "c' = c1" "w_pc wk' \<noteq> More_events" using step Dequeue by (auto split: dequeue_result.splits)
    with Dequeue more_events_dequeue_effect [OF b] show ?thesis by auto
  next
    case Recheck
    obtain r c1 where b: "more_events_recheck now c = (r, c1)" by (cases "more_events_recheck now c")
    then have "c' = c1 \<or> c' = snd (worker_thread_leave ops t (w_rc wk) (w, c1))" "w_pc wk' \<noteq> More_events"
      using step Recheck by (auto split: bool.splits)
    with Recheck more_events_recheck_effect [OF b] show ?thesis by auto
  next
    case (Finish p)
    obtain c1 where b: "more_events_finish now t p c = Some c1" using step Finish by (auto split: option.splits)
    then have "c' = c1 \<or> c' = snd (worker_thread_leave ops t (w_rc wk) (w, c1))" "w_pc wk' \<noteq> More_events"
      using step Finish by (auto split: if_splits)
    with Finish more_events_finish_effect [OF b] show ?thesis by auto
  next
    case Next_event
    obtain r w1 where b: "op_next_event ops t w = (r, w1)" by (cases "op_next_event ops t w")
    then have "c' = sb_event_start now t c \<or> c' = snd (worker_thread_leave ops t (w_rc wk) (w1, c))" "w_pc wk' \<noteq> More_events"
      using step Next_event by (auto split: option.splits)
    with Next_event show ?thesis by auto
  next
    case (Execute ev)
    then show ?thesis using step by (auto split: prod.splits)
  next
    case Before_wait
    then show ?thesis using step by auto
  next
    case Cond_wait
    then show ?thesis using step by simp
  next
    case Exited
    then show ?thesis using step by simp
  qed
  then show "g_max_events c' = g_max_events c"
    "w_pc wk \<noteq> More_events \<Longrightarrow> g_nevents c' = g_nevents c"
    "w_pc wk = More_events \<Longrightarrow> g_nevents c' = g_nevents c + 1 \<or> g_nevents c' = g_nevents c"
    "w_pc wk = More_events \<Longrightarrow> w_pc wk' \<noteq> Exited \<Longrightarrow> 0 < g_max_events c \<Longrightarrow>
      g_nevents c < g_max_events c \<and> g_nevents c' = g_nevents c + 1"
    "sb_counters c' = (case w_pc wk of Execute ev \<Rightarrow> sb_counter_inc t SB_CNT_EVENT (sb_counters c) | _ \<Rightarrow> sb_counters c)"
    "(case w_pc wk of Execute ev \<Rightarrow> True | _ \<Rightarrow> False) \<longleftrightarrow> w_pc wk' = More_events"
    by blast+
qed

lemma unat_plus_one: "unat x < 2 ^ 64 - 1 \<Longrightarrow> unat (x + 1 :: u64) = unat x + 1"
  by (subst unat_add_lem [THEN iffD1]) simp_all

lemma events_of_inc:
  assumes "counters_wf n (sb_counters c)" "t < n" "sb_counters c' = sb_counter_inc t SB_CNT_EVENT (sb_counters c)"
    and "events_of c t < 2 ^ 64 - 1"
  shows "events_of c' u = (if u = t then events_of c t + 1 else events_of c u)"
  using assms unat_plus_one [of "sb_counter_val (sb_counters c) t (cnt_index SB_CNT_EVENT)"]
  by (simp add: events_of_def sb_counter_inc_def sb_counter_val_add del: cnt_index.simps)

lemma sum_update_one:
  fixes f g :: "nat \<Rightarrow> nat"
  assumes "t < n" "\<And>u. u < n \<Longrightarrow> u \<noteq> t \<Longrightarrow> g u = f u"
  shows "(\<Sum>u<n. g u) + f t = (\<Sum>u<n. f u) + g t"
proof -
  have "(\<Sum>u<n. h u) = h t + (\<Sum>u\<in>{..<n} - {t}. h u)" for h :: "nat \<Rightarrow> nat"
    using assms(1) by (intro sum.remove) simp_all
  moreover have "(\<Sum>u\<in>{..<n} - {t}. g u) = (\<Sum>u\<in>{..<n} - {t}. f u)"
    using assms(2) by (intro sum.cong) auto
  ultimately show ?thesis by simp
qed

lemma thread_run_step_enabled:
  "thread_run_step ops fp inp t wk (w, c) = Some r \<Longrightarrow> w_pc wk \<noteq> Exited"
  by (cases inp) (auto simp: thread_run_step_def)

lemma limit_inv_worker:
  assumes "limit_inv m n s" "0 < m" "worker_step ops fp t inp s = Some s'" "unat (g_nevents (core s)) < 2 ^ 64 - 1"
  shows "limit_inv m n s'" and "unat (g_nevents (core s')) \<le> unat (g_nevents (core s)) + 1"
proof -
  have inv: "g_max_events (core s) = m" "length (workers s) = n" "counters_wf n (sb_counters (core s))"
    "(\<Sum>t<n. claims s t) \<le> unat (g_nevents (core s))" "(\<Sum>t<n. claims s t) \<le> unat m"
    using assms(1) by (simp_all add: limit_inv_def)
  obtain wk w c where t: "t < n" and st: "thread_run_step ops fp inp t (workers s ! t) (test_world s, core s) = Some (wk, w, c)"
    and s': "s' = s\<lparr>workers := (workers s)[t := wk], test_world := w, core := c\<rparr>"
    using assms(3) inv(2) by (auto simp: worker_step_def split: if_splits option.splits)
  note e = thread_run_step_effect [OF st]
  note one = unat_plus_one [OF assms(4)]
  show ne: "unat (g_nevents (core s')) \<le> unat (g_nevents (core s)) + 1"
    using e(2,3) one s' by (cases "w_pc (workers s ! t) = More_events") auto
  have mono: "unat (g_nevents (core s)) \<le> unat (g_nevents (core s'))"
    using e(2,3) one s' by (cases "w_pc (workers s ! t) = More_events") auto
  have le: "claims s t \<le> (\<Sum>t<n. claims s t)" using t by (intro member_le_sum) simp_all
  have wf: "counters_wf n (sb_counters c)" using inv(3) e(5) t by (auto simp: sb_counter_inc_def split: worker_pc.splits)
  have "(\<Sum>t<n. claims s' t) \<le> min (unat (g_nevents c)) (unat m)"
  proof (cases "\<exists>ev. w_pc (workers s ! t) = Execute ev")
    case True
    then obtain ev where ev: "w_pc (workers s ! t) = Execute ev" by blast
    have "granted (workers s ! t) = 1" "granted wk = 0" using ev e(6) by (auto simp: granted_def)
    moreover have "unat m < 2 ^ 64" using unat_less_two_power_u64 by simp
    then have lt: "events_of (core s) t < 2 ^ 64 - 1"
      using le inv(5) \<open>granted (workers s ! t) = 1\<close> by (simp add: claims_def)
    have "events_of c u = (if u = t then events_of (core s) t + 1 else events_of (core s) u)" for u
      using events_of_inc [OF inv(3) t _ lt, of c] e(5) ev by simp
    ultimately have "claims s' u = claims s u" if "u < n" for u
      using s' inv(2) that by (cases "u = t") (simp_all add: claims_def)
    then have "(\<Sum>t<n. claims s' t) = (\<Sum>t<n. claims s t)" by (intro sum.cong) simp_all
    then show ?thesis using inv(4,5) mono s' by simp
  next
    case False
    then have ct: "sb_counters c = sb_counters (core s)" using e(5) by (auto split: worker_pc.splits)
    then have ev: "events_of c u = events_of (core s) u" for u by (simp add: events_of_def)
    have upd: "(\<Sum>t<n. claims s' t) + claims s t = (\<Sum>t<n. claims s t) + claims s' t"
      using t s' inv(2) ev by (intro sum_update_one) (auto simp: claims_def nth_list_update)
    have cl: "claims s' t = events_of (core s) t + granted wk"
      using s' ev t inv(2) by (simp add: claims_def)
    show ?thesis
    proof (cases "w_pc (workers s ! t) = More_events \<and> w_pc wk \<noteq> Exited")
      case True
      then have "granted (workers s ! t) = 0" by (simp add: granted_def)
      moreover have "g_nevents (core s) < m" "g_nevents c = g_nevents (core s) + 1"
        using e(4) True assms(2) inv(1) by auto
      moreover from this(1) have "unat (g_nevents (core s)) < unat m" by (simp add: word_less_nat_alt)
      ultimately show ?thesis
        using upd cl inv(4,5) one granted_le [of wk] by (simp add: claims_def)
    next
      case stay: False
      have "granted wk \<le> granted (workers s ! t)"
        using stay e(6) False granted_le [of wk] thread_run_step_enabled [OF st] by (auto simp: granted_def split: worker_pc.splits)
      then show ?thesis using upd cl inv(4,5) mono s' by (simp add: claims_def)
    qed
  qed
  then show "limit_inv m n s'" using s' inv(1,2) e(1) wf by (simp add: limit_inv_def)
qed

lemma granted_wake [simp]: "granted (wake wk) = granted wk"
  by (simp add: granted_def wake_def)

lemma claims_workers:
  assumes "sb_counters (core s') = sb_counters (core s)"
    "workers s' = workers s \<or> workers s' = broadcast (workers s) \<or> workers s' = signal u (workers s)" "t < length (workers s)"
  shows "claims s' t = claims s t"
  using assms by (auto simp: claims_def events_of_def broadcast_def signal_def nth_list_update)

lemma eventgen_effect:
  assumes "eventgen_step fp inp t s = Some s'"
  shows "sb_counters (core s') = sb_counters (core s)" "g_max_events (core s') = g_max_events (core s)"
    "g_nevents (core s') = g_nevents (core s)"
    "workers s' = workers s \<or> workers s' = broadcast (workers s) \<or> workers s' = signal t (workers s)"
    "thread_timers (core s') = thread_timers (core s)" "sb_latency_histogram (core s') = sb_latency_histogram (core s)"
    "g_percentile (core s') = g_percentile (core s)"
  using assms
  by (auto simp: eventgen_step_def eventgen_put_def Let_def split: gen_pc.splits option.splits prod.splits bool.splits if_splits)

lemma limit_inv_step:
  assumes "limit_inv m n s" "0 < m" "step ops fp x s = Some s'" "unat (g_nevents (core s)) < 2 ^ 64 - 1"
  shows "limit_inv m n s' \<and> unat (g_nevents (core s')) \<le> unat (g_nevents (core s)) + 1"
proof (cases x)
  case (Worker_step t inp)
  then show ?thesis using limit_inv_worker [OF assms(1,2) _ assms(4)] assms(3) by simp
next
  case (Spurious_wakeup t)
  then have s': "s' = s\<lparr>workers := signal t (workers s)\<rparr>" using assms(3) by simp
  then have "claims s' u = claims s u" if "u < n" for u
    using that assms(1) by (intro claims_workers [where u = t]) (simp_all add: limit_inv_def)
  then have "(\<Sum>t<n. claims s' t) = (\<Sum>t<n. claims s t)" by (intro sum.cong) simp_all
  then show ?thesis using assms(1) s' by (simp add: limit_inv_def signal_def)
next
  case (Gen_step inp t)
  then have g: "eventgen_step fp inp t s = Some s'" using assms(3) by simp
  note e = eventgen_effect [OF g]
  have "claims s' u = claims s u" if "u < n" for u
    using that assms(1) e(1,4) by (intro claims_workers [where u = t]) (simp_all add: limit_inv_def)
  then have "(\<Sum>t<n. claims s' t) = (\<Sum>t<n. claims s t)" by (intro sum.cong) simp_all
  then show ?thesis using assms(1) e by (auto simp: limit_inv_def signal_def broadcast_def)
qed

lemma limit_inv_run:
  assumes "fold_opt (step ops fp) xs s = Some s'" "limit_inv m n s" "0 < m" "unat (g_nevents (core s)) + length xs < 2 ^ 64"
  shows "limit_inv m n s'"
  using assms
proof (induction xs arbitrary: s)
  case (Cons x xs)
  from Cons.prems(1) obtain s1 where s1: "step ops fp x s = Some s1" "fold_opt (step ops fp) xs s1 = Some s'"
    by (auto simp: bind_eq_Some_conv)
  have "limit_inv m n s1" "unat (g_nevents (core s1)) \<le> unat (g_nevents (core s)) + 1"
    using limit_inv_step [OF Cons.prems(2,3) s1(1)] Cons.prems(4) by auto
  with Cons.IH [OF s1(2)] Cons.prems(3,4) show ?case by simp
qed simp

lemma limit_inv_start:
  assumes "sys_started n s"
  shows "limit_inv (g_max_events (core s)) n s" "events_of (core s) t = 0 \<or> n < t"
proof -
  show ev: "events_of (core s) t = 0 \<or> n < t" for t
    using assms by (cases "t \<le> n") (simp_all add: sys_started_def events_of_def del: cnt_index.simps)
  have "claims s t = 0" if "t < n" for t
    using ev [of t] that assms by (auto simp: claims_def sys_started_def granted_def)
  then have "(\<Sum>t<n. claims s t) = 0" by simp
  then show "limit_inv (g_max_events (core s)) n s"
    using assms by (simp add: limit_inv_def sys_started_def)
qed

section \<open>Runs without a rate limit\<close>

lemma direct_thread_step:
  assumes "thread_run_step ops fp inp t wk (w, c) = Some (wk', w', c')" "g_tx_rate c = 0" "pc_weight (w_pc wk) \<noteq> None"
  shows "g_tx_rate c' = 0 \<and> pc_weight (w_pc wk') \<noteq> None \<and>
    (case w_pc wk of Execute ev \<Rightarrow> w_pc wk' = More_events | _ \<Rightarrow> the (pc_weight (w_pc wk)) < the (pc_weight (w_pc wk')))"
proof -
  obtain now rnd where inp: "inp = (now, rnd)" by (cases inp)
  note step = assms(1) [unfolded thread_run_step_def inp prod.case Let_def]
  show ?thesis
  proof (cases "w_pc wk")
    case More_events
    obtain r c1 where b: "more_events_begin now c = (r, c1)" by (cases "more_events_begin now c")
    note e = more_events_begin_effect(5,7) [OF b]
    show ?thesis
      using step More_events b e assms(2) by (cases r) (auto split: if_splits simp: worker_thread_leave_def)
  next
    case Next_event
    obtain r w1 where "op_next_event ops t w = (r, w1)" by (cases "op_next_event ops t w")
    then show ?thesis
      using step Next_event assms(2) by (cases r) (auto split: if_splits simp: worker_thread_leave_def)
  next
    case (Execute ev)
    then show ?thesis using step assms(2) by (auto split: prod.splits)
  qed (use step assms(3) in auto)
qed

lemma direct_progress:
  assumes "direct s" "t < length (workers s)" "w_pc (workers s ! t) \<noteq> Exited"
  shows "worker_step ops fp t inp s \<noteq> None"
proof -
  obtain now rnd where inp: "inp = (now, rnd)" by (cases inp)
  let ?wk = "workers s ! t"
  have "pc_weight (w_pc ?wk) \<noteq> None" using assms(1,2) by (auto simp: direct_def)
  then have "thread_run_step ops fp inp t ?wk (test_world s, core s) \<noteq> None"
    using assms(3)
    by (cases "w_pc ?wk") (auto simp: thread_run_step_def inp Let_def split: more_events.splits prod.splits option.splits)
  then show ?thesis using assms(2) by (auto simp: worker_step_def split: prod.splits)
qed

lemma direct_step:
  assumes "direct s" "step ops fp x s = Some s'" "limit_inv m n s" "0 < m"
  shows "direct s'" and "x = Worker_step t inp \<Longrightarrow> (\<Sum>t<n. work s t) < (\<Sum>t<n. work s' t)"
proof -
  have d: "g_tx_rate (core s) = 0" "gen_pc s = Gen_absent" "\<And>wk. wk \<in> set (workers s) \<Longrightarrow> pc_weight (w_pc wk) \<noteq> None"
    using assms(1) by (auto simp: direct_def)
  have inv: "length (workers s) = n" "counters_wf n (sb_counters (core s))" "(\<Sum>t<n. claims s t) \<le> unat m"
    using assms(3) by (simp_all add: limit_inv_def)
  have worker: "direct s' \<and> (\<Sum>t<n. work s t) < (\<Sum>t<n. work s' t)" if x: "x = Worker_step t inp" for t inp
  proof -
    obtain wk w c where t: "t < n" and st: "thread_run_step ops fp inp t (workers s ! t) (test_world s, core s) = Some (wk, w, c)"
      and s': "s' = s\<lparr>workers := (workers s)[t := wk], test_world := w, core := c\<rparr>"
      using assms(2) inv(1) x by (auto simp: worker_step_def split: if_splits option.splits)
    have pc: "pc_weight (w_pc (workers s ! t)) \<noteq> None" using d(3) t inv(1) by simp
    note e = direct_thread_step [OF st d(1) pc] and f = thread_run_step_effect(5) [OF st]
    have "direct s'" using e s' d set_update_subset_insert [of "workers s" t wk] by (auto simp: direct_def)
    moreover have "work s u = work s' u" if "u < n" "u \<noteq> t" for u
    proof -
      have "events_of c u = events_of (core s) u"
        using f that t inv(2) by (auto simp: events_of_def sb_counter_inc_def sb_counter_val_add simp del: cnt_index.simps split: worker_pc.splits)
      then show ?thesis using that s' by (simp add: work_def)
    qed
    then have "(\<Sum>t<n. work s' t) + work s t = (\<Sum>t<n. work s t) + work s' t"
      using t by (intro sum_update_one) auto
    moreover have "work s t < work s' t"
    proof (cases "\<exists>ev. w_pc (workers s ! t) = Execute ev")
      case True
      then obtain ev where ev: "w_pc (workers s ! t) = Execute ev" by blast
      have "claims s t \<le> (\<Sum>t<n. claims s t)" using t by (intro member_le_sum) simp_all
      then have lt: "events_of (core s) t < 2 ^ 64 - 1"
        using inv(3) ev unat_less_two_power_u64 [of m] by (simp add: claims_def granted_def)
      have "events_of c t = events_of (core s) t + 1"
        using events_of_inc [OF inv(2) t _ lt, of c t] f ev by simp
      then show ?thesis using e ev s' t inv(1) by (simp add: work_def)
    next
      case False
      then have "sb_counters c = sb_counters (core s)" using f by (auto split: worker_pc.splits)
      then have "events_of c t = events_of (core s) t" by (simp add: events_of_def)
      then show ?thesis using e False s' t inv(1) by (auto simp: work_def split: worker_pc.splits)
    qed
    ultimately show ?thesis by simp
  qed
  show "direct s'"
  proof (cases x)
    case (Worker_step t inp)
    then show ?thesis using worker by blast
  next
    case (Spurious_wakeup t)
    have "wake wk = wk" if "wk \<in> set (workers s)" for wk using d(3) [OF that] by (auto simp: wake_def)
    then have "signal t (workers s) = workers s" by (simp add: signal_def)
    then show ?thesis using assms(1,2) Spurious_wakeup by simp
  next
    case (Gen_step inp t)
    then show ?thesis using assms(2) d(2) by (simp add: eventgen_step_def)
  qed
  show "x = Worker_step t inp \<Longrightarrow> (\<Sum>t<n. work s t) < (\<Sum>t<n. work s' t)" using worker by blast
qed

lemma direct_run:
  assumes "fold_opt (step ops fp) xs s = Some s'" "direct s" "limit_inv m n s" "0 < m"
    and "unat (g_nevents (core s)) + length xs < 2 ^ 64" "only_workers xs"
  shows "direct s' \<and> limit_inv m n s' \<and> (\<Sum>t<n. work s t) + length xs \<le> (\<Sum>t<n. work s' t)"
  using assms
proof (induction xs arbitrary: s)
  case (Cons x xs)
  from Cons.prems(1) obtain s1 where s1: "step ops fp x s = Some s1" "fold_opt (step ops fp) xs s1 = Some s'"
    by (auto simp: bind_eq_Some_conv)
  obtain t inp where x: "x = Worker_step t inp" using Cons.prems(6) by (auto simp: only_workers_def)
  have "limit_inv m n s1" "unat (g_nevents (core s1)) \<le> unat (g_nevents (core s)) + 1"
    using limit_inv_step [OF Cons.prems(3,4) s1(1)] Cons.prems(5) by auto
  moreover have "only_workers xs" using Cons.prems(6) by (simp add: only_workers_def)
  moreover have "direct s1" by (rule direct_step(1) [OF Cons.prems(2) s1(1) Cons.prems(3,4)])
  moreover have "(\<Sum>t<n. work s t) < (\<Sum>t<n. work s1 t)" by (rule direct_step(2) [OF Cons.prems(2) s1(1) Cons.prems(3,4) x])
  ultimately show ?case using Cons.IH [OF s1(2)] Cons.prems(4,5) by fastforce
qed simp

lemma work_bound:
  assumes "direct s" "limit_inv m n s"
  shows "(\<Sum>t<n. work s t) \<le> 3 * unat m + 2 * n"
proof -
  have "work s t \<le> 3 * claims s t + 2" if "t < n" for t
  proof -
    have "pc_weight (w_pc (workers s ! t)) \<noteq> None" using assms that by (auto simp: direct_def limit_inv_def)
    then show ?thesis by (cases "w_pc (workers s ! t)") (simp_all add: work_def claims_def)
  qed
  then have "(\<Sum>t<n. work s t) \<le> (\<Sum>t<n. 3 * claims s t + 2)" by (intro sum_mono) simp
  also have "\<dots> = 3 * (\<Sum>t<n. claims s t) + 2 * n" by (simp only: sum.distrib sum_distrib_left) simp
  finally show ?thesis using assms(2) by (simp add: limit_inv_def)
qed

lemma exact_thread_step:
  assumes "thread_run_step ops fp inp t wk (w, c) = Some (wk', w', c')" "reliable ops" "\<not> g_error c" "g_max_time_ns c = 0"
    "g_tx_rate c = 0" "w_rc wk = 0" "pc_weight (w_pc wk) \<noteq> None" "0 < g_max_events c"
  shows "\<not> g_error c' \<and> g_max_time_ns c' = 0 \<and> w_rc wk' = 0 \<and>
    (w_pc wk = More_events \<longrightarrow> g_nevents c' = g_nevents c + 1 \<and>
      w_pc wk' = (if g_nevents c < g_max_events c then Next_event else Exited)) \<and>
    (w_pc wk \<noteq> More_events \<longrightarrow> w_pc wk' \<noteq> Exited \<and> g_nevents c' = g_nevents c)"
proof -
  obtain now rnd where inp: "inp = (now, rnd)" by (cases inp)
  note step = assms(1) [unfolded thread_run_step_def inp prod.case Let_def]
  show ?thesis
  proof (cases "w_pc wk")
    case More_events
    have nt: "\<not> time_limit_exceeded now c" using assms(4) by (simp add: time_limit_exceeded_def)
    obtain r c1 where b: "more_events_begin now c = (r, c1)" by (cases "more_events_begin now c")
    note e = more_events_begin_effect(3,4,6,7) [OF b]
    have r: "r = (if g_nevents c < g_max_events c then More else No_more)" using e(4) nt assms(3,5,8) by auto
    have n: "g_nevents c1 = g_nevents c + 1" using e(3) nt assms(3,8) by simp
    show ?thesis
      using step More_events b e(1,2) r n assms(3,4,6) by (auto split: if_splits simp: worker_thread_leave_def)
  next
    case Next_event
    have "fst (op_next_event ops t w) \<noteq> None" using assms(2) by (simp add: reliable_def)
    then show ?thesis using step Next_event assms(3,4,6) by (auto split: prod.splits option.splits)
  next
    case (Execute ev)
    have "fst (op_execute_event ops ev t w) = 0" using assms(2) by (simp add: reliable_def)
    then show ?thesis using step Execute assms(3,4) by (auto split: prod.splits)
  qed (use step assms(7) in auto)
qed

lemma exact_inv_worker:
  assumes inv: "exact_inv m n s" and m: "0 < m" and rel: "reliable ops"
    and ws: "worker_step ops fp t inp s = Some s'" and small: "unat (g_nevents (core s)) < 2 ^ 64 - 1"
  shows "exact_inv m n s'"
proof -
  have i: "g_max_events (core s) = m" "length (workers s) = n" "counters_wf n (sb_counters (core s))" "direct s"
    "(\<Sum>t<n. claims s t) \<le> unat m" "\<not> g_error (core s)" "g_max_time_ns (core s) = 0" "\<And>wk. wk \<in> set (workers s) \<Longrightarrow> w_rc wk = 0"
    "min (unat (g_nevents (core s))) (unat m) \<le> (\<Sum>t<n. claims s t)"
    "\<And>wk. wk \<in> set (workers s) \<Longrightarrow> w_pc wk = Exited \<Longrightarrow> m \<le> g_nevents (core s)"
    using inv by (auto simp: exact_inv_def limit_inv_def)
  obtain wk w c where t: "t < n" and st: "thread_run_step ops fp inp t (workers s ! t) (test_world s, core s) = Some (wk, w, c)"
    and s': "s' = s\<lparr>workers := (workers s)[t := wk], test_world := w, core := c\<rparr>"
    using ws i(2) by (auto simp: worker_step_def split: if_splits option.splits)
  have mem: "workers s ! t \<in> set (workers s)" using t i(2) by simp
  have d: "g_tx_rate (core s) = 0" "pc_weight (w_pc (workers s ! t)) \<noteq> None" using i(4) mem by (auto simp: direct_def)
  note e = exact_thread_step [OF st rel i(6,7) d(1) i(8) [OF mem] d(2), unfolded i(1), OF m]
  note f = thread_run_step_effect(5,6) [OF st]
  have mono: "g_nevents (core s) \<le> g_nevents c"
  proof (cases "w_pc (workers s ! t) = More_events")
    case True
    then have "g_nevents c = g_nevents (core s) + 1" using e by simp
    then show ?thesis using unat_plus_one [OF small] by (simp add: word_le_nat_alt)
  qed (use e in simp)
  have "min (unat (g_nevents c)) (unat m) \<le> (\<Sum>t<n. claims s' t)"
  proof -
    have ev: "events_of c u = (if u = t \<and> (case w_pc (workers s ! t) of Execute ev \<Rightarrow> True | _ \<Rightarrow> False) then events_of (core s) t + 1 else events_of (core s) u)" for u
    proof (cases "\<exists>ev. w_pc (workers s ! t) = Execute ev")
      case True
      then obtain ev where ev: "w_pc (workers s ! t) = Execute ev" by blast
      have "claims s t \<le> (\<Sum>t<n. claims s t)" using t by (intro member_le_sum) simp_all
      then have lt: "events_of (core s) t < 2 ^ 64 - 1"
        using i(5) ev unat_less_two_power_u64 [of m] by (simp add: claims_def granted_def)
      then show ?thesis using events_of_inc [OF i(3) t _ lt, of c u] f(1) ev by simp
    next
      case False
      then have "sb_counters c = sb_counters (core s)" using f(1) by (auto split: worker_pc.splits)
      then show ?thesis using False by (simp add: events_of_def split: worker_pc.splits)
    qed
    have "claims s' u = claims s u" if "u < n" "u \<noteq> t" for u using ev [of u] that s' by (simp add: claims_def)
    then have sum: "(\<Sum>t<n. claims s' t) + claims s t = (\<Sum>t<n. claims s t) + claims s' t"
      using t by (intro sum_update_one) auto
    have cl: "claims s' t = events_of c t + granted wk" "claims s t = events_of (core s) t + granted (workers s ! t)"
      using s' t i(2) by (simp_all add: claims_def)
    show ?thesis
    proof (cases "w_pc (workers s ! t) = More_events")
      case True
      then have "events_of c t = events_of (core s) t" "granted (workers s ! t) = 0" using ev [of t] by (simp_all add: granted_def)
      moreover have "g_nevents (core s) < m \<Longrightarrow> granted wk = 1" using e True by (simp add: granted_def)
      moreover have "unat (g_nevents c) = unat (g_nevents (core s)) + 1" using e True unat_plus_one [OF small] by simp
      ultimately show ?thesis using sum cl i(9) by (cases "g_nevents (core s) < m") (auto simp: word_less_nat_alt)
    next
      case False
      then have "g_nevents c = g_nevents (core s)" "w_pc wk \<noteq> Exited" using e by simp_all
      moreover have "claims s t \<le> claims s' t"
        using ev [of t] cl f(2) False thread_run_step_enabled [OF st] \<open>w_pc wk \<noteq> Exited\<close> granted_le [of "workers s ! t"]
        by (cases "w_pc (workers s ! t)"; cases "w_pc wk") (auto simp: granted_def)
      ultimately show ?thesis using sum i(9) by simp
    qed
  qed
  moreover have "m \<le> g_nevents c" if x: "wk' \<in> set ((workers s)[t := wk])" "w_pc wk' = Exited" for wk'
  proof -
    have "wk' = wk \<or> wk' \<in> set (workers s)" using x(1) set_update_subset_insert by fastforce
    moreover have ?thesis if "w_pc wk = Exited"
    proof -
      have "m \<le> g_nevents (core s)" using e that by (auto split: if_splits)
      then show ?thesis using mono by simp
    qed
    ultimately show ?thesis using i(10) x(2) mono by (meson order_trans)
  qed
  moreover have "limit_inv m n s'" using limit_inv_worker(1) [OF _ m ws small] inv by (simp add: exact_inv_def)
  moreover have "direct s'" using direct_step(1) [of s ops fp "Worker_step t inp" s' m n] ws m inv by (simp add: exact_inv_def)
  moreover have "\<forall>wk' \<in> set ((workers s)[t := wk]). w_rc wk' = 0"
    using e i(8) set_update_subset_insert [of "workers s" t wk] by auto
  ultimately show ?thesis using e s' by (auto simp: exact_inv_def)
qed

lemma exact_inv_run:
  assumes "fold_opt (step ops fp) xs s = Some s'" "exact_inv m n s" "0 < m" "reliable ops"
    and "unat (g_nevents (core s)) + length xs < 2 ^ 64" "only_workers xs"
  shows "exact_inv m n s'"
  using assms
proof (induction xs arbitrary: s)
  case (Cons x xs)
  from Cons.prems(1) obtain s1 where s1: "step ops fp x s = Some s1" "fold_opt (step ops fp) xs s1 = Some s'"
    by (auto simp: bind_eq_Some_conv)
  obtain t inp where x: "x = Worker_step t inp" using Cons.prems(6) by (auto simp: only_workers_def)
  have "exact_inv m n s1" using exact_inv_worker [OF Cons.prems(2,3,4), of fp t inp s1] s1(1) x Cons.prems(5) by simp
  moreover have "unat (g_nevents (core s1)) \<le> unat (g_nevents (core s)) + 1"
    using limit_inv_step [of m n s ops fp x s1] s1(1) Cons.prems(2,3,5) by (simp add: exact_inv_def)
  moreover have "only_workers xs" using Cons.prems(6) by (simp add: only_workers_def)
  ultimately show ?case using Cons.IH [OF s1(2)] Cons.prems(3-5) by fastforce
qed simp

section \<open>Accounting\<close>

lemma hist_total_update:
  assumes "hist_wf h"
  shows "hist_total (sb_histogram_update fp rnd v h) = hist_total h + 1"
proof -
  note u = hist_update_counts [OF assms, of fp v rnd]
  have "hist_total (sb_histogram_update fp rnd v h) = (\<Sum>b < array_size h. hist_count h b + (if b = bucket fp h v then 1 else 0))"
    using u by (simp add: hist_total_def sb_histogram_update_def)
  also have "\<dots> = hist_total h + (\<Sum>b < array_size h. if b = bucket fp h v then 1 else 0)"
    by (simp add: hist_total_def sum.distrib)
  finally show ?thesis using u by simp
qed

lemma sum_bump:
  fixes f :: "nat \<Rightarrow> u64"
  assumes "t < n"
  shows "(\<Sum>u<n. if u = t then f u + 1 else f u) = (\<Sum>u<n. f u) + 1"
proof -
  have "(\<Sum>u<n. if u = t then f u + 1 else f u) = (\<Sum>u<n. f u + (if u = t then 1 else 0))"
    by (intro sum.cong) auto
  then show ?thesis using assms by (simp add: sum.distrib)
qed

text \<open>What a thread changes besides its state: the timer, the counter and the histogram of one event.\<close>

lemma thread_run_step_timers:
  assumes "thread_run_step ops fp inp t wk (w, c) = Some (wk', w', c')" "t < length (thread_timers c)"
  shows "length (thread_timers c') = length (thread_timers c) \<and> g_percentile c' = g_percentile c \<and>
    (\<forall>u. tm_events (thread_timers c' ! u) = tm_events (thread_timers c ! u) +
       (if u = t \<and> (case w_pc wk of Execute ev \<Rightarrow> True | _ \<Rightarrow> False) then 1 else 0)) \<and>
    (\<exists>rnd v. sb_latency_histogram c' =
       (if (case w_pc wk of Execute ev \<Rightarrow> True | _ \<Rightarrow> False) \<and> 0 < g_percentile c
        then sb_histogram_update fp rnd v (sb_latency_histogram c) else sb_latency_histogram c))"
proof -
  obtain now rnd where inp: "inp = (now, rnd)" by (cases inp)
  note step = assms(1) [unfolded thread_run_step_def inp prod.case Let_def]
  have keep: "?thesis" if "w_pc wk = pc" "\<And>ev. pc \<noteq> Execute ev" "length (thread_timers c') = length (thread_timers c)"
    "g_percentile c' = g_percentile c" "sb_latency_histogram c' = sb_latency_histogram c"
    "\<And>u. tm_events (thread_timers c' ! u) = tm_events (thread_timers c ! u)" for pc
    using that by (auto split: worker_pc.splits)
  show ?thesis
  proof (cases "w_pc wk")
    case More_events
    obtain r c1 where b: "more_events_begin now c = (r, c1)" by (cases "more_events_begin now c")
    have "c' = c1 \<or> c' = snd (worker_thread_leave ops t (w_rc wk) (w, c1))"
      using step More_events b by (cases r) (auto split: if_splits)
    with more_events_begin_effect(8-10) [OF b] show ?thesis by (intro keep [OF More_events]) auto
  next
    case Dequeue
    obtain r c1 where b: "more_events_dequeue c = (r, c1)" by (cases "more_events_dequeue c")
    then have "c' = c1" using step Dequeue by (auto split: dequeue_result.splits)
    with more_events_dequeue_effect(7-9) [OF b] show ?thesis by (intro keep [OF Dequeue]) auto
  next
    case Recheck
    obtain r c1 where b: "more_events_recheck now c = (r, c1)" by (cases "more_events_recheck now c")
    then have "c' = c1 \<or> c' = snd (worker_thread_leave ops t (w_rc wk) (w, c1))"
      using step Recheck by (auto split: bool.splits)
    with more_events_recheck_effect(7-9) [OF b] show ?thesis by (intro keep [OF Recheck]) auto
  next
    case (Finish p)
    obtain c1 where b: "more_events_finish now t p c = Some c1" using step Finish by (auto split: option.splits)
    then have "c' = c1 \<or> c' = snd (worker_thread_leave ops t (w_rc wk) (w, c1))"
      using step Finish by (auto split: if_splits)
    moreover have "length (thread_timers c1) = length (thread_timers c)"
      "\<And>u. tm_events (thread_timers c1 ! u) = tm_events (thread_timers c ! u)"
      using b assms(2) by (auto simp: more_events_finish_def nth_list_update split: option.splits)
    ultimately show ?thesis using more_events_finish_effect(7,8) [OF b] by (intro keep [OF Finish]) auto
  next
    case Next_event
    obtain r w1 where b: "op_next_event ops t w = (r, w1)" by (cases "op_next_event ops t w")
    then have "c' = sb_event_start now t c \<or> c' = snd (worker_thread_leave ops t (w_rc wk) (w1, c))"
      using step Next_event by (auto split: option.splits)
    then show ?thesis using assms(2)
      by (intro keep [OF Next_event]) (auto simp: sb_event_start_def sb_timer_start_def nth_list_update)
  next
    case (Execute ev)
    obtain r w1 where b: "op_execute_event ops ev t w = (r, w1)" by (cases "op_execute_event ops ev t w")
    obtain tm el where tm: "sb_timer_stop now (thread_timers c ! t) = (tm, el)" by (cases "sb_timer_stop now (thread_timers c ! t)")
    then have "tm_events tm = tm_events (thread_timers c ! t) + 1" by (auto simp: sb_timer_stop_def Let_def)
    moreover have "c' = sb_event_stop fp now rnd t c" using step Execute b by simp
    then have "thread_timers c' = (thread_timers c)[t := tm]" "g_percentile c' = g_percentile c"
      "sb_latency_histogram c' = (if 0 < g_percentile c then sb_histogram_update fp rnd (NS2MS fp (sint el)) (sb_latency_histogram c)
         else sb_latency_histogram c)"
      using tm by (simp_all add: sb_event_stop_def Let_def)
    ultimately show ?thesis using Execute assms(2) by (auto simp: nth_list_update)
  next
    case Before_wait
    then show ?thesis using step by (intro keep [OF Before_wait]) auto
  qed (use step in auto)
qed

lemma accounts_worker:
  assumes acc: "accounts base n s" and ws: "worker_step ops fp t inp s = Some s'"
  shows "accounts base n s'"
proof -
  have a: "length (workers s) = n" "counters_wf n (sb_counters (core s))" "length (thread_timers (core s)) = n + 1"
    "hist_wf (sb_latency_histogram (core s))" "\<And>t. t < n \<Longrightarrow> tm_events (thread_timers (core s) ! t) = event_count (core s) t - base t"
    "0 < g_percentile (core s) \<Longrightarrow> hist_total (sb_latency_histogram (core s)) = (\<Sum>t<n. event_count (core s) t - base t)"
    using acc by (simp_all add: accounts_def)
  obtain wk w c where t: "t < n" and st: "thread_run_step ops fp inp t (workers s ! t) (test_world s, core s) = Some (wk, w, c)"
    and s': "s' = s\<lparr>workers := (workers s)[t := wk], test_world := w, core := c\<rparr>"
    using ws a(1) by (auto simp: worker_step_def split: if_splits option.splits)
  let ?ex = "case w_pc (workers s ! t) of Execute ev \<Rightarrow> True | _ \<Rightarrow> False"
  have e: "length (thread_timers c) = n + 1" "g_percentile c = g_percentile (core s)"
    "\<And>u. tm_events (thread_timers c ! u) = tm_events (thread_timers (core s) ! u) + (if u = t \<and> ?ex then 1 else 0)"
    and h: "\<exists>rnd v. sb_latency_histogram c = (if ?ex \<and> 0 < g_percentile (core s)
      then sb_histogram_update fp rnd v (sb_latency_histogram (core s)) else sb_latency_histogram (core s))"
    using thread_run_step_timers [OF st] t a(3) by simp_all
  have ctr: "sb_counters c = (if ?ex then sb_counter_inc t SB_CNT_EVENT (sb_counters (core s)) else sb_counters (core s))"
    using thread_run_step_effect(5) [OF st] by (simp split: worker_pc.splits)
  then have val: "event_count c u = (if u = t then event_count (core s) u + (if ?ex then 1 else 0) else event_count (core s) u)" for u
    using a(2) t by (simp add: event_count_def sb_counter_inc_def sb_counter_val_add del: cnt_index.simps)
  have "counters_wf n (sb_counters c)" using ctr a(2) t by (simp add: sb_counter_inc_def)
  moreover from h obtain rnd v where h: "sb_latency_histogram c = (if ?ex \<and> 0 < g_percentile (core s)
      then sb_histogram_update fp rnd v (sb_latency_histogram (core s)) else sb_latency_histogram (core s))" by blast
  then have "hist_wf (sb_latency_histogram c)" using a(4) hist_update_counts [OF a(4), of fp v rnd] by simp
  moreover have "tm_events (thread_timers c ! u) = event_count c u - base u" if "u < n" for u using e(3) [of u] val [of u] a(5) [OF that] by simp
  moreover have "hist_total (sb_latency_histogram c) = (\<Sum>t<n. event_count c t - base t)" if p: "0 < g_percentile c"
  proof (cases ?ex)
    case True
    have "(\<Sum>u<n. event_count c u - base u) =
        (\<Sum>u<n. if u = t then (event_count (core s) u - base u) + 1 else event_count (core s) u - base u)"
      using val True by (intro sum.cong) auto
    then show ?thesis using sum_bump [OF t] h True p e(2) a(4,6) by (simp add: hist_total_update)
  next
    case False
    then have "event_count c u = event_count (core s) u" for u using val [of u] by simp
    then show ?thesis using False h a(6) p e(2) by simp
  qed
  ultimately show ?thesis using e s' a(1) by (simp add: accounts_def)
qed

lemma accounts_step:
  assumes "accounts base n s" "step ops fp x s = Some s'"
  shows "accounts base n s'"
proof (cases x)
  case (Worker_step t inp)
  then show ?thesis using accounts_worker assms by (metis step.simps(1))
next
  case (Spurious_wakeup t)
  then show ?thesis using assms by (auto simp: accounts_def signal_def)
next
  case (Gen_step inp t)
  note e = eventgen_effect [of fp inp t s s']
  show ?thesis using assms e Gen_step by (auto simp: accounts_def event_count_def broadcast_def signal_def)
qed

lemma accounts_run: "fold_opt (step ops fp) xs s = Some s' \<Longrightarrow> accounts base n s \<Longrightarrow> accounts base n s'"
  by (induction xs arbitrary: s) (auto simp: bind_eq_Some_conv dest: accounts_step)

section \<open>Properties\<close>

lemma fold_opt_take:
  assumes "fold_opt f xs s = Some s'"
  shows "\<exists>s1. fold_opt f (take k xs) s = Some s1"
proof -
  have "fold_opt f (take k xs @ drop k xs) s = Some s'" using assms by simp
  then show ?thesis unfolding fold_opt_append by (auto simp: bind_eq_Some_conv)
qed

lemma sys_started_direct:
  assumes "sys_started n s" "g_tx_rate (core s) = 0" "gen_pc s = Gen_absent"
  shows "direct s" "(\<Sum>t<n. work s t) = 0"
proof -
  show "direct s" using assms by (auto simp: direct_def sys_started_def)
  have "work s t = 0" if "t < n" for t
    using limit_inv_start(2) [OF assms(1), of t] that assms(1) by (auto simp: work_def sys_started_def)
  then show "(\<Sum>t<n. work s t) = 0" by simp
qed

lemma events_le_claims: "limit_inv m n s \<Longrightarrow> events_done s \<le> unat m"
proof -
  assume i: "limit_inv m n s"
  then have "events_done s \<le> (\<Sum>t<n. claims s t)"
    unfolding events_done_def limit_inv_def claims_def by (auto intro: sum_mono)
  then show ?thesis using i by (simp add: limit_inv_def)
qed

lemma exact_events:
  assumes "exact_inv m n s" "all_exited s" "0 < n"
  shows "events_done s = unat m"
proof -
  have n: "length (workers s) = n" using assms(1) by (simp add: exact_inv_def limit_inv_def)
  then have "workers s ! 0 \<in> set (workers s)" "w_pc (workers s ! 0) = Exited" using assms(2,3) by (auto simp: all_exited_def)
  then have "m \<le> g_nevents (core s)" using assms(1) by (auto simp: exact_inv_def)
  then have le: "unat m \<le> (\<Sum>t<n. claims s t)" using assms(1) by (simp add: exact_inv_def word_le_nat_alt)
  have "claims s t = events_of (core s) t" if "t < n" for t
    using assms(2) n that by (simp add: claims_def all_exited_def granted_def)
  then have "(\<Sum>t<n. claims s t) = events_done s" by (simp add: events_done_def n)
  then show ?thesis using le events_le_claims assms(1) by (force simp: exact_inv_def)
qed

lemma accounts_start:
  assumes "sys_started n s" "hist_wf (sb_latency_histogram (core s))" "hist_total (sb_latency_histogram (core s)) = 0"
  shows "accounts (\<lambda>t. 0) n s"
proof -
  have "events_of (core s) t = 0" if "t < n" for t using limit_inv_start(2) [OF assms(1), of t] that by simp
  then have "event_count (core s) t = 0" if "t < n" for t
    using that by (simp add: events_of_def event_count_def unat_eq_zero del: cnt_index.simps)
  then show ?thesis
    using assms by (simp add: accounts_def sys_started_def sb_timer_init_def sb_timer_reset_def timer_zero_def)
qed

text \<open>
  C2 (event_limit): with a limit on the number of events, no interleaving of the worker threads,
  the generator and spurious wake-ups completes more events than the limit, in either mode and
  whatever the test does; the threads share no lock, only the counter of events.
\<close>

theorem event_limit:
  assumes "sys_started n s" "0 < g_max_events (core s)" "fold_opt (step ops fp) xs s = Some s'" "length xs < 2 ^ 64"
  shows "events_done s' \<le> unat (g_max_events (core s))"
proof -
  have "g_nevents (core s) = 0" using assms(1) by (simp add: sys_started_def)
  then have "limit_inv (g_max_events (core s)) n s'"
    using limit_inv_run [OF assms(3) limit_inv_start(1) [OF assms(1)] assms(2)] assms(4) by simp
  then show ?thesis by (rule events_le_claims)
qed


text \<open>
  C9 (events_accounted): whatever the interleaving, the three records of completed events agree:
  for every thread, the number of events in its timer is its event counter, and with percentiles
  enabled the histogram holds as many events as all the counters together.
\<close>

theorem events_accounted:
  assumes "sys_started n s" "hist_wf (sb_latency_histogram (core s))" "hist_total (sb_latency_histogram (core s)) = 0"
    and "fold_opt (step ops fp) xs s = Some s'"
  shows "(\<forall>t < n. tm_events (thread_timers (core s') ! t) = event_count (core s') t) \<and>
    (0 < g_percentile (core s') \<longrightarrow> hist_total (sb_latency_histogram (core s')) = (\<Sum>t<n. event_count (core s') t))"
  using accounts_run [OF assms(4) accounts_start [OF assms(1-3)]] by (simp add: accounts_def)

lemma sys_start_started: "sys_started n (sys_start n m pct)"
  by (auto simp add: sys_started_def sys_start_def core_start_def log_state.defs core_state.defs log_state0_def nth_Cons' simp del: replicate_Suc)

lemma sys_start_fields [simp]:
  "g_max_events (core (sys_start n m pct)) = m" "g_tx_rate (core (sys_start n m pct)) = 0" "gen_pc (sys_start n m pct) = Gen_absent"
  "g_error (core (sys_start n m pct)) = False" "g_max_time_ns (core (sys_start n m pct)) = 0" "g_percentile (core (sys_start n m pct)) = pct"
  "g_nevents (core (sys_start n m pct)) = 0" "g_threads (core (sys_start n m pct)) = of_nat n"
  "length (timers_copy (core (sys_start n m pct))) = n + 1" "last_counters (core (sys_start n m pct)) = report_state0"
  by (simp_all add: sys_start_def core_start_def log_state.defs core_state.defs log_state0_def)

lemma replicate_4: "replicate 4 x = [x, x, x, x]"
  by (simp add: eval_nat_numeral)

lemma one_event_runs:
  "\<exists>s'. fold_opt (step counting_test fp) one_event (sys_start 1 1 pct) = Some s' \<and> all_exited s' \<and> g_percentile (core s') = pct"
proof -
  let ?s = "sys_start 1 1 pct" and ?x = "Worker_step 0 (\<lparr>tv_sec = 0, tv_nsec = 0\<rparr>, 0)"
  have w: "workers ?s = [\<lparr>w_pc = More_events, w_rc = 0\<rparr>]" by (simp add: sys_start_def)
  show ?thesis
    using w
    by (auto simp: one_event_def replicate_4 worker_step_def thread_run_step_def more_events_begin_def time_limit_exceeded_def
       counting_test_def all_exited_def worker_thread_leave_def Let_def)
qed

theorem event_limit_witness:
  "\<exists>s'. fold_opt (step counting_test (rounded_ops (\<lambda>x. x) (\<lambda>x. x) (\<lambda>x y. x))) one_event (sys_start 1 1 0) = Some s' \<and> events_done s' \<le> 1"
proof -
  obtain s' where s': "fold_opt (step counting_test (rounded_ops (\<lambda>x. x) (\<lambda>x. x) (\<lambda>x y. x))) one_event (sys_start 1 1 0) = Some s'" using one_event_runs by blast
  from event_limit [OF sys_start_started _ s'] s' show ?thesis by (simp add: one_event_def)
qed


lemma sys_start_histogram:
  fixes n m pct
  defines "h \<equiv> sb_latency_histogram (core (sys_start n m pct))"
  shows "hist_wf h" "\<not> hist_locked h" "hist_total h = 0"
proof -
  have h: "h = \<lparr>cumulative_array = [0], cumulative_nevents = 0, temp_array = [0],
        interm_slots = replicate SB_HISTOGRAM_NSLOTS [0], array_size = 1, range_min = 1, range_max = 1,
        range_deduct = 0, range_mult = 1, hist_locked = False\<rparr>"
    by (simp add: h_def sys_start_def core_start_def log_state.defs core_state.defs)
  show "hist_wf h" "\<not> hist_locked h" "hist_total h = 0"
    unfolding h by (simp_all add: hist_wf_def slots_wf_def SB_HISTOGRAM_NSLOTS_def hist_total_def hist_count_def col_def sum_list_replicate)
qed

theorem events_accounted_witness:
  "\<exists>s'. fold_opt (step counting_test (rounded_ops (\<lambda>x. x) (\<lambda>x. x) (\<lambda>x y. x))) one_event (sys_start 1 1 95) = Some s' \<and>
     hist_total (sb_latency_histogram (core s')) = tm_events (thread_timers (core s') ! 0)"
proof -
  obtain s' where s': "fold_opt (step counting_test (rounded_ops (\<lambda>x. x) (\<lambda>x. x) (\<lambda>x y. x))) one_event (sys_start 1 1 95) = Some s'" "g_percentile (core s') = 95"
    using one_event_runs by blast
  from events_accounted [OF sys_start_started sys_start_histogram(1,3) s'(1)] s' show ?thesis by simp
qed

text \<open>
  The generator wakes the waiting threads once and leaves.  A thread that has found the queue empty
  and has not yet started to wait misses the signal and waits for ever.
\<close>

lemma lost_wakeup:
  assumes "workers s = [wk]" "w_pc wk = Before_wait" "gen_pc s = Gen_tick" "time_limit_exceeded (fst inp) (core s)"
  shows "\<exists>s'. fold_opt (step ops fp) [Gen_step inp 0, Worker_step 0 inp] s = Some s' \<and> \<not> all_exited s' \<and>
    (\<forall>t inp. step ops fp (Worker_step t inp) s' = None \<and> step ops fp (Gen_step inp t) s' = None)"
proof -
  have "\<exists>g. eventgen_tick fp (fst inp) (gen_vars s) (core s) = (None, g)"
    using assms(4) by (auto simp: eventgen_tick_def time_limit_exceeded_def Let_def split: prod.splits)
  then obtain g where "eventgen_tick fp (fst inp) (gen_vars s) (core s) = (None, g)" by blast
  then show ?thesis
    using assms(1-3) by (cases inp)
      (auto simp: eventgen_step_def worker_step_def thread_run_step_def broadcast_def wake_def all_exited_def)
qed

text \<open>
  A thread that finds the queue empty while the error flag is set leaves the loop with a null
  pointer, and reads through it.
\<close>

lemma error_null_pointer:
  assumes "ck_ring_dequeue_spmc (queue_ring c) = None" "g_error c"
  shows "more_events_dequeue c = (Loop_exit None, c) \<and> more_events_finish now t None c = None"
  using assms by (simp add: more_events_dequeue_def more_events_finish_def)

lemma queue_put_start:
  assumes "length array = MAX_QUEUE_LEN" "length buf = MAX_QUEUE_LEN"
  shows "\<exists>q. queue_put x (0, array, (ck_ring_init (of_nat MAX_QUEUE_LEN), buf)) = Some q"
proof -
  have "event_queue_rep (0, array, (ck_ring_init (of_nat MAX_QUEUE_LEN), buf)) []"
    using assms ring_rep_init [of 17 buf] by (simp add: event_queue_rep_alt slots_before_def MAX_QUEUE_LEN_def)
  then have "\<exists>q'. queue_put x (0, array, (ck_ring_init (of_nat MAX_QUEUE_LEN), buf)) = Some q' \<and> event_queue_rep q' ([] @ [x])"
    by (rule queue_put_room) (simp add: MAX_QUEUE_LEN_def)
  then show ?thesis by blast
qed


end
