(* ===== verification/SB_Report.thy ===== *)
theory SB_Report
  imports SB_Core
begin

text \<open>
  Statistics of the benchmark core, \<open>src/src/sysbench.c\<close>: intermediate and cumulative reports,
  checkpoints, and the threads that produce them.

  \<open>clk k\<close> is the \<open>k\<close>-th reading of the clock during a call and \<open>val i t\<close> what the load of counter
  \<open>t\<close> of thread \<open>i\<close> returns.  \<open>out_ops\<close> holds what the reports need from the C library besides the
  arithmetic: the square root, and the decimal text of a number with a given precision.  Waiting for
  a lock that is never released has the result \<open>None\<close>.
\<close>

section \<open>Data\<close>

record 'd sb_stat_t =
  stat_threads_running :: u32
  stat_time_interval :: 'd
  stat_time_total :: 'd
  stat_latency_pct :: 'd
  stat_latency_min :: 'd
  stat_latency_max :: 'd
  stat_latency_avg :: 'd
  stat_latency_sum :: 'd
  stat_events :: u64
  stat_reads :: u64
  stat_writes :: u64
  stat_other :: u64
  stat_errors :: u64
  stat_reconnects :: u64
  stat_bytes_read :: u64
  stat_bytes_written :: u64
  stat_queue_length :: u64
  stat_concurrency :: u64

record 'd out_ops =
  out_sqrt :: "'d \<Rightarrow> 'd"
  out_dec :: "nat \<Rightarrow> 'd \<Rightarrow> string"

text \<open>
  The two functions on rationals: a number is printed rounded to nearest, ties to even, as the
  C library does with the exact value of a \<open>double\<close>.
\<close>

definition print_fixed :: "nat \<Rightarrow> rat \<Rightarrow> string" where
  "print_fixed p x =
     (let digits = print_dec (nat (round_half_even (\<bar>x\<bar> * 10 ^ p)));
          digits = replicate (p + 1 - length digits) CHR ''0'' @ digits;
          whole = take (length digits - p) digits;
          fraction = drop (length digits - p) digits
      in (if x < 0 then ''-'' else []) @ whole @ (if p = 0 then [] else CHR ''.'' # fraction))"

definition ieee_out :: "rat out_ops" where
  "ieee_out = \<lparr>out_sqrt = sqrt_double, out_dec = print_fixed\<rparr>"

text \<open>The report functions of a test; \<open>None\<close> is a null pointer.\<close>

record ('d, 'w) report_ops =
  op_report_intermediate :: "('d sb_stat_t \<Rightarrow> 'w \<Rightarrow> 'w) option"
  op_report_cumulative :: "('d sb_stat_t \<Rightarrow> 'w \<Rightarrow> 'w) option"

definition NS2SEC :: "'d fp_ops \<Rightarrow> u64 \<Rightarrow> 'd" where
  "NS2SEC fp nsec = fp_div fp (fp_of_u64 fp nsec) (fp_of fp 1000000000)"

definition MS2SEC :: "'d fp_ops \<Rightarrow> 'd \<Rightarrow> 'd" where
  "MS2SEC fp msec = fp_div fp msec (fp_of fp 1000)"

definition SEC2MS :: "'d fp_ops \<Rightarrow> 'd \<Rightarrow> 'd" where
  "SEC2MS fp sec = fp_mul fp sec (fp_of fp 1000)"

text \<open>A conversion with a width: blanks on the left.\<close>

definition pad :: "nat \<Rightarrow> string \<Rightarrow> string" where
  "pad w t = replicate (w - length t) CHR '' '' @ t"

section \<open>Intermediate reports\<close>

definition sb_report_intermediate ::
  "'d fp_ops \<Rightarrow> 'd out_ops \<Rightarrow> 'd sb_stat_t \<Rightarrow> ('d, 'z) core_state_scheme \<Rightarrow> ('d, 'z) core_state_scheme"
where
  "sb_report_intermediate fp out stat c =
     (let stamp = out_dec out 0 (stat_time_total stat);
          c = log_timestamp LOG_NOTICE stamp (Formatted
                (''thds: '' @ print_dec (unat (stat_threads_running stat)) @
                 '' eps: '' @ pad 4 (out_dec out 2 (fp_div fp (fp_of_u64 fp (stat_events stat)) (stat_time_interval stat))) @
                 '' lat (ms,'' @ print_dec (unat (g_percentile c)) @ ''%): '' @
                 pad 4 (out_dec out 2 (SEC2MS fp (stat_latency_pct stat))))) c
      in if g_tx_rate c > 0
         then log_timestamp LOG_NOTICE stamp (Formatted
                (''queue length: '' @ print_dec (unat (stat_queue_length stat)) @
                 '' concurrency: '' @ print_dec (unat (stat_concurrency stat)))) c
         else c)"

definition report_get_common_stat ::
  "'d fp_ops \<Rightarrow> timespec \<Rightarrow> sb_counters_t \<Rightarrow> ('d, 'z) core_state_scheme \<Rightarrow> 'd sb_stat_t"
where
  "report_get_common_stat fp now cnt c =
     \<lparr>stat_threads_running = g_threads_running c,
      stat_time_interval = fp_of fp 0,
      stat_time_total = fp_sub fp (NS2SEC fp (sb_timer_value now (sb_exec_timer c))) (fp_of fp (of_int (g_warmup_time c))),
      stat_latency_pct = fp_of fp 0, stat_latency_min = fp_of fp 0, stat_latency_max = fp_of fp 0,
      stat_latency_avg = fp_of fp 0, stat_latency_sum = fp_of fp 0,
      stat_events = cnt ! cnt_index SB_CNT_EVENT,
      stat_reads = cnt ! cnt_index SB_CNT_READ,
      stat_writes = cnt ! cnt_index SB_CNT_WRITE,
      stat_other = cnt ! cnt_index SB_CNT_OTHER,
      stat_errors = cnt ! cnt_index SB_CNT_ERROR,
      stat_reconnects = cnt ! cnt_index SB_CNT_RECONNECT,
      stat_bytes_read = cnt ! cnt_index SB_CNT_BYTES_READ,
      stat_bytes_written = cnt ! cnt_index SB_CNT_BYTES_WRITTEN,
      stat_queue_length = 0, stat_concurrency = 0\<rparr>"

definition report_intermediate ::
  "'d fp_ops \<Rightarrow> 'd out_ops \<Rightarrow> ('d, 'w) report_ops \<Rightarrow> (nat \<Rightarrow> timespec) \<Rightarrow> (nat \<Rightarrow> nat \<Rightarrow> u64) \<Rightarrow>
     'w \<times> ('d, 'z) core_state_scheme \<Rightarrow> ('w \<times> ('d, 'z) core_state_scheme) option"
where
  "report_intermediate fp out ops clk val = (\<lambda>(w, c).
     if g_report_interval c = 0 then Some (w, c)
     else do {
       let (last, cnt) = sb_counters_agg_intermediate (unat (g_threads c)) val (last_counters c);
       let c = c\<lparr>last_counters := last\<rparr>;
       let stat = report_get_common_stat fp (clk 0) cnt c;
       (h, pct) \<leftarrow> sb_histogram_get_pct_intermediate fp (fp_of_u32 fp (g_percentile c)) (sb_latency_histogram c);
       let c = c\<lparr>sb_latency_histogram := h\<rparr>;
       let stat = stat\<lparr>stat_latency_pct := MS2SEC fp pct\<rparr>;
       let (t, elapsed) = sb_timer_current (clk 1) (sb_intermediate_timer c);
       let c = c\<lparr>sb_intermediate_timer := t\<rparr>;
       let stat = stat\<lparr>stat_time_interval := NS2SEC fp elapsed\<rparr>;
       let stat = (if g_tx_rate c > 0
                   then stat\<lparr>stat_queue_length := ucast (ck_ring_size (fst (queue_ring c))),
                             stat_concurrency := word_of_int (g_concurrency c)\<rparr>
                   else stat);
       Some (case op_report_intermediate ops of
               Some f \<Rightarrow> (f stat w, c)
             | None \<Rightarrow> (w, sb_report_intermediate fp out stat c))
     })"

section \<open>Cumulative reports\<close>

text \<open>The loop over the copied timers at a forced shutdown, and what it logs.\<close>

definition stop_running_timers ::
  "(nat \<Rightarrow> timespec) \<Rightarrow> nat \<Rightarrow> sb_timer_t list \<Rightarrow> u32 \<times> sb_timer_t list"
where
  "stop_running_timers clk nthreads ts =
     fold (\<lambda>i (unfinished, ts).
       if sb_timer_running (ts ! i) then (unfinished + 1, ts[i := fst (sb_timer_stop (clk i) (ts ! i))])
       else (unfinished, ts)) [0..<nthreads] (0, ts)"

definition report_unfinished ::
  "(nat \<Rightarrow> timespec) \<Rightarrow> ('d, 'z) core_state_scheme \<Rightarrow> ('d, 'z) core_state_scheme"
where
  "report_unfinished clk c =
     (let (unfinished, ts) = stop_running_timers clk (unat (g_threads c)) (timers_copy c);
          c = c\<lparr>timers_copy := ts\<rparr>
      in if unfinished > 0
         then log_text LOG_NOTICE (Formatted (''Number of unfinished transactions on forced shutdown: '' @
                print_dec (unat unfinished))) (log_text LOG_NOTICE (Formatted []) c)
         else c)"

text \<open>A sequence of messages.\<close>

definition log_lines ::
  "(log_msg_priority_t \<times> string) list \<Rightarrow> ('d, 'z) log_state_scheme \<Rightarrow> ('d, 'z) log_state_scheme"
where
  "log_lines = fold (\<lambda>(p, t). log_text p (Formatted t))"

definition throughput_lines :: "'d fp_ops \<Rightarrow> 'd out_ops \<Rightarrow> 'd sb_stat_t \<Rightarrow> (log_msg_priority_t \<times> string) list" where
  "throughput_lines fp out stat = map (Pair LOG_NOTICE)
     [[], ''Throughput:'',
      ''    events/s (eps):                      '' @ out_dec out 4 (fp_div fp (fp_of_u64 fp (stat_events stat)) (stat_time_interval stat)),
      ''    time elapsed:                        '' @ out_dec out 4 (stat_time_total stat) @ ''s'',
      ''    total number of events:              '' @ print_dec (unat (stat_events stat)),
      []]"

definition latency_lines ::
  "'d fp_ops \<Rightarrow> 'd out_ops \<Rightarrow> u32 \<Rightarrow> 'd sb_stat_t \<Rightarrow> (log_msg_priority_t \<times> string) list"
where
  "latency_lines fp out percentile stat = map (Pair LOG_NOTICE)
     [''Latency (ms):'',
      ''         min: '' @ pad 39 (out_dec out 2 (SEC2MS fp (stat_latency_min stat))),
      ''         avg: '' @ pad 39 (out_dec out 2 (SEC2MS fp (stat_latency_avg stat))),
      ''         max: '' @ pad 39 (out_dec out 2 (SEC2MS fp (stat_latency_max stat))),
      (if percentile > 0
       then ''        '' @ pad 3 (print_int (sint percentile)) @ ''th percentile: '' @
              pad 27 (out_dec out 2 (SEC2MS fp (stat_latency_pct stat)))
       else ''         percentile stats:               disabled''),
      ''         sum: '' @ pad 39 (out_dec out 2 (SEC2MS fp (stat_latency_sum stat))),
      []]"

text \<open>The timers of the first \<open>n\<close> threads, merged one after the other.\<close>

definition merge_timers :: "nat \<Rightarrow> sb_timer_t list \<Rightarrow> sb_timer_t" where
  "merge_timers n ts = fold (\<lambda>i t. sb_timer_merge t (ts ! i)) [0..<n] (sb_timer_init timer_zero)"

text \<open>Averages and standard deviations over the threads, of the events and of the time.\<close>

definition fairness ::
  "'d fp_ops \<Rightarrow> 'd out_ops \<Rightarrow> u32 \<Rightarrow> 'd \<Rightarrow> sb_timer_t list \<Rightarrow> ('d \<times> 'd) \<times> 'd \<times> 'd"
where
  "fairness fp out nthreads latency_sum ts =
     (let t = merge_timers (unat nthreads) ts;
          events_avg = fp_div fp (fp_of_u64 fp (tm_events t)) (fp_of_u32 fp nthreads);
          time_avg = fp_div fp latency_sum (fp_of_u32 fp nthreads);
          (events_dev, time_dev) =
            fold (\<lambda>i (events_dev, time_dev).
              (let diff = fp_abs fp (fp_sub fp events_avg (fp_of_u64 fp (tm_events (ts ! i))));
                   events_dev = fp_add fp events_dev (fp_mul fp diff diff);
                   diff = fp_abs fp (fp_sub fp time_avg (NS2SEC fp (sb_timer_sum (ts ! i))));
                   time_dev = fp_add fp time_dev (fp_mul fp diff diff)
               in (events_dev, time_dev))) [0..<unat nthreads] (fp_of fp 0, fp_of fp 0)
      in ((events_avg, out_sqrt out (fp_div fp events_dev (fp_of_u32 fp nthreads))),
          (time_avg, out_sqrt out (fp_div fp time_dev (fp_of_u32 fp nthreads)))))"

definition fairness_lines :: "'d out_ops \<Rightarrow> ('d \<times> 'd) \<times> 'd \<times> 'd \<Rightarrow> (log_msg_priority_t \<times> string) list" where
  "fairness_lines out = (\<lambda>((events_avg, events_stddev), (time_avg, time_stddev)). map (Pair LOG_NOTICE)
     [''Threads fairness:'',
      ''    events (avg/stddev):           '' @ out_dec out 4 events_avg @ ''/'' @ pad 3 (out_dec out 2 events_stddev),
      ''    execution time (avg/stddev):   '' @ out_dec out 4 time_avg @ ''/'' @ pad 3 (out_dec out 2 time_stddev),
      []])"

definition thread_lines :: "'d fp_ops \<Rightarrow> 'd out_ops \<Rightarrow> nat \<Rightarrow> sb_timer_t list \<Rightarrow> (log_msg_priority_t \<times> string) list" where
  "thread_lines fp out nthreads ts =
     (LOG_DEBUG, ''Verbose per-thread statistics:'' @ [newline]) #
     concat (map (\<lambda>i.
       [(LOG_DEBUG, ''    thread #'' @ pad 3 (print_dec i) @ '': min: '' @ out_dec out 4 (NS2SEC fp (sb_timer_min (ts ! i))) @
          ''s  avg: '' @ out_dec out 4 (NS2SEC fp (sb_timer_avg (ts ! i))) @
          ''s  max: '' @ out_dec out 4 (NS2SEC fp (sb_timer_max (ts ! i))) @
          ''s  events: '' @ print_dec (unat (tm_events (ts ! i)))),
        (LOG_DEBUG, ''                 total time taken by event execution: '' @
          out_dec out 4 (NS2SEC fp (sb_timer_sum (ts ! i))) @ ''s'')]) [0..<nthreads]) @
     [(LOG_NOTICE, [])]"

definition sb_report_cumulative ::
  "'d fp_ops \<Rightarrow> 'd out_ops \<Rightarrow> (nat \<Rightarrow> timespec) \<Rightarrow> 'd sb_stat_t \<Rightarrow> ('d, 'z) core_state_scheme \<Rightarrow> ('d, 'z) core_state_scheme"
where
  "sb_report_cumulative fp out clk stat c =
     (let nthreads = g_threads c;
          c = (if g_forced_shutdown_in_progress c then report_unfinished clk c else c);
          c = log_lines (throughput_lines fp out stat) c;
          c = log_lines (latency_lines fp out (g_percentile c) stat) c;
          c = log_lines (fairness_lines out (fairness fp out nthreads (stat_latency_sum stat) (timers_copy c))) c
      in if g_debug c then log_lines (thread_lines fp out (unat nthreads) (timers_copy c)) c else c)"

text \<open>Aggregate and reset the statistics.\<close>

definition checkpoint_timers :: "nat \<Rightarrow> sb_timer_t list \<times> sb_timer_t list \<Rightarrow> sb_timer_t list \<times> sb_timer_t list" where
  "checkpoint_timers n =
     fold (\<lambda>i (ts, copy). (let (t, old) = sb_timer_checkpoint (ts ! i) in (ts[i := t], copy[i := old]))) [0..<n]"

definition checkpoint ::
  "'d fp_ops \<Rightarrow> (nat \<Rightarrow> timespec) \<Rightarrow> (nat \<Rightarrow> nat \<Rightarrow> u64) \<Rightarrow> ('d, 'z) core_state_scheme \<Rightarrow>
     ('d sb_stat_t \<times> ('d, 'z) core_state_scheme) option"
where
  "checkpoint fp clk val c = do {
     let (last, cnt) = sb_counters_agg_cumulative (unat (g_threads c)) val (last_counters c);
     let c = c\<lparr>last_counters := last\<rparr>;
     let stat = report_get_common_stat fp (clk 0) cnt c;
     let (t, elapsed) = sb_timer_current (clk 1) (sb_checkpoint_timer c);
     let c = c\<lparr>sb_checkpoint_timer := t\<rparr>;
     let stat = stat\<lparr>stat_time_interval := NS2SEC fp elapsed\<rparr>;
     (h, pct) \<leftarrow> sb_histogram_get_pct_checkpoint fp (fp_of_u32 fp (g_percentile c)) (sb_latency_histogram c);
     let c = c\<lparr>sb_latency_histogram := h\<rparr>;
     let stat = stat\<lparr>stat_latency_pct := MS2SEC fp pct\<rparr>;
     let (ts, copy) = checkpoint_timers (unat (g_threads c)) (thread_timers c, timers_copy c);
     Some (stat, c\<lparr>thread_timers := ts, timers_copy := copy\<rparr>)
   }"

definition report_cumulative ::
  "'d fp_ops \<Rightarrow> 'd out_ops \<Rightarrow> ('d, 'w) report_ops \<Rightarrow> (nat \<Rightarrow> timespec) \<Rightarrow> (nat \<Rightarrow> nat \<Rightarrow> u64) \<Rightarrow>
     'w \<times> ('d, 'z) core_state_scheme \<Rightarrow> ('w \<times> ('d, 'z) core_state_scheme) option"
where
  "report_cumulative fp out ops clk val = (\<lambda>(w, c). do {
     (stat, c) \<leftarrow> checkpoint fp clk val c;
     let t = merge_timers (unat (g_threads c)) (timers_copy c);
     let stat = stat\<lparr>stat_latency_min := NS2SEC fp (sb_timer_min t),
                     stat_latency_max := NS2SEC fp (sb_timer_max t),
                     stat_latency_avg := NS2SEC fp (sb_timer_avg t),
                     stat_latency_sum := NS2SEC fp (sb_timer_sum t)\<rparr>;
     Some (case op_report_cumulative ops of
             Some f \<Rightarrow> (f stat w, c)
           | None \<Rightarrow> (w, sb_report_cumulative fp out (\<lambda>k. clk (k + 2)) stat c))
   })"

section \<open>Signal handlers\<close>

definition SIGALRM :: int where
  "SIGALRM = 14"

text \<open>A handler returns, or ends the program with an exit code.\<close>

datatype 'a handler_result = Handler_return 'a | Handler_exit int 'a

definition sigalrm_thread_init_timeout_handler ::
  "u32 \<Rightarrow> int \<Rightarrow> ('d, 'z) core_state_scheme \<Rightarrow> ('d, 'z) core_state_scheme handler_result"
where
  "sigalrm_thread_init_timeout_handler thread_init_timeout sig c =
     (if sig \<noteq> SIGALRM then Handler_return c
      else Handler_exit 2 (log_text LOG_FATAL (Formatted (''Worker threads failed to initialize within '' @
             print_dec (unat thread_init_timeout) @ '' seconds!'')) c))"

definition sigalrm_forced_shutdown_handler ::
  "'d fp_ops \<Rightarrow> 'd out_ops \<Rightarrow> ('d, 'w) report_ops \<Rightarrow> (nat \<Rightarrow> timespec) \<Rightarrow> (nat \<Rightarrow> nat \<Rightarrow> u64) \<Rightarrow> int \<Rightarrow>
     'w \<times> ('d, 'z) core_state_scheme \<Rightarrow> ('w \<times> ('d, 'z) core_state_scheme) handler_result option"
where
  "sigalrm_forced_shutdown_handler fp out ops clk val sig = (\<lambda>(w, c).
     if sig \<noteq> SIGALRM then Some (Handler_return (w, c))
     else do {
       let c = c\<lparr>g_forced_shutdown_in_progress := True\<rparr>;
       let c = c\<lparr>sb_exec_timer := fst (sb_timer_stop (clk 0) (sb_exec_timer c))\<rparr>;
       let c = c\<lparr>sb_intermediate_timer := fst (sb_timer_stop (clk 1) (sb_intermediate_timer c))\<rparr>;
       let c = c\<lparr>sb_checkpoint_timer := fst (sb_timer_stop (clk 2) (sb_checkpoint_timer c))\<rparr>;
       let c = log_text LOG_FATAL (Formatted ''The --max-time limit has expired, forcing shutdown...'') c;
       (w, c) \<leftarrow> report_cumulative fp out ops (\<lambda>k. clk (k + 3)) val (w, c);
       Some (Handler_exit 2 (w, log_done c))
     })"

section \<open>Report threads\<close>

text \<open>The inner loop of the reporting thread: the first time of the schedule after \<open>curr_ns\<close>.\<close>

partial_function (option) next_report :: "u64 \<Rightarrow> u64 \<Rightarrow> u64 \<Rightarrow> u64 option" where
  "next_report interval curr_ns prev_ns =
     (let next_ns = prev_ns + interval
      in if curr_ns \<ge> next_ns then next_report interval curr_ns next_ns else Some next_ns)"

text \<open>The pause and the previous time before the outer loop, and after a pass.\<close>

definition report_thread_start :: "timespec \<Rightarrow> ('d, 'z) core_state_scheme \<Rightarrow> u64 \<times> u64 \<times> u64" where
  "report_thread_start now c =
     (let interval = SEC2NS (uint (g_report_interval c))
      in (interval, interval, sb_timer_value now (sb_exec_timer c) + interval))"

definition report_thread_pass ::
  "'d fp_ops \<Rightarrow> 'd out_ops \<Rightarrow> ('d, 'w) report_ops \<Rightarrow> (nat \<Rightarrow> timespec) \<Rightarrow> (nat \<Rightarrow> nat \<Rightarrow> u64) \<Rightarrow> u64 \<Rightarrow> u64 \<Rightarrow>
     'w \<times> ('d, 'z) core_state_scheme \<Rightarrow> ((u64 \<times> u64) \<times> 'w \<times> ('d, 'z) core_state_scheme) option"
where
  "report_thread_pass fp out ops clk val interval prev_ns s = do {
     (w, c) \<leftarrow> report_intermediate fp out ops clk val s;
     let curr_ns = sb_timer_value (clk 2) (sb_exec_timer c);
     next_ns \<leftarrow> next_report interval curr_ns prev_ns;
     Some ((next_ns - curr_ns, next_ns), w, c)
   }"

text \<open>The loop of the checkpoints thread: \<open>clk i k\<close> is the \<open>k\<close>-th reading of pass \<open>i\<close>.\<close>

definition checkpoint_pass ::
  "'d fp_ops \<Rightarrow> 'd out_ops \<Rightarrow> ('d, 'w) report_ops \<Rightarrow> (nat \<Rightarrow> nat \<Rightarrow> timespec) \<Rightarrow> (nat \<Rightarrow> nat \<Rightarrow> nat \<Rightarrow> u64) \<Rightarrow> nat \<Rightarrow>
     'w \<times> ('d, 'z) core_state_scheme \<Rightarrow> ('w \<times> ('d, 'z) core_state_scheme) option"
where
  "checkpoint_pass fp out ops clk val i = (\<lambda>(w, c).
     let next_ns = SEC2NS (uint (g_checkpoints c ! i)); curr_ns = sb_timer_value (clk i 0) (sb_exec_timer c)
     in if next_ns \<le> curr_ns then Some (w, c)
        else report_cumulative fp out ops (\<lambda>k. clk i (k + 2)) (val i)
               (w, log_timestamp LOG_NOTICE (out_dec out 0 (NS2SEC fp (sb_timer_value (clk i 1) (sb_exec_timer c))))
                     (Formatted ''Checkpoint report:'') c))"

definition checkpoints_thread ::
  "'d fp_ops \<Rightarrow> 'd out_ops \<Rightarrow> ('d, 'w) report_ops \<Rightarrow> (nat \<Rightarrow> nat \<Rightarrow> timespec) \<Rightarrow> (nat \<Rightarrow> nat \<Rightarrow> nat \<Rightarrow> u64) \<Rightarrow>
     'w \<times> ('d, 'z) core_state_scheme \<Rightarrow> ('w \<times> ('d, 'z) core_state_scheme) option"
where
  "checkpoints_thread fp out ops clk val = (\<lambda>(w, c).
     fold_opt (checkpoint_pass fp out ops clk val) [0..<unat (g_n_checkpoints c)] (w, c))"

text \<open>The callback of the barrier at which the threads start.\<close>

definition threads_started_callback :: "timespec \<Rightarrow> ('d, 'z) core_state_scheme \<Rightarrow> int \<times> ('d, 'z) core_state_scheme" where
  "threads_started_callback now c =
     (if g_error c then (1, c)
      else
        let c = c\<lparr>g_threads_running := g_threads c\<rparr>;
            c = c\<lparr>sb_exec_timer := sb_timer_start now (sb_exec_timer c)\<rparr>;
            c = c\<lparr>sb_intermediate_timer := sb_timer_copy (sb_exec_timer c)\<rparr>;
            c = c\<lparr>sb_checkpoint_timer := sb_timer_copy (sb_exec_timer c)\<rparr>
        in (0, log_text LOG_NOTICE (Formatted (''Threads started!'' @ [newline])) c))"

text \<open>
  What is on record between two reports: the timers and the histogram hold the events counted
  since the counters had the values \<open>base\<close>, and so do the counters relative to the last report.
\<close>

definition ledger :: "(nat \<Rightarrow> u64) \<Rightarrow> nat \<Rightarrow> ('d, 'ev, 'w) system \<Rightarrow> bool" where
  "ledger base n s \<longleftrightarrow> accounts base n s \<and> \<not> hist_locked (sb_latency_histogram (core s)) \<and> unat (g_threads (core s)) = n \<and>
     length (timers_copy (core s)) = n + 1 \<and> report_wf (last_counters (core s)) \<and>
     last_cumulative_counters (last_counters (core s)) ! cnt_index SB_CNT_EVENT = (\<Sum>t<n. base t)"

text \<open>The fields that the steps of the system and the intermediate reports do not touch.\<close>

definition report_fields :: "('d, 'z) core_state_scheme \<Rightarrow> u32 \<times> sb_timer_t list \<times> report_state \<times> bool" where
  "report_fields c = (g_threads c, timers_copy c, last_counters c, hist_locked (sb_latency_histogram c))"

text \<open>
  A run of the threads, an intermediate report or a checkpoint; the reports see the counters of
  one moment.
\<close>

datatype run_op = Run_steps "sys_step list" | Report_now "nat \<Rightarrow> timespec" | Checkpoint_now "nat \<Rightarrow> timespec"

fun run_ops ::
  "('ev, 'w) sb_operations_t \<Rightarrow> 'd fp_ops \<Rightarrow> 'd out_ops \<Rightarrow> ('d, 'w) report_ops \<Rightarrow> run_op list \<Rightarrow>
     ('d, 'ev, 'w) system \<Rightarrow> (('d sb_stat_t \<times> sb_timer_t list) list \<times> ('d, 'ev, 'w) system) option"
where
  "run_ops ops fp out rops [] s = Some ([], s)"
| "run_ops ops fp out rops (Run_steps xs # rs) s = do {
     s \<leftarrow> fold_opt (step ops fp) xs s;
     run_ops ops fp out rops rs s }"
| "run_ops ops fp out rops (Report_now clk # rs) s = do {
     (w, c) \<leftarrow> report_intermediate fp out rops clk (sb_counter_val (sb_counters (core s))) (test_world s, core s);
     run_ops ops fp out rops rs (s\<lparr>test_world := w, core := c\<rparr>) }"
| "run_ops ops fp out rops (Checkpoint_now clk # rs) s = do {
     (stat, c) \<leftarrow> checkpoint fp clk (sb_counter_val (sb_counters (core s))) (core s);
     (stats, s) \<leftarrow> run_ops ops fp out rops rs (s\<lparr>core := c\<rparr>);
     Some ((stat, timers_copy c) # stats, s) }"

section \<open>The schedule of the reports\<close>

lemma next_report_returns:
  assumes "0 < interval" "unat now + unat interval < 2 ^ 64" "unat prev + unat interval < 2 ^ 64"
  shows "\<exists>k next. 0 < k \<and> next_report interval now prev = Some next \<and> unat next = unat prev + k * unat interval \<and>
    now < next \<and> (k = 1 \<or> unat next \<le> unat now + unat interval)"
  using assms(3)
proof (induction "unat now - unat prev" arbitrary: prev rule: less_induct)
  case less
  let ?next = "prev + interval"
  have nx: "unat ?next = unat prev + unat interval" using less.prems by (subst unat_add_lem [THEN iffD1]) simp_all
  have pos: "0 < unat interval" using assms(1) by (simp add: word_less_nat_alt)
  show ?case
  proof (cases "now \<ge> ?next")
    case True
    then have le: "unat ?next \<le> unat now" by (simp add: word_le_nat_alt)
    have "unat now - unat ?next < unat now - unat prev" using le nx pos by (intro diff_less_mono2) simp_all
    moreover have "unat ?next + unat interval < 2 ^ 64" using add_right_mono [OF le] assms(2) by (rule le_less_trans)
    ultimately have "\<exists>k next. 0 < k \<and> next_report interval now ?next = Some next \<and>
        unat next = unat ?next + k * unat interval \<and> now < next \<and> (k = 1 \<or> unat next \<le> unat now + unat interval)"
      by (rule less.hyps)
    then obtain k nxt where k: "0 < k" "next_report interval now ?next = Some nxt"
      "unat nxt = unat ?next + k * unat interval" "now < nxt" "k = 1 \<or> unat nxt \<le> unat now + unat interval" by (elim exE conjE) (rule that)
    have "unat nxt \<le> unat now + unat interval" using k(3,5) le by auto
    moreover have "next_report interval now prev = Some nxt" using k(2) True by (subst next_report.simps) simp
    ultimately show ?thesis using k(3,4) nx by (intro exI [of _ "Suc k"] exI [of _ nxt]) simp
  next
    case False
    have "next_report interval now prev = Some ?next" using False by (subst next_report.simps) simp
    then show ?thesis using False nx by (intro exI [of _ 1] exI [of _ ?next]) simp
  qed
qed

section \<open>Checkpoints\<close>

lemma hist_checkpoint:
  assumes "hist_wf h" "\<not> hist_locked h"
  shows "\<exists>h' v. sb_histogram_get_pct_checkpoint fp p h = Some (h', v) \<and> hist_wf h' \<and> \<not> hist_locked h' \<and> hist_total h' = 0"
proof -
  let ?hl = "h\<lparr>hist_locked := True\<rparr>"
  let ?m = "merge_intermediate_into_cumulative ?hl"
  have wf: "hist_wf ?hl" using assms(1) by (simp add: hist_wf_def)
  note r = merge_cumulative_result [OF wf]
  let ?h = "unlock (?m\<lparr>cumulative_array := replicate (array_size ?m) 0, cumulative_nevents := 0\<rparr>)"
  have "hist_wf ?h" using r(1) by (simp add: hist_wf_def unlock_def sum_list_replicate)
  moreover have "hist_count ?h b = 0" if "b < array_size h" for b
    using that r(3,4) by (simp add: hist_count_def unlock_def)
  then have "hist_total ?h = 0" using r(4) by (simp add: hist_total_def unlock_def)
  ultimately show ?thesis
    using assms(2) by (intro exI [of _ ?h] exI [of _ "get_pct_cumulative fp p ?m"])
      (simp add: sb_histogram_get_pct_checkpoint_def wrlock_def Let_def unlock_def)
qed

lemma checkpoint_timers_spec:
  assumes "n \<le> length ts" "n \<le> length copy"
  shows "checkpoint_timers n (ts, copy) = (map sb_timer_reset (take n ts) @ drop n ts, take n ts @ drop n copy)"
  using assms
proof (induction n)
  case 0
  then show ?case by (simp add: checkpoint_timers_def)
next
  case (Suc n)
  let ?f = "\<lambda>i (ts, copy). (let (t, old) = sb_timer_checkpoint (ts ! i) in (ts[i := t], copy[i := old]))"
  have "checkpoint_timers (Suc n) (ts, copy) = ?f n (checkpoint_timers n (ts, copy))" by (simp add: checkpoint_timers_def)
  also have "\<dots> = ?f n (map sb_timer_reset (take n ts) @ drop n ts, take n ts @ drop n copy)" using Suc by simp
  also have "\<dots> = (map sb_timer_reset (take (Suc n) ts) @ drop (Suc n) ts, take (Suc n) ts @ drop (Suc n) copy)"
  proof -
    have "drop n ts = ts ! n # drop (Suc n) ts" "drop n copy = copy ! n # drop (Suc n) copy"
      using Suc.prems by (simp_all add: Cons_nth_drop_Suc)
    then show ?thesis
      using Suc.prems by (simp add: sb_timer_checkpoint_def nth_append take_Suc_conv_app_nth)
  qed
  finally show ?case .
qed

lemma merge_timers_events:
  "tm_events (merge_timers n ts) = (\<Sum>t<n. tm_events (ts ! t))"
proof (induction n)
  case 0
  then show ?case by (simp add: merge_timers_def sb_timer_init_def sb_timer_reset_def)
next
  case (Suc n)
  then show ?case by (simp add: merge_timers_def sb_timer_merge_def)
qed

lemma sum_list_upt: "sum_list (map f [0..<n]) = (\<Sum>t<n. f t :: u64)"
  by (induction n) simp_all

lemma checkpoint_ledger:
  assumes l: "ledger base n s" and val: "val = sb_counter_val (sb_counters (core s))"
  shows "\<exists>stat c. checkpoint fp clk val (core s) = Some (stat, c) \<and>
    stat_events stat = (\<Sum>t<n. event_count (core s) t - base t) \<and>
    stat_events stat = tm_events (merge_timers n (timers_copy c)) \<and> sb_counters c = sb_counters (core s) \<and>
    ledger (event_count (core s)) n (s\<lparr>core := c\<rparr>)"
proof -
  let ?c = "core s"
  have a: "length (workers s) = n" "counters_wf n (sb_counters ?c)" "length (thread_timers ?c) = n + 1" "hist_wf (sb_latency_histogram ?c)"
    "\<And>t. t < n \<Longrightarrow> tm_events (thread_timers ?c ! t) = event_count ?c t - base t"
    and b: "\<not> hist_locked (sb_latency_histogram ?c)" "unat (g_threads ?c) = n" "length (timers_copy ?c) = n + 1"
    "report_wf (last_counters ?c)" "last_of Cumulative (last_counters ?c) ! cnt_index SB_CNT_EVENT = (\<Sum>t<n. base t)"
    using l by (simp_all add: ledger_def accounts_def)
  obtain last cnt where agg: "report n (Cumulative, val) (last_counters ?c) = (last, cnt)" by fastforce
  note r = report_step [OF b(4) agg]
  have ev: "last_of Cumulative last ! cnt_index SB_CNT_EVENT = (\<Sum>t<n. event_count ?c t)"
    using r(3) [OF cnt_index_less, of SB_CNT_EVENT] by (simp add: val event_count_def sum_list_upt del: cnt_index.simps)
  then have out: "cnt ! cnt_index SB_CNT_EVENT = (\<Sum>t<n. event_count ?c t - base t)"
    using r(4) [OF cnt_index_less, of SB_CNT_EVENT] b(5) by (simp add: sum_subtractf del: cnt_index.simps)
  obtain h v where h: "sb_histogram_get_pct_checkpoint fp (fp_of_u32 fp (g_percentile ?c)) (sb_latency_histogram ?c) = Some (h, v)"
    "hist_wf h" "\<not> hist_locked h" "hist_total h = 0" using hist_checkpoint [OF a(4) b(1)] by blast
  have ct: "checkpoint_timers n (thread_timers ?c, timers_copy ?c) =
      (map sb_timer_reset (take n (thread_timers ?c)) @ drop n (thread_timers ?c), take n (thread_timers ?c) @ drop n (timers_copy ?c))"
    using a(3) b(3) by (simp add: checkpoint_timers_spec)
  obtain t el where cur: "sb_timer_current (clk 1) (sb_checkpoint_timer ?c) = (t, el)" by fastforce
  define c where "c = ?c\<lparr>last_counters := last, sb_checkpoint_timer := t, sb_latency_histogram := h,
    thread_timers := map sb_timer_reset (take n (thread_timers ?c)) @ drop n (thread_timers ?c),
    timers_copy := take n (thread_timers ?c) @ drop n (timers_copy ?c)\<rparr>"
  have "\<exists>stat. checkpoint fp clk val ?c = Some (stat, c) \<and> stat_events stat = cnt ! cnt_index SB_CNT_EVENT"
    using agg h(1) ct cur b(2) by (simp add: checkpoint_def c_def report_get_common_stat_def Let_def)
  moreover have "tm_events (merge_timers n (timers_copy c)) = (\<Sum>t<n. event_count ?c t - base t)"
    using a(3,5) by (simp add: merge_timers_events c_def nth_append)
  moreover have "ledger (event_count ?c) n (s\<lparr>core := c\<rparr>)"
    using a b r(1) ev h by (simp add: ledger_def accounts_def c_def event_count_def nth_append sb_timer_reset_def del: cnt_index.simps)
  ultimately show ?thesis using out by (auto simp: c_def)
qed

lemma hist_intermediate:
  assumes "hist_wf h" "\<not> hist_locked h"
  shows "\<exists>h' v. sb_histogram_get_pct_intermediate fp p h = Some (h', v) \<and> hist_wf h' \<and> \<not> hist_locked h' \<and> hist_total h' = hist_total h"
  using intermediate_result [OF assms, of fp p] by (force simp: hist_total_def)

section \<open>Reports leave the other state alone\<close>

lemma log_lines_frame: "forget_log (log_lines ls c) = forget_log c"
  unfolding log_lines_def by (induction ls arbitrary: c) (auto simp: forget_log_text)

lemmas log_lines_eq = forget_log_eq [OF log_lines_frame]

lemma report_intermediate_frame: "forget_log (sb_report_intermediate fp out stat c) = forget_log c"
  by (simp add: sb_report_intermediate_def Let_def forget_log_timestamp)

lemma hist_update_locked [simp]: "hist_locked (sb_histogram_update fp rnd v h) = hist_locked h"
  by (simp add: sb_histogram_update_def)

lemma report_fields_log [simp]: "report_fields (log_text p m c) = report_fields c"
  by (simp add: report_fields_def)

lemma report_fields_update [simp]:
  "report_fields (c\<lparr>g_error := e\<rparr>) = report_fields c" "report_fields (c\<lparr>g_nevents := k\<rparr>) = report_fields c"
  "report_fields (c\<lparr>g_concurrency := i\<rparr>) = report_fields c" "report_fields (c\<lparr>thread_timers := ts\<rparr>) = report_fields c"
  "report_fields (c\<lparr>sb_counters := cs\<rparr>) = report_fields c" "report_fields (c\<lparr>queue_ring := r\<rparr>) = report_fields c"
  "report_fields (c\<lparr>queue_array := a\<rparr>) = report_fields c"
  "report_fields (c\<lparr>sb_latency_histogram := sb_histogram_update fp rnd v (sb_latency_histogram c)\<rparr>) = report_fields c"
  by (simp_all add: report_fields_def)

lemma report_fields_more_events:
  "more_events_begin now c = (r, c') \<Longrightarrow> report_fields c' = report_fields c"
  "more_events_dequeue c = (d, c') \<Longrightarrow> report_fields c' = report_fields c"
  "more_events_recheck now c = (b, c') \<Longrightarrow> report_fields c' = report_fields c"
  "more_events_finish now t p c = Some c' \<Longrightarrow> report_fields c' = report_fields c"
  by (auto simp: more_events_begin_def more_events_dequeue_def more_events_recheck_def more_events_finish_def Let_def
    split: if_splits option.splits)

lemma report_fields_event [simp]:
  "report_fields (sb_event_start now t c) = report_fields c" "report_fields (sb_event_stop fp now rnd t c) = report_fields c"
  "report_fields (snd (worker_thread_leave ops t rc (w, c))) = report_fields c"
  by (auto simp: report_fields_def sb_event_start_def sb_event_stop_def worker_thread_leave_def Let_def split: prod.split)

lemma report_fields_thread:
  assumes "thread_run_step ops fp inp t wk (w, c) = Some (wk', w', c')"
  shows "report_fields c' = report_fields c"
proof -
  obtain now rnd where inp: "inp = (now, rnd)" by (cases inp)
  have leave: "report_fields c2 = report_fields c1" if "worker_thread_leave ops t rc (w1, c1) = (w2, c2)" for rc w1 c1 w2 c2
    using report_fields_event(3) [of ops t rc w1 c1] that by simp
  note step = assms [unfolded thread_run_step_def inp prod.case Let_def]
  show ?thesis
    using step by (cases "w_pc wk")
      (auto split: prod.splits more_events.splits dequeue_result.splits bool.splits option.splits if_splits
        dest!: report_fields_more_events leave)
qed

lemma report_fields_step:
  assumes "step ops fp x s = Some s'"
  shows "report_fields (core s') = report_fields (core s)"
proof (cases x)
  case (Worker_step t inp)
  then show ?thesis
    using assms by (auto simp: worker_step_def split: if_splits option.splits dest: report_fields_thread)
next
  case (Spurious_wakeup t)
  then show ?thesis using assms by auto
next
  case (Gen_step inp t)
  then show ?thesis
    using assms by (auto simp: eventgen_step_def eventgen_put_def Let_def report_fields_def
      split: gen_pc.splits prod.splits option.splits bool.splits if_splits)
qed

lemma ledger_run:
  assumes "fold_opt (step ops fp) xs s = Some s'" "ledger base n s"
  shows "ledger base n s'"
proof -
  have "report_fields (core s') = report_fields (core s)"
    using assms(1) by (induction xs arbitrary: s) (auto simp: bind_eq_Some_conv dest: report_fields_step)
  moreover have "accounts base n s'" using accounts_run [OF assms(1)] assms(2) by (simp add: ledger_def)
  ultimately show ?thesis using assms(2) by (simp add: ledger_def report_fields_def)
qed

section \<open>Runs with reports\<close>

lemma intermediate_ledger:
  assumes l: "ledger base n s" and val: "val = sb_counter_val (sb_counters (core s))"
  shows "\<exists>w c. report_intermediate fp out rops clk val (test_world s, core s) = Some (w, c) \<and>
    event_count c = event_count (core s) \<and> ledger base n (s\<lparr>test_world := w, core := c\<rparr>)"
proof (cases "g_report_interval (core s) = 0")
  case True
  then show ?thesis using l by (simp add: report_intermediate_def ledger_def accounts_def)
next
  case False
  let ?c = "core s"
  have a: "hist_wf (sb_latency_histogram ?c)" "\<not> hist_locked (sb_latency_histogram ?c)" "unat (g_threads ?c) = n"
    "report_wf (last_counters ?c)"
    using l by (simp_all add: ledger_def accounts_def)
  obtain last cnt where agg: "report n (Intermediate, val) (last_counters ?c) = (last, cnt)" by fastforce
  note r = report_step [OF a(4) agg]
  obtain h v where h: "sb_histogram_get_pct_intermediate fp (fp_of_u32 fp (g_percentile ?c)) (sb_latency_histogram ?c) = Some (h, v)"
    "hist_wf h" "\<not> hist_locked h" "hist_total h = hist_total (sb_latency_histogram ?c)" using hist_intermediate [OF a(1,2)] by blast
  obtain t el where cur: "sb_timer_current (clk 1) (sb_intermediate_timer ?c) = (t, el)" by fastforce
  define c1 where "c1 = ?c\<lparr>last_counters := last, sb_latency_histogram := h, sb_intermediate_timer := t\<rparr>"
  have "\<exists>w c. report_intermediate fp out rops clk val (test_world s, core s) = Some (w, c) \<and> forget_log c = forget_log c1"
    using False agg h(1) cur a(3)
    by (cases "op_report_intermediate rops") (simp_all add: report_intermediate_def c1_def report_intermediate_frame Let_def)
  then obtain w c where c: "report_intermediate fp out rops clk val (test_world s, core s) = Some (w, c)" "forget_log c = forget_log c1"
    by blast
  note f = forget_log_eq [OF c(2)]
  have eq: "thread_timers c = thread_timers c1" "timers_copy c = timers_copy c1" "last_counters c = last_counters c1"
    "sb_counters c = sb_counters c1" "g_threads c = g_threads c1" "g_percentile c = g_percentile c1"
    "sb_latency_histogram c = sb_latency_histogram c1"
    by (rule f, simp add: forget_log_def)+
  have "last_of Cumulative last = last_of Cumulative (last_counters ?c)" using r(2) [of Cumulative] by simp
  then have "event_count c = event_count ?c" "ledger base n (s\<lparr>test_world := w, core := c\<rparr>)"
    using l h r(1) eq by (simp_all add: ledger_def accounts_def event_count_def fun_eq_iff c1_def)
  then show ?thesis using c(1) by blast
qed

lemma run_ops_conserve:
  assumes "run_ops ops fp out rops rs s = Some (stats, s')" "ledger base n s"
  shows "\<exists>base'. ledger base' n s' \<and>
    sum_list (map (stat_events \<circ> fst) stats) = (\<Sum>t<n. base' t) - (\<Sum>t<n. base t) \<and>
    (\<forall>(stat, copy) \<in> set stats. stat_events stat = tm_events (merge_timers n copy))"
  using assms
proof (induction rs arbitrary: s stats base)
  case (Cons r rs)
  show ?case
  proof (cases r)
    case (Run_steps xs)
    then obtain s1 where "fold_opt (step ops fp) xs s = Some s1" "run_ops ops fp out rops rs s1 = Some (stats, s')"
      using Cons.prems(1) by (auto simp: bind_eq_Some_conv)
    then show ?thesis using Cons.IH ledger_run Cons.prems(2) by blast
  next
    case (Report_now clk)
    from intermediate_ledger [OF Cons.prems(2) refl, of fp out rops clk] obtain w c where
      c: "report_intermediate fp out rops clk (sb_counter_val (sb_counters (core s))) (test_world s, core s) = Some (w, c)"
      "ledger base n (s\<lparr>test_world := w, core := c\<rparr>)" by blast
    then show ?thesis using Cons.IH [OF _ c(2)] Cons.prems(1) Report_now by simp
  next
    case (Checkpoint_now clk)
    from checkpoint_ledger [OF Cons.prems(2) refl, of fp clk] obtain stat c where
      c: "checkpoint fp clk (sb_counter_val (sb_counters (core s))) (core s) = Some (stat, c)"
      "stat_events stat = (\<Sum>t<n. event_count (core s) t - base t)"
      "stat_events stat = tm_events (merge_timers n (timers_copy c))" "ledger (event_count (core s)) n (s\<lparr>core := c\<rparr>)"
      by blast
    then obtain stats1 where s1: "run_ops ops fp out rops rs (s\<lparr>core := c\<rparr>) = Some (stats1, s')" "stats = (stat, timers_copy c) # stats1"
      using Cons.prems(1) Checkpoint_now by (auto simp: bind_eq_Some_conv)
    from Cons.IH [OF s1(1) c(4)] obtain base' where b: "ledger base' n s'"
      "sum_list (map (stat_events \<circ> fst) stats1) = (\<Sum>t<n. base' t) - (\<Sum>t<n. event_count (core s) t)"
      "\<forall>(stat, copy) \<in> set stats1. stat_events stat = tm_events (merge_timers n copy)" by blast
    have "sum_list (map (stat_events \<circ> fst) stats) = (\<Sum>t<n. base' t) - (\<Sum>t<n. base t)"
      using b(2) c(2) s1(2) by (simp add: sum_subtractf)
    moreover have "\<forall>(stat, copy) \<in> set stats. stat_events stat = tm_events (merge_timers n copy)" using b(3) c(3) s1(2) by simp
    ultimately show ?thesis using b(1) by blast
  qed
qed auto

section \<open>Properties\<close>


text \<open>
  C39 (report_schedule): the loop that computes the next report always ends.  The reports stay on
  the grid of whole intervals, the next one lies after the current time, and the pause is positive
  and, unless the thread woke up early, at most one interval: reports that took too long are
  skipped and do not pile up.
\<close>

theorem report_schedule:
  assumes "report_intermediate fp out ops clk val (w, c) = Some (w', c')" "0 < interval"
    and "unat (sb_timer_value (clk 2) (sb_exec_timer c')) + unat interval < 2 ^ 64" "unat prev + unat interval < 2 ^ 64"
  shows "\<exists>pause next k. report_thread_pass fp out ops clk val interval prev (w, c) = Some ((pause, next), w', c') \<and>
    0 < k \<and> unat next = unat prev + k * unat interval \<and>
    unat (sb_timer_value (clk 2) (sb_exec_timer c')) + unat pause = unat next \<and> 0 < pause \<and>
    (prev \<le> sb_timer_value (clk 2) (sb_exec_timer c') \<longrightarrow> pause \<le> interval)"
proof -
  let ?now = "sb_timer_value (clk 2) (sb_exec_timer c')"
  from next_report_returns [OF assms(2,3,4)] obtain k nxt where k: "0 < k" "next_report interval ?now prev = Some nxt"
    "unat nxt = unat prev + k * unat interval" "?now < nxt" "k = 1 \<or> unat nxt \<le> unat ?now + unat interval"
    by (elim exE conjE) (rule that)
  have sub: "unat (nxt - ?now) = unat nxt - unat ?now" using k(4) by (intro unat_sub) simp
  have lt: "unat ?now < unat nxt" using k(4) by (simp add: word_less_nat_alt)
  have "nxt - ?now \<le> interval" if "prev \<le> ?now"
  proof -
    have "unat nxt \<le> unat ?now + unat interval" using k(3,5) that by (auto simp: word_le_nat_alt)
    then show ?thesis by (simp add: word_le_nat_alt sub)
  qed
  moreover have "report_thread_pass fp out ops clk val interval prev (w, c) = Some ((nxt - ?now, nxt), w', c')"
    using assms(1) k(2) by (simp add: report_thread_pass_def)
  moreover have "unat ?now + unat (nxt - ?now) = unat nxt" "0 < nxt - ?now"
    using lt by (simp_all add: sub word_less_nat_alt)
  ultimately show ?thesis using k(1,3) by (intro exI [of _ "nxt - ?now"] exI [of _ nxt] exI [of _ k]) simp
qed


theorem report_schedule_witness:
  "\<exists>pause next c. report_thread_pass (rounded_ops (\<lambda>x. x) (\<lambda>x. x) (\<lambda>x y. x)) ieee_out
      \<lparr>op_report_intermediate = None, op_report_cumulative = None\<rparr> (\<lambda>k. \<lparr>tv_sec = 35, tv_nsec = 0\<rparr>) (\<lambda>i t. 0)
      10000000000 20000000000 (0, core (sys_start 1 1 95)) = Some ((pause, next), (0 :: nat), c) \<and> 0 < pause \<and> pause \<le> 10000000000"
proof -
  let ?fp = "rounded_ops (\<lambda>x. x) (\<lambda>x. x) (\<lambda>x y. x)" and ?c = "core (sys_start 1 1 95)"
  let ?clk = "\<lambda>k :: nat. \<lparr>tv_sec = 35, tv_nsec = 0\<rparr>"
  let ?r = "\<lparr>op_report_intermediate = None, op_report_cumulative = None\<rparr> :: (rat, nat) report_ops"
  have "g_report_interval ?c = 0" "sb_exec_timer ?c = timer_zero"
    by (simp_all add: sys_start_def core_start_def log_state.defs core_state.defs log_state0_def)
  then have i: "report_intermediate ?fp ieee_out ?r ?clk (\<lambda>i t. 0) (0, ?c) = Some (0, ?c)"
    and now: "sb_timer_value (?clk 2) (sb_exec_timer ?c) = 35000000000"
    by (simp_all add: report_intermediate_def sb_timer_value_def timer_zero_def TIMESPEC_DIFF_def SEC2NS_def NS_PER_SEC_def)
  from report_schedule [OF i, of 10000000000 20000000000] show ?thesis unfolding now by auto
qed

end
