(* ===== verification/SB_Db_Driver.thy ===== *)
theory SB_Db_Driver
  imports SB_Report
begin

text \<open>
  The database layer, \<open>src/src/db_driver.c\<close> and \<open>src/src/db_driver.h\<close>: registration of the
  drivers, connections with their states, queries and prepared statements, multi-row inserts, and
  the statistics of database tests.

  The functions of a driver are the fields of a record; they work on a world \<open>'w\<close> of their own, in
  which the driver-specific data of connections and statements live.  \<open>None\<close> is a null pointer.  A
  result of type \<open>db_result_t *\<close> is either null or the result set inside the connection: it is
  modelled by a boolean.  Calls through a null pointer and writes behind a buffer have no result.
\<close>

section \<open>Data\<close>

datatype db_ps_mode_t = DB_PS_MODE_AUTO | DB_PS_MODE_DISABLE

record drv_caps_t =
  multi_rows_insert :: bool
  prepared_statements :: bool
  auto_increment :: bool
  needs_commit :: bool
  serial_clause :: bool
  unsigned_int :: bool

datatype db_error_t = DB_ERROR_NONE | DB_ERROR_IGNORABLE | DB_ERROR_FATAL

fun db_error_code :: "db_error_t \<Rightarrow> int" where
  "db_error_code DB_ERROR_NONE = 0"
| "db_error_code DB_ERROR_IGNORABLE = 1"
| "db_error_code DB_ERROR_FATAL = 2"

datatype db_bind_type_t =
    DB_TYPE_NONE | DB_TYPE_TINYINT | DB_TYPE_SMALLINT | DB_TYPE_INT | DB_TYPE_BIGINT | DB_TYPE_FLOAT | DB_TYPE_DOUBLE
  | DB_TYPE_TIME | DB_TYPE_DATE | DB_TYPE_DATETIME | DB_TYPE_TIMESTAMP | DB_TYPE_CHAR | DB_TYPE_VARCHAR

record db_time_t =
  year :: u32
  month :: u32
  day :: u32
  hour :: u32
  minute :: u32
  second :: u32

text \<open>
  What the buffer of a bound variable holds.  \<open>bind_is_null\<close> is what \<open>is_null\<close> points to.
\<close>

datatype 'd bind_value = Int_value int | Real_value 'd | Text_value string | Time_value db_time_t

record 'd db_bind_t =
  bind_type :: db_bind_type_t
  bind_buffer :: "'d bind_value"
  bind_is_null :: "bool option"

record db_result_t =
  rs_counter :: sb_counter_type_t
  rs_nrows :: u32
  rs_nfields :: u32
  rs_statement :: "nat option"
  rs_row_values :: bool

datatype db_conn_state_t = DB_CONN_READY | DB_CONN_RESULT_SET | DB_CONN_INVALID

record db_conn_t =
  con_error :: db_error_t
  con_rs :: db_result_t
  con_state :: db_conn_state_t
  con_thread_id :: nat
  bulk_cnt :: u32
  bulk_buflen :: u32
  bulk_buffer :: "string option"
  bulk_ptr :: u32
  bulk_values :: u32
  bulk_commit_cnt :: u32
  bulk_commit_max :: u32

text \<open>A statement of a connection; \<open>stmt_id\<close> is its address.\<close>

record 'd db_stmt_t =
  stmt_id :: nat
  stmt_query :: "string option"
  stmt_bound_param :: "'d db_bind_t list option"
  stmt_emulated :: bool

record ('d, 'w) drv_ops_t =
  drv_init :: "'w \<Rightarrow> int \<times> 'w"
  drv_thread_init :: "(nat \<Rightarrow> 'w \<Rightarrow> int \<times> 'w) option"
  drv_describe :: "('w \<Rightarrow> int \<times> drv_caps_t \<times> 'w) option"
  drv_connect :: "db_conn_t \<Rightarrow> 'w \<Rightarrow> int \<times> 'w"
  drv_disconnect :: "db_conn_t \<Rightarrow> 'w \<Rightarrow> int \<times> 'w"
  drv_reconnect :: "(db_conn_t \<Rightarrow> 'w \<Rightarrow> db_error_t \<times> 'w) option"
  drv_prepare :: "'d db_stmt_t \<Rightarrow> string \<Rightarrow> db_conn_t \<Rightarrow> 'w \<Rightarrow> int \<times> 'd db_stmt_t \<times> 'w"
  drv_bind_param :: "'d db_stmt_t \<Rightarrow> 'd db_bind_t list \<Rightarrow> db_conn_t \<Rightarrow> 'w \<Rightarrow> int \<times> 'd db_stmt_t \<times> 'w"
  drv_bind_result :: "'d db_stmt_t \<Rightarrow> 'd db_bind_t list \<Rightarrow> db_conn_t \<Rightarrow> 'w \<Rightarrow> int \<times> 'd db_stmt_t \<times> 'w"
  drv_execute :: "'d db_stmt_t \<Rightarrow> db_conn_t \<Rightarrow> 'w \<Rightarrow> db_error_t \<times> db_result_t \<times> 'w"
  drv_stmt_next_result :: "('d db_stmt_t \<Rightarrow> db_conn_t \<Rightarrow> 'w \<Rightarrow> db_error_t \<times> db_result_t \<times> 'w) option"
  drv_fetch_row :: "(db_conn_t \<Rightarrow> 'w \<Rightarrow> int \<times> 'w) option"
  drv_free_results :: "db_conn_t \<Rightarrow> 'w \<Rightarrow> int \<times> 'w"
  drv_more_results :: "(db_conn_t \<Rightarrow> 'w \<Rightarrow> bool \<times> 'w) option"
  drv_next_result :: "(db_conn_t \<Rightarrow> 'w \<Rightarrow> db_error_t \<times> db_result_t \<times> 'w) option"
  drv_close :: "'d db_stmt_t \<Rightarrow> db_conn_t \<Rightarrow> 'w \<Rightarrow> int \<times> 'w"
  drv_query :: "string \<Rightarrow> db_conn_t \<Rightarrow> 'w \<Rightarrow> db_error_t \<times> db_result_t \<times> 'w"
  drv_thread_done :: "(nat \<Rightarrow> 'w \<Rightarrow> int \<times> 'w) option"
  drv_done :: "'w \<Rightarrow> 'w"

record ('d, 'w) db_driver_t =
  drv_sname :: string
  drv_lname :: string
  drv_args :: "sb_arg_t list option"
  drv_ops :: "('d, 'w) drv_ops_t"

text \<open>The static variables; \<open>drv_initialized\<close> holds the flags of the registered drivers.\<close>

record 'd db_state = "'d core_state" +
  db_ps_mode :: db_ps_mode_t
  db_driver_name :: "string option"
  db_debug :: bool
  drv_initialized :: "bool list"
  stats_enabled :: bool
  db_global_initialized :: bool
  db_global_once :: bool
  exec_timers :: "sb_timer_t list"
  fetch_timers :: "sb_timer_t list"

definition BULK_PACKET_SIZE :: nat where
  "BULK_PACKET_SIZE = 512 * 1024"

definition ROWS_BEFORE_COMMIT :: u32 where
  "ROWS_BEFORE_COMMIT = 1000"

section \<open>Drivers\<close>

definition db_args :: "bool \<Rightarrow> sb_arg_t list" where
  "db_args use_mysql =
    [sb_opt ''db-driver'' ''specifies database driver to use ('help' to get list of available drivers)''
       (if use_mysql then Some ''mysql'' else None) SB_ARG_TYPE_STRING,
     sb_opt ''db-ps-mode'' ''prepared statements usage mode {auto, disable}'' (Some ''auto'') SB_ARG_TYPE_STRING,
     sb_opt ''db-debug'' ''print database-specific debug information'' (Some ''off'') SB_ARG_TYPE_BOOL]"

text \<open>\<open>drivers\<close> are the drivers compiled in, in the order of their registration.\<close>

definition db_register ::
  "file_system \<Rightarrow> bool \<Rightarrow> ('d, 'w) db_driver_t list \<Rightarrow> options \<Rightarrow> ('d, 'z) db_state_scheme \<Rightarrow> options \<times> ('d, 'z) db_state_scheme"
where
  "db_register fs use_mysql drivers opts s =
     (let opts = fold (\<lambda>drv opts. case drv_args drv of None \<Rightarrow> opts | Some args \<Rightarrow> fst (sb_register_arg_set fs args opts)) drivers opts
      in (fst (sb_register_arg_set fs (db_args use_mysql) opts), s\<lparr>drv_initialized := replicate (length drivers) False\<rparr>))"

definition db_parse_arguments ::
  "options \<Rightarrow> ('d, 'z) db_state_scheme \<Rightarrow> (bool \<times> ('d, 'z) db_state_scheme) option"
where
  "db_parse_arguments opts s = do {
     mode \<leftarrow> sb_get_value_string opts ''db-ps-mode'';
     case (if mode = ''auto'' then Some DB_PS_MODE_AUTO else if mode = ''disable'' then Some DB_PS_MODE_DISABLE else None) of
       None \<Rightarrow> Some (True, log_text LOG_FATAL (Formatted (''Invalid value for db-ps-mode: '' @ mode)) s)
     | Some m \<Rightarrow> Some (False, s\<lparr>db_ps_mode := m, db_driver_name := sb_get_value_string opts ''db-driver'',
                                  db_debug := sb_get_value_flag opts ''db-debug''\<rparr>) }"

definition db_reset_stats :: "timespec \<Rightarrow> ('d, 'z) db_state_scheme \<Rightarrow> ('d, 'z) db_state_scheme" where
  "db_reset_stats now s =
     (let s = s\<lparr>sb_intermediate_timer := fst (sb_timer_current now (sb_intermediate_timer s))\<rparr>;
          reset = (\<lambda>ts. map sb_timer_init (take (unat (g_threads s)) ts) @ drop (unat (g_threads s)) ts)
      in if db_debug s then s\<lparr>exec_timers := reset (exec_timers s), fetch_timers := reset (fetch_timers s)\<rparr> else s)"

definition db_init ::
  "timespec \<Rightarrow> options \<Rightarrow> ('d, 'w) db_driver_t list \<Rightarrow> ('d, 'z) db_state_scheme \<Rightarrow> ('d, 'z) db_state_scheme option"
where
  "db_init now opts drivers s =
     (if drivers = [] then Some (log_text LOG_FATAL (Formatted ''No DB drivers available'') s)
      else do {
        (failed, s) \<leftarrow> db_parse_arguments opts s;
        if failed then Some s
        else
          let zero = sb_alloc_per_thread_array (unat (g_threads s)) timer_zero;
              s = (if db_debug s then s\<lparr>exec_timers := zero, fetch_timers := zero\<rparr> else s);
              s = db_reset_stats now s
          in Some (s\<lparr>stats_enabled := True, db_global_initialized := True\<rparr>) })"

text \<open>The index of the first driver with a given name.\<close>

fun find_driver :: "string \<Rightarrow> ('d, 'w) db_driver_t list \<Rightarrow> nat option" where
  "find_driver name [] = None"
| "find_driver name (d # ds) = (if drv_sname d = name then Some 0 else map_option Suc (find_driver name ds))"

definition quoted :: "string \<Rightarrow> string" where
  "quoted t = CHR 0x27 # t @ [CHR 0x27]"

text \<open>The driver for a name, or the only one if there is no name.\<close>

definition db_select ::
  "string option \<Rightarrow> ('d, 'w) db_driver_t list \<Rightarrow> ('d, 'z) db_state_scheme \<Rightarrow> nat option \<times> ('d, 'z) db_state_scheme"
where
  "db_select name drivers s =
     (case (if name = None then db_driver_name s else name) of
        None \<Rightarrow>
          if length drivers = 1
          then (Some 0, log_text LOG_INFO (Formatted (''No DB drivers specified, using '' @ drv_sname (hd drivers))) s)
          else (None, log_text LOG_FATAL (Formatted (''Multiple DB drivers are available. '' @
                        ''Use --db-driver=name to specify which one to use'')) s)
      | Some n \<Rightarrow>
          (case find_driver n drivers of
             None \<Rightarrow> (None, log_text LOG_FATAL (Formatted (''invalid database driver name: '' @ quoted n)) s)
           | Some i \<Rightarrow> (Some i, s)))"

definition db_create ::
  "timespec \<Rightarrow> options \<Rightarrow> nat \<Rightarrow> ('d, 'w) db_driver_t list \<Rightarrow> string option \<Rightarrow> 'w \<times> ('d, 'z) db_state_scheme \<Rightarrow>
     (nat option \<times> 'w \<times> ('d, 'z) db_state_scheme) option"
where
  "db_create now opts thread_id drivers name = (\<lambda>(w, s). do {
     s \<leftarrow> (if db_global_once s then Some s else map_option (\<lambda>s. s\<lparr>db_global_once := True\<rparr>) (db_init now opts drivers s));
     if \<not> db_global_initialized s then Some (None, w, s)
     else
       case db_select name drivers s of
         (None, s) \<Rightarrow> Some (None, w, s)
       | (Some i, s) \<Rightarrow>
           let ops = drv_ops (drivers ! i);
               (rc, w) = (if drv_initialized s ! i then (0, w) else drv_init ops w)
           in if rc \<noteq> 0 then Some (None, w, s)
              else
                let s = s\<lparr>drv_initialized := (drv_initialized s)[i := True]\<rparr>;
                    (rc, w) = (case drv_thread_init ops of None \<Rightarrow> (0, w) | Some f \<Rightarrow> f thread_id w)
                in if rc \<noteq> 0
                   then Some (None, w, log_text LOG_FATAL (Formatted ''thread-local driver initialization failed.'') s)
                   else Some (Some i, w, s) })"

definition db_destroy :: "('d, 'w) drv_ops_t \<Rightarrow> nat \<Rightarrow> 'w \<Rightarrow> int \<times> 'w" where
  "db_destroy ops thread_id w = (case drv_thread_done ops of None \<Rightarrow> (0, w) | Some f \<Rightarrow> f thread_id w)"

definition db_describe :: "('d, 'w) drv_ops_t \<Rightarrow> drv_caps_t \<Rightarrow> 'w \<Rightarrow> int \<times> drv_caps_t \<times> 'w" where
  "db_describe ops caps w = (case drv_describe ops of None \<Rightarrow> (1, caps, w) | Some f \<Rightarrow> f w)"

definition db_done :: "('d, 'w) db_driver_t list \<Rightarrow> 'w \<times> ('d, 'z) db_state_scheme \<Rightarrow> 'w \<times> ('d, 'z) db_state_scheme" where
  "db_done drivers = (\<lambda>(w, s).
     if \<not> db_global_initialized s then (w, s)
     else
       let s = s\<lparr>stats_enabled := False\<rparr>;
           s = (if db_debug s then s\<lparr>exec_timers := [], fetch_timers := []\<rparr> else s)
       in (fold (\<lambda>(drv, initialized) w. if initialized then drv_done (drv_ops drv) w else w) (zip drivers (drv_initialized s)) w, s))"

section \<open>Connections\<close>

definition log_alert :: "string \<Rightarrow> ('d, 'z) log_state_scheme \<Rightarrow> ('d, 'z) log_state_scheme" where
  "log_alert t = log_text LOG_ALERT (Formatted t)"

definition closed_alert :: "('d, 'z) log_state_scheme \<Rightarrow> ('d, 'z) log_state_scheme" where
  "closed_alert = log_alert ''attempt to use an already closed connection''"

definition count_event :: "nat \<Rightarrow> sb_counter_type_t \<Rightarrow> ('d, 'z) core_state_scheme \<Rightarrow> ('d, 'z) core_state_scheme" where
  "count_event thread_id type c = c\<lparr>sb_counters := sb_counter_inc thread_id type (sb_counters c)\<rparr>"

text \<open>A connection as \<open>calloc\<close> leaves it.\<close>

definition db_conn_zero :: db_conn_t where
  "db_conn_zero = \<lparr>con_error = DB_ERROR_NONE,
     con_rs = \<lparr>rs_counter = SB_CNT_OTHER, rs_nrows = 0, rs_nfields = 0, rs_statement = None, rs_row_values = False\<rparr>,
     con_state = DB_CONN_READY, con_thread_id = 0, bulk_cnt = 0, bulk_buflen = 0, bulk_buffer = None, bulk_ptr = 0,
     bulk_values = 0, bulk_commit_cnt = 0, bulk_commit_max = 0\<rparr>"

text \<open>\<open>alloc_ok\<close> tells whether the allocation succeeds.\<close>

definition db_connection_create :: "('d, 'w) drv_ops_t \<Rightarrow> bool \<Rightarrow> nat \<Rightarrow> 'w \<Rightarrow> db_conn_t option \<times> 'w" where
  "db_connection_create ops alloc_ok thread_id w =
     (if \<not> alloc_ok then (None, w)
      else
        let con = db_conn_zero\<lparr>con_state := DB_CONN_READY, con_thread_id := thread_id\<rparr>;
            (rc, w) = drv_connect ops con w
        in (if rc \<noteq> 0 then None else Some con, w))"

definition db_free_results_int :: "('d, 'w) drv_ops_t \<Rightarrow> db_conn_t \<Rightarrow> 'w \<Rightarrow> int \<times> db_conn_t \<times> 'w" where
  "db_free_results_int ops con w =
     (let (rc, w) = drv_free_results ops con w
      in (rc, con\<lparr>con_rs := (con_rs con)\<lparr>rs_row_values := False, rs_nrows := 0, rs_nfields := 0, rs_statement := None\<rparr>,
                  con_state := DB_CONN_READY\<rparr>, w))"

definition db_connection_close ::
  "('d, 'w) drv_ops_t \<Rightarrow> db_conn_t \<times> 'w \<times> ('d, 'z) core_state_scheme \<Rightarrow> int \<times> db_conn_t \<times> 'w \<times> ('d, 'z) core_state_scheme"
where
  "db_connection_close ops = (\<lambda>(con, w, c).
     if con_state con = DB_CONN_INVALID then (0, con, w, log_alert ''attempt to close an already closed connection'' c)
     else
       let (_, con, w) = (if con_state con = DB_CONN_RESULT_SET then db_free_results_int ops con w else (0, con, w));
           (rc, w) = drv_disconnect ops con w
       in (rc, con\<lparr>con_state := DB_CONN_INVALID\<rparr>, w, c))"

definition db_connection_reconnect ::
  "('d, 'w) drv_ops_t \<Rightarrow> db_conn_t \<times> 'w \<times> ('d, 'z) core_state_scheme \<Rightarrow> int \<times> db_conn_t \<times> 'w \<times> ('d, 'z) core_state_scheme"
where
  "db_connection_reconnect ops = (\<lambda>(con, w, c).
     case drv_reconnect ops of
       None \<Rightarrow> (0, con, w, log_alert ''reconnect is not supported by the current driver'' c)
     | Some reconnect \<Rightarrow>
         if con_state con = DB_CONN_INVALID then (0, con, w, log_alert ''attempt to close an already closed connection'' c)
         else
           let (_, con, w) = (if con_state con = DB_CONN_RESULT_SET then db_free_results_int ops con w else (0, con, w));
               (rc, w) = reconnect con w
           in if rc = DB_ERROR_FATAL
              then (db_error_code rc, con\<lparr>con_state := DB_CONN_INVALID\<rparr>, w, count_event (con_thread_id con) SB_CNT_ERROR c)
              else (db_error_code DB_ERROR_NONE, con\<lparr>con_state := DB_CONN_READY\<rparr>, w,
                    count_event (con_thread_id con) SB_CNT_RECONNECT c))"

text \<open>The connection is freed afterwards.\<close>

definition db_connection_free ::
  "('d, 'w) drv_ops_t \<Rightarrow> db_conn_t \<times> 'w \<times> ('d, 'z) core_state_scheme \<Rightarrow> 'w \<times> ('d, 'z) core_state_scheme"
where
  "db_connection_free ops = (\<lambda>(con, w, c).
     if con_state con \<noteq> DB_CONN_INVALID then snd (snd (db_connection_close ops (con, w, c))) else (w, c))"

section \<open>Statements and queries\<close>

text \<open>\<open>fresh\<close> is the address \<open>calloc\<close> returns, if any.\<close>

definition db_prepare ::
  "('d, 'w) drv_ops_t \<Rightarrow> nat option \<Rightarrow> string \<Rightarrow> db_conn_t \<times> 'w \<times> ('d, 'z) core_state_scheme \<Rightarrow>
     'd db_stmt_t option \<times> db_conn_t \<times> 'w \<times> ('d, 'z) core_state_scheme"
where
  "db_prepare ops fresh query = (\<lambda>(con, w, c).
     if con_state con = DB_CONN_INVALID then (None, con, w, closed_alert c)
     else
       case fresh of
         None \<Rightarrow> (None, con, w, c)
       | Some a \<Rightarrow>
           let (rc, stmt, w) = drv_prepare ops \<lparr>stmt_id = a, stmt_query = None, stmt_bound_param = None, stmt_emulated = False\<rparr> query con w
           in if rc \<noteq> 0 then (None, con\<lparr>con_error := DB_ERROR_FATAL\<rparr>, w, c) else (Some stmt, con, w, c))"

definition db_bind_param ::
  "('d, 'w) drv_ops_t \<Rightarrow> 'd db_bind_t list \<Rightarrow> 'd db_stmt_t \<Rightarrow> db_conn_t \<times> 'w \<times> ('d, 'z) core_state_scheme \<Rightarrow>
     int \<times> 'd db_stmt_t \<times> 'w \<times> ('d, 'z) core_state_scheme"
where
  "db_bind_param ops params stmt = (\<lambda>(con, w, c).
     if con_state con = DB_CONN_INVALID then (1, stmt, w, closed_alert c)
     else let (rc, stmt, w) = drv_bind_param ops stmt params con w in (rc, stmt, w, c))"

definition db_bind_result ::
  "('d, 'w) drv_ops_t \<Rightarrow> 'd db_bind_t list \<Rightarrow> 'd db_stmt_t \<Rightarrow> db_conn_t \<times> 'w \<times> ('d, 'z) core_state_scheme \<Rightarrow>
     int \<times> 'd db_stmt_t \<times> 'w \<times> ('d, 'z) core_state_scheme"
where
  "db_bind_result ops results stmt = (\<lambda>(con, w, c).
     if con_state con = DB_CONN_INVALID then (1, stmt, w, closed_alert c)
     else let (rc, stmt, w) = drv_bind_result ops stmt results con w in (rc, stmt, w, c))"

text \<open>Releasing an open result set before the next operation.\<close>

definition free_open_results :: "('d, 'w) drv_ops_t \<Rightarrow> db_conn_t \<Rightarrow> 'w \<Rightarrow> int \<times> db_conn_t \<times> 'w" where
  "free_open_results ops con w =
     (if con_state con = DB_CONN_RESULT_SET then db_free_results_int ops con w else (0, con, w))"

text \<open>What the functions that execute something do with the answer of the driver.\<close>

definition take_result ::
  "db_error_t \<times> db_result_t \<times> 'w \<Rightarrow> db_conn_t \<Rightarrow> ('d, 'z) core_state_scheme \<Rightarrow>
     bool \<times> db_conn_t \<times> 'w \<times> ('d, 'z) core_state_scheme"
where
  "take_result answer con c =
     (let (err, rs, w) = answer;
          con = con\<lparr>con_error := err, con_rs := rs\<rparr>;
          c = count_event (con_thread_id con) (rs_counter rs) c
      in if err = DB_ERROR_NONE
         then if rs_counter rs = SB_CNT_READ then (True, con\<lparr>con_state := DB_CONN_RESULT_SET\<rparr>, w, c)
              else (False, con\<lparr>con_state := DB_CONN_READY\<rparr>, w, c)
         else (False, con, w, c))"

definition set_statement :: "'d db_stmt_t \<Rightarrow> db_conn_t \<Rightarrow> db_conn_t" where
  "set_statement stmt con = con\<lparr>con_rs := (con_rs con)\<lparr>rs_statement := Some (stmt_id stmt)\<rparr>\<rparr>"

definition db_execute ::
  "('d, 'w) drv_ops_t \<Rightarrow> 'd db_stmt_t \<Rightarrow> db_conn_t \<times> 'w \<times> ('d, 'z) core_state_scheme \<Rightarrow>
     bool \<times> db_conn_t \<times> 'w \<times> ('d, 'z) core_state_scheme"
where
  "db_execute ops stmt = (\<lambda>(con, w, c).
     if con_state con = DB_CONN_INVALID then (False, con, w, closed_alert c)
     else
       let (rc, con, w) = free_open_results ops con w
       in if rc \<noteq> 0 then (False, con, w, c)
          else let con = set_statement stmt con in take_result (drv_execute ops stmt con w) con c)"

definition db_stmt_next_result ::
  "('d, 'w) drv_ops_t \<Rightarrow> 'd db_stmt_t \<Rightarrow> db_conn_t \<times> 'w \<times> ('d, 'z) core_state_scheme \<Rightarrow>
     bool \<times> db_conn_t \<times> 'w \<times> ('d, 'z) core_state_scheme"
where
  "db_stmt_next_result ops stmt = (\<lambda>(con, w, c).
     if con_state con = DB_CONN_INVALID then (False, con, w, closed_alert c)
     else
       let (rc, con, w) = free_open_results ops con w
       in if rc \<noteq> 0 then (False, con, w, c)
          else
            let con = set_statement stmt con
            in case drv_stmt_next_result ops of
                 None \<Rightarrow> (False, con\<lparr>con_error := DB_ERROR_NONE\<rparr>, w, c)
               | Some f \<Rightarrow> take_result (f stmt con w) con c)"

text \<open>After the message that rows cannot be fetched the code goes on and calls the missing function.\<close>

definition db_fetch_row ::
  "('d, 'w) drv_ops_t \<Rightarrow> db_conn_t \<times> 'w \<times> ('d, 'z) core_state_scheme \<Rightarrow>
     (bool \<times> db_conn_t \<times> 'w \<times> ('d, 'z) core_state_scheme) option"
where
  "db_fetch_row ops = (\<lambda>(con, w, c).
     if con_state con = DB_CONN_INVALID then Some (False, con, w, closed_alert c)
     else if con_state con \<noteq> DB_CONN_RESULT_SET
     then Some (False, con, w, log_alert ''attempt to fetch row from an invalid result set'' c)
     else
       let c = (if drv_fetch_row ops = None then log_alert ''fetching rows is not supported by the driver'' c else c)
       in if rs_nrows (con_rs con) = 0 \<or> rs_nfields (con_rs con) = 0
          then Some (False, con, w, log_alert ''attempt to fetch row from an empty result set'' c)
          else
            let con = con\<lparr>con_rs := (con_rs con)\<lparr>rs_row_values := True\<rparr>\<rparr>
            in case drv_fetch_row ops of
                 None \<Rightarrow> None
               | Some f \<Rightarrow> let (rc, w) = f con w in Some (rc = 0, con, w, c))"

definition db_query ::
  "('d, 'w) drv_ops_t \<Rightarrow> string \<Rightarrow> db_conn_t \<times> 'w \<times> ('d, 'z) core_state_scheme \<Rightarrow>
     bool \<times> db_conn_t \<times> 'w \<times> ('d, 'z) core_state_scheme"
where
  "db_query ops query = (\<lambda>(con, w, c).
     if con_state con = DB_CONN_INVALID then (False, con\<lparr>con_error := DB_ERROR_FATAL\<rparr>, w, closed_alert c)
     else
       let (rc, con, w) = free_open_results ops con w
       in if rc \<noteq> 0 then (False, con\<lparr>con_error := DB_ERROR_FATAL\<rparr>, w, c)
          else take_result (drv_query ops query con w) con c)"

definition db_more_results ::
  "('d, 'w) drv_ops_t \<Rightarrow> db_conn_t \<times> 'w \<times> ('d, 'z) core_state_scheme \<Rightarrow>
     bool \<times> db_conn_t \<times> 'w \<times> ('d, 'z) core_state_scheme"
where
  "db_more_results ops = (\<lambda>(con, w, c).
     if con_state con = DB_CONN_INVALID then (False, con, w, closed_alert c)
     else if con_state con \<noteq> DB_CONN_RESULT_SET then (False, con, w, c)
     else case drv_more_results ops of None \<Rightarrow> (False, con, w, c) | Some f \<Rightarrow> let (r, w) = f con w in (r, con, w, c))"

definition db_next_result ::
  "('d, 'w) drv_ops_t \<Rightarrow> db_conn_t \<times> 'w \<times> ('d, 'z) core_state_scheme \<Rightarrow>
     bool \<times> db_conn_t \<times> 'w \<times> ('d, 'z) core_state_scheme"
where
  "db_next_result ops = (\<lambda>(con, w, c).
     if con_state con = DB_CONN_INVALID then (False, con\<lparr>con_error := DB_ERROR_FATAL\<rparr>, w, closed_alert c)
     else
       let (rc, con, w) = free_open_results ops con w
       in if rc \<noteq> 0 then (False, con\<lparr>con_error := DB_ERROR_FATAL\<rparr>, w, c)
          else
            case drv_next_result ops of
              None \<Rightarrow> (False, con\<lparr>con_error := DB_ERROR_NONE\<rparr>, w, c)
            | Some f \<Rightarrow> take_result (f con w) con c)"

definition db_free_results ::
  "('d, 'w) drv_ops_t \<Rightarrow> db_conn_t \<times> 'w \<times> ('d, 'z) core_state_scheme \<Rightarrow> int \<times> db_conn_t \<times> 'w \<times> ('d, 'z) core_state_scheme"
where
  "db_free_results ops = (\<lambda>(con, w, c).
     if con_state con = DB_CONN_INVALID then (1, con, w, closed_alert c)
     else if con_state con \<noteq> DB_CONN_RESULT_SET then (1, con, w, log_alert ''attempt to free an invalid result set'' c)
     else let (rc, con, w) = db_free_results_int ops con w in (rc, con, w, c))"

text \<open>
  The second group of tests of the source is dead: after the first one the connection is neither
  invalid nor has it an open result set.  The statement is freed at the end.
\<close>

definition db_close ::
  "('d, 'w) drv_ops_t \<Rightarrow> 'd db_stmt_t \<Rightarrow> db_conn_t \<times> 'w \<times> ('d, 'z) core_state_scheme \<Rightarrow>
     int \<times> db_conn_t \<times> 'w \<times> ('d, 'z) core_state_scheme"
where
  "db_close ops stmt = (\<lambda>(con, w, c).
     if con_state con = DB_CONN_INVALID then (0, con, w, closed_alert c)
     else
       let (rc, con, w) = free_open_results ops con w
       in if rc \<noteq> 0 then (db_error_code DB_ERROR_FATAL, con, w, c)
          else let (rc, w) = drv_close ops stmt con w in (rc, con, w, c))"

section \<open>Values\<close>

text \<open>The text of a bound variable; \<open>None\<close> for the types without one.\<close>

definition signed_text :: "u32 \<Rightarrow> string" where
  "signed_text w = print_int (sint w)"

definition value_text :: "'d out_ops \<Rightarrow> 'd db_bind_t \<Rightarrow> string option" where
  "value_text out var =
     (case (bind_type var, bind_buffer var) of
        (DB_TYPE_TINYINT, Int_value i) \<Rightarrow> Some (print_int i)
      | (DB_TYPE_SMALLINT, Int_value i) \<Rightarrow> Some (print_int i)
      | (DB_TYPE_INT, Int_value i) \<Rightarrow> Some (print_int i)
      | (DB_TYPE_BIGINT, Int_value i) \<Rightarrow> Some (print_int i)
      | (DB_TYPE_FLOAT, Real_value x) \<Rightarrow> Some (out_dec out 6 x)
      | (DB_TYPE_DOUBLE, Real_value x) \<Rightarrow> Some (out_dec out 6 x)
      | (DB_TYPE_CHAR, Text_value s) \<Rightarrow> Some (quoted s)
      | (DB_TYPE_VARCHAR, Text_value s) \<Rightarrow> Some (quoted s)
      | (DB_TYPE_DATE, Time_value tm) \<Rightarrow>
          Some (quoted (signed_text (year tm) @ ''-'' @ signed_text (month tm) @ ''-'' @ signed_text (day tm)))
      | (DB_TYPE_TIME, Time_value tm) \<Rightarrow>
          Some (quoted (signed_text (hour tm) @ '':'' @ signed_text (minute tm) @ '':'' @ signed_text (second tm)))
      | (DB_TYPE_DATETIME, Time_value tm) \<Rightarrow>
          Some (quoted (signed_text (year tm) @ ''-'' @ signed_text (month tm) @ ''-'' @ signed_text (day tm) @ '' '' @
            signed_text (hour tm) @ '':'' @ signed_text (minute tm) @ '':'' @ signed_text (second tm)))
      | (DB_TYPE_TIMESTAMP, Time_value tm) \<Rightarrow>
          Some (quoted (signed_text (year tm) @ ''-'' @ signed_text (month tm) @ ''-'' @ signed_text (day tm) @ '' '' @
            signed_text (hour tm) @ '':'' @ signed_text (minute tm) @ '':'' @ signed_text (second tm)))
      | _ \<Rightarrow> None)"

text \<open>What \<open>snprintf\<close> leaves in the buffer, if it is called, and the result.\<close>

definition db_print_value :: "'d out_ops \<Rightarrow> 'd db_bind_t \<Rightarrow> nat \<Rightarrow> string option \<times> int" where
  "db_print_value out var buflen =
     (case (if bind_is_null var = Some True then Some ''NULL'' else value_text out var) of
        None \<Rightarrow> (None, if 0 < buflen then 0 else - 1)
      | Some text \<Rightarrow> (Some (take (buflen - 1) text), if length text < buflen then int (length text) else - 1))"

section \<open>Multi-row inserts\<close>

text \<open>Writing bytes into a buffer; behind its end the behaviour is undefined (\<open>None\<close>).\<close>

definition buf_write :: "string \<Rightarrow> nat \<Rightarrow> string \<Rightarrow> string option" where
  "buf_write buf ptr bytes =
     (if ptr + length bytes \<le> length buf then Some (take ptr buf @ bytes @ drop (ptr + length bytes) buf) else None)"

text \<open>
  \<open>memory\<close> is what \<open>malloc\<close> returns, with its content, and \<open>caps\<close> the uninitialised local variable.
  \<open>query_len\<close> is the length passed by the caller, \<open>query\<close> the text before its terminating zero.
\<close>

definition db_bulk_insert_init ::
  "('d, 'w) drv_ops_t \<Rightarrow> drv_caps_t \<Rightarrow> string option \<Rightarrow> string \<Rightarrow> nat \<Rightarrow> db_conn_t \<times> 'w \<times> ('d, 'z) core_state_scheme \<Rightarrow>
     (int \<times> db_conn_t \<times> 'w \<times> ('d, 'z) core_state_scheme) option"
where
  "db_bulk_insert_init ops caps memory query query_len = (\<lambda>(con, w, c).
     if con_state con = DB_CONN_INVALID then Some (0, con, w, closed_alert c)
     else
       let (rc, con, w) = free_open_results ops con w
       in if rc \<noteq> 0 then Some (0, con, w, c)
          else
            let (rc, driver_caps, w) = db_describe ops caps w
            in if rc \<noteq> 0 then Some (1, con, w, log_text LOG_FATAL (Formatted ''failed to get database capabilities!'') c)
               else if query_len + 1 > BULK_PACKET_SIZE
               then Some (1, con, w, log_text LOG_FATAL (Formatted (''Query length exceeds the maximum value ('' @
                      print_dec BULK_PACKET_SIZE @ ''), aborting'')) c)
               else
                 let con = con\<lparr>bulk_buflen := of_nat BULK_PACKET_SIZE, bulk_buffer := memory\<rparr>
                 in case memory of
                      None \<Rightarrow> Some (1, con, w, c)
                    | Some m \<Rightarrow> do {
                        buf \<leftarrow> buf_write m 0 (query @ [nul]);
                        Some (0, con\<lparr>bulk_commit_max := (if needs_commit driver_caps then ROWS_BEFORE_COMMIT else 0),
                                     bulk_commit_cnt := 0, bulk_buffer := Some buf, bulk_ptr := of_nat query_len,
                                     bulk_values := of_nat query_len, bulk_cnt := 0\<rparr>, w, c) })"

text \<open>The result tells whether the call fails.\<close>

definition db_bulk_do_insert ::
  "('d, 'w) drv_ops_t \<Rightarrow> bool \<Rightarrow> db_conn_t \<times> 'w \<times> ('d, 'z) core_state_scheme \<Rightarrow>
     (bool \<times> db_conn_t \<times> 'w \<times> ('d, 'z) core_state_scheme) option"
where
  "db_bulk_do_insert ops is_last = (\<lambda>(con, w, c).
     if bulk_cnt con = 0 then Some (False, con, w, c)
     else do {
       buf \<leftarrow> bulk_buffer con;
       let (rs, con, w, c) = db_query ops (take (unat (bulk_ptr con)) buf) (con, w, c);
       if \<not> rs \<and> con_error con \<noteq> DB_ERROR_NONE then Some (True, con, w, c)
       else
         let reset = (\<lambda>con. con\<lparr>bulk_ptr := bulk_values con, bulk_cnt := 0\<rparr>)
         in if bulk_commit_max con \<noteq> 0
            then
              let con = con\<lparr>bulk_commit_cnt := bulk_commit_cnt con + bulk_cnt con\<rparr>
              in if is_last \<or> bulk_commit_cnt con \<ge> bulk_commit_max con
                 then
                   let (rs, con, w, c) = db_query ops ''COMMIT'' (con, w, c)
                   in if \<not> rs \<and> con_error con \<noteq> DB_ERROR_NONE then Some (True, con, w, c)
                      else Some (False, reset (con\<lparr>bulk_commit_cnt := 0\<rparr>), w, c)
                 else Some (False, reset con, w, c)
            else Some (False, reset con, w, c) })"

definition db_bulk_insert_next ::
  "('d, 'w) drv_ops_t \<Rightarrow> string \<Rightarrow> nat \<Rightarrow> db_conn_t \<times> 'w \<times> ('d, 'z) core_state_scheme \<Rightarrow>
     (int \<times> db_conn_t \<times> 'w \<times> ('d, 'z) core_state_scheme) option"
where
  "db_bulk_insert_next ops query query_len = (\<lambda>(con, w, c).
     if con_state con = DB_CONN_INVALID then Some (0, con, w, closed_alert c)
     else
       let (rc, con, w) = free_open_results ops con w
       in if rc \<noteq> 0 then Some (0, con, w, c)
          else if bulk_buffer con = None
          then Some (1, con, w, log_alert ''attempt to call bulk_insert_next() before bulk_insert_init()'' c)
          else
            let too_long = unat (bulk_ptr con) + query_len + 1 + (if bulk_cnt con > 0 then 1 else 0) > unat (bulk_buflen con)
            in if too_long \<and> bulk_cnt con = 0
               then Some (1, con, w, log_text LOG_FATAL (Formatted (''Query length exceeds the maximum value ('' @
                      print_dec (unat (bulk_buflen con)) @ ''), aborting'')) c)
               else do {
                 (failed, con, w, c) \<leftarrow> (if too_long then db_bulk_do_insert ops False (con, w, c) else Some (False, con, w, c));
                 if failed then Some (1, con, w, c)
                 else do {
                   buf \<leftarrow> bulk_buffer con;
                   let sep = (if bulk_cnt con > 0 then '','' else []);
                   buf \<leftarrow> buf_write buf (unat (bulk_ptr con)) (sep @ query @ [nul]);
                   Some (0, con\<lparr>bulk_buffer := Some buf, bulk_ptr := bulk_ptr con + of_nat (query_len + length sep),
                                bulk_cnt := bulk_cnt con + 1\<rparr>, w, c) } })"

definition db_bulk_insert_done ::
  "('d, 'w) drv_ops_t \<Rightarrow> db_conn_t \<times> 'w \<times> ('d, 'z) core_state_scheme \<Rightarrow>
     (int \<times> db_conn_t \<times> 'w \<times> ('d, 'z) core_state_scheme) option"
where
  "db_bulk_insert_done ops s = do {
     (failed, con, w, c) \<leftarrow> db_bulk_do_insert ops True s;
     Some (if failed then (1, con, w, c) else (0, con\<lparr>bulk_buffer := None\<rparr>, w, c)) }"

section \<open>Reports\<close>

definition check_print_stats :: "('d, 'z) db_state_scheme \<Rightarrow> bool" where
  "check_print_stats s = stats_enabled s"

definition db_report_intermediate ::
  "'d fp_ops \<Rightarrow> 'd out_ops \<Rightarrow> 'd sb_stat_t \<Rightarrow> ('d, 'z) db_state_scheme \<Rightarrow> ('d, 'z) db_state_scheme"
where
  "db_report_intermediate fp out stat s =
     (if \<not> check_print_stats s then sb_report_intermediate fp out stat s
      else
        let per_sec = (\<lambda>n. pad 4 (out_dec out 2 (fp_div fp (fp_of_u64 fp n) (stat_time_interval stat))));
            stamp = out_dec out 0 (stat_time_total stat);
            s = log_timestamp LOG_NOTICE stamp (Formatted
                  (''thds: '' @ print_dec (unat (stat_threads_running stat)) @ '' tps: '' @ per_sec (stat_events stat) @
                   '' qps: '' @ per_sec (stat_reads stat + stat_writes stat + stat_other stat) @
                   '' (r/w/o: '' @ per_sec (stat_reads stat) @ ''/'' @ per_sec (stat_writes stat) @ ''/'' @ per_sec (stat_other stat) @
                   '') lat (ms,'' @ print_dec (unat (g_percentile s)) @ ''%): '' @
                   pad 4 (out_dec out 2 (SEC2MS fp (stat_latency_pct stat))) @
                   '' err/s: '' @ per_sec (stat_errors stat) @ '' reconn/s: '' @ per_sec (stat_reconnects stat))) s
        in if g_tx_rate s > 0
           then log_timestamp LOG_NOTICE stamp (Formatted
                  (''queue length: '' @ print_dec (unat (stat_queue_length stat)) @
                   '', concurrency: '' @ print_dec (unat (stat_concurrency stat)))) s
           else s)"

definition pad_right :: "nat \<Rightarrow> string \<Rightarrow> string" where
  "pad_right w t = t @ replicate (w - length t) CHR '' ''"

definition sql_lines :: "'d fp_ops \<Rightarrow> 'd out_ops \<Rightarrow> 'd sb_stat_t \<Rightarrow> (log_msg_priority_t \<times> string) list" where
  "sql_lines fp out stat =
     (let queries = stat_reads stat + stat_writes stat + stat_other stat;
          rate = (\<lambda>n. pad_right 6 (print_dec (unat n)) @ '' ('' @
                    out_dec out 2 (fp_div fp (fp_of_u64 fp n) (stat_time_interval stat)) @ '' per sec.)'')
      in map (Pair LOG_NOTICE)
           [''SQL statistics:'',
            ''    queries performed:'',
            ''        read:                            '' @ print_dec (unat (stat_reads stat)),
            ''        write:                           '' @ print_dec (unat (stat_writes stat)),
            ''        other:                           '' @ print_dec (unat (stat_other stat)),
            ''        total:                           '' @ print_dec (unat queries),
            ''    transactions:                        '' @ rate (stat_events stat),
            ''    queries:                             '' @ rate queries,
            ''    ignored errors:                      '' @ rate (stat_errors stat),
            ''    reconnects:                          '' @ rate (stat_reconnects stat)])"

definition timer_lines :: "'d fp_ops \<Rightarrow> 'd out_ops \<Rightarrow> string \<Rightarrow> sb_timer_t \<Rightarrow> (log_msg_priority_t \<times> string) list" where
  "timer_lines fp out title t = map (Pair LOG_DEBUG)
     [title,
      ''    min:                                '' @ out_dec out 4 (NS2SEC fp (sb_timer_min t)) @ ''s'',
      ''    avg:                                '' @ out_dec out 4 (NS2SEC fp (sb_timer_avg t)) @ ''s'',
      ''    max:                                '' @ out_dec out 4 (NS2SEC fp (sb_timer_max t)) @ ''s'',
      ''  total:                                '' @ out_dec out 4 (NS2SEC fp (sb_timer_sum t)) @ ''s'']"

definition db_report_cumulative ::
  "'d fp_ops \<Rightarrow> 'd out_ops \<Rightarrow> (nat \<Rightarrow> timespec) \<Rightarrow> 'd sb_stat_t \<Rightarrow> ('d, 'z) db_state_scheme \<Rightarrow> ('d, 'z) db_state_scheme"
where
  "db_report_cumulative fp out clk stat s =
     (if \<not> check_print_stats s then sb_report_cumulative fp out clk stat s
      else
        let s = log_lines (sql_lines fp out stat) s;
            s = (if db_debug s
                 then log_lines ((LOG_DEBUG, []) #
                        timer_lines fp out ''Query execution statistics:'' (merge_timers (unat (g_threads s)) (exec_timers s)) @
                        timer_lines fp out ''Results fetching statistics:'' (merge_timers (unat (g_threads s)) (fetch_timers s))) s
                 else s)
        in sb_report_cumulative fp out clk stat s)"

definition db_print_help ::
  "bool \<Rightarrow> ('d, 'w) db_driver_t list \<Rightarrow> ('d, 'z) db_state_scheme \<Rightarrow> ('d, 'z) db_state_scheme option"
where
  "db_print_help use_mysql drivers s = do {
     let s = log_text LOG_NOTICE (Formatted (''General database options:'' @ [newline])) s;
     opts \<leftarrow> sb_print_options (db_args use_mysql);
     let s = log_text LOG_NOTICE (Formatted []) (printf opts s);
     let s = log_text LOG_NOTICE (Formatted ''Compiled-in database drivers:'') s;
     let s = log_lines (map (\<lambda>d. (LOG_NOTICE, ''  '' @ drv_sname d @ '' - '' @ drv_lname d)) drivers) s;
     let s = log_text LOG_NOTICE (Formatted []) s;
     fold_opt (\<lambda>d s. do {
       let s = log_text LOG_NOTICE (Formatted (drv_sname d @ '' options:'')) s;
       args \<leftarrow> drv_args d;
       text \<leftarrow> sb_print_options args;
       Some (printf text s) }) drivers s }"

text \<open>
  The specification: a sequence of statements, each an INSERT with some rows or a COMMIT.
\<close>

datatype bulk_stmt = Insert "string list" | Commit

fun commas :: "string list \<Rightarrow> string" where
  "commas [] = []"
| "commas [r] = r"
| "commas (r # rs) = r @ '','' @ commas rs"

primrec stmt_text :: "string \<Rightarrow> bulk_stmt \<Rightarrow> string" where
  "stmt_text query (Insert rows) = query @ commas rows"
| "stmt_text query Commit = ''COMMIT''"

primrec stmt_rows :: "bulk_stmt \<Rightarrow> string list" where
  "stmt_rows (Insert rows) = rows"
| "stmt_rows Commit = []"

primrec count_rows :: "bulk_stmt \<Rightarrow> nat \<Rightarrow> nat" where
  "count_rows (Insert rows) n = n + length rows"
| "count_rows Commit n = 0"

text \<open>The number of rows after the last COMMIT.\<close>

definition uncommitted :: "bulk_stmt list \<Rightarrow> nat" where
  "uncommitted stmts = fold count_rows stmts 0"

text \<open>Every INSERT has rows, fits into the packet, and is preceded by few enough uncommitted rows.\<close>

definition insert_ok :: "string \<Rightarrow> nat \<Rightarrow> bulk_stmt \<Rightarrow> bool" where
  "insert_ok query n st =
     (case st of Commit \<Rightarrow> True
      | Insert rows \<Rightarrow> rows \<noteq> [] \<and> length (stmt_text query st) < BULK_PACKET_SIZE \<and> n < 1000)"

fun stmts_ok :: "string \<Rightarrow> bool \<Rightarrow> nat \<Rightarrow> bulk_stmt list \<Rightarrow> bool" where
  "stmts_ok query commits n [] = True"
| "stmts_ok query commits n (st # sts) =
     (insert_ok query n st \<and> (st = Commit \<longrightarrow> commits) \<and>
      stmts_ok query commits (if commits then count_rows st n else 0) sts)"

text \<open>
  A driver that accepts every query: \<open>sent\<close> are the statements it has passed on.
\<close>

definition accepting :: "('d, 'w) drv_ops_t \<Rightarrow> ('w \<Rightarrow> string list) \<Rightarrow> bool \<Rightarrow> bool" where
  "accepting ops sent commits \<longleftrightarrow>
     (\<forall>q con w. fst (drv_query ops q con w) = DB_ERROR_NONE \<and> sent (snd (snd (drv_query ops q con w))) = sent w @ [q]) \<and>
     (\<forall>con w. fst (drv_free_results ops con w) = 0 \<and> sent (snd (drv_free_results ops con w)) = sent w) \<and>
     (\<exists>f. drv_describe ops = Some f \<and> (\<forall>w. \<exists>caps w'. f w = (0, caps, w') \<and> needs_commit caps = commits \<and> sent w' = sent w))"

text \<open>A whole multi-row insert: \<open>init\<close>, one \<open>next\<close> for every row, \<open>done\<close>, up to the first error.\<close>

definition add_row ::
  "('d, 'w) drv_ops_t \<Rightarrow> string \<Rightarrow> int \<times> db_conn_t \<times> 'w \<times> ('d, 'z) core_state_scheme \<Rightarrow>
     (int \<times> db_conn_t \<times> 'w \<times> ('d, 'z) core_state_scheme) option"
where
  "add_row ops row = (\<lambda>(rc, s). if rc \<noteq> 0 then Some (rc, s) else db_bulk_insert_next ops row (length row) s)"

definition bulk_insert ::
  "('d, 'w) drv_ops_t \<Rightarrow> drv_caps_t \<Rightarrow> string option \<Rightarrow> string \<Rightarrow> string list \<Rightarrow> db_conn_t \<times> 'w \<times> ('d, 'z) core_state_scheme \<Rightarrow>
     (int \<times> db_conn_t \<times> 'w \<times> ('d, 'z) core_state_scheme) option"
where
  "bulk_insert ops caps memory query rows s = do {
     r \<leftarrow> db_bulk_insert_init ops caps memory query (length query) s;
     (rc, s) \<leftarrow> fold_opt (add_row ops) rows r;
     if rc \<noteq> 0 then Some (rc, s) else db_bulk_insert_done ops s }"

definition bulk_part :: "db_conn_t \<Rightarrow> u32 \<times> u32 \<times> string option \<times> u32 \<times> u32 \<times> u32 \<times> u32" where
  "bulk_part con = (bulk_cnt con, bulk_buflen con, bulk_buffer con, bulk_ptr con, bulk_values con, bulk_commit_cnt con,
     bulk_commit_max con)"

text \<open>The connection collects the rows \<open>cur\<close>, after \<open>n\<close> uncommitted ones.\<close>

definition bulk_inv :: "string \<Rightarrow> bool \<Rightarrow> nat \<Rightarrow> string list \<Rightarrow> db_conn_t \<Rightarrow> bool" where
  "bulk_inv query commits n cur con \<longleftrightarrow>
     con_state con \<noteq> DB_CONN_INVALID \<and>
     (\<exists>buf. bulk_buffer con = Some buf \<and> length buf = BULK_PACKET_SIZE \<and>
        take (length query + length (commas cur)) buf = query @ commas cur) \<and>
     unat (bulk_ptr con) = length query + length (commas cur) \<and> length query + length (commas cur) < BULK_PACKET_SIZE \<and>
     unat (bulk_buflen con) = BULK_PACKET_SIZE \<and> unat (bulk_values con) = length query \<and>
     unat (bulk_cnt con) = length cur \<and> bulk_commit_max con = (if commits then 1000 else 0) \<and>
     n < 1000 \<and> (if commits then unat (bulk_commit_cnt con) = n else n = 0)"

definition flushed :: "bool \<Rightarrow> nat \<Rightarrow> bool \<Rightarrow> string list \<Rightarrow> bulk_stmt list" where
  "flushed commits n is_last cur =
     Insert cur # (if commits \<and> (is_last \<or> n + length cur \<ge> 1000) then [Commit] else [])"

definition append_row :: "string \<Rightarrow> db_conn_t \<Rightarrow> db_conn_t option" where
  "append_row row con = do {
     buf \<leftarrow> bulk_buffer con;
     let sep = (if bulk_cnt con > 0 then '','' else []);
     buf \<leftarrow> buf_write buf (unat (bulk_ptr con)) (sep @ row @ [nul]);
     Some (con\<lparr>bulk_buffer := Some buf, bulk_ptr := bulk_ptr con + of_nat (length row + length sep),
               bulk_cnt := bulk_cnt con + 1\<rparr>) }"

definition list_caps :: "bool \<Rightarrow> drv_caps_t" where
  "list_caps commits = \<lparr>multi_rows_insert = True, prepared_statements = True, auto_increment = True, needs_commit = commits,
     serial_clause = False, unsigned_int = False\<rparr>"

definition list_driver :: "bool \<Rightarrow> (rat, string list) drv_ops_t" where
  "list_driver commits =
     (let rs = \<lparr>rs_counter = SB_CNT_WRITE, rs_nrows = 0, rs_nfields = 0, rs_statement = None, rs_row_values = False\<rparr>
      in \<lparr>drv_init = Pair 0, drv_thread_init = None, drv_describe = Some (\<lambda>w. (0, list_caps commits, w)),
          drv_connect = (\<lambda>con w. (0, w)), drv_disconnect = (\<lambda>con w. (0, w)),
          drv_reconnect = Some (\<lambda>con w. (DB_ERROR_NONE, w)),
          drv_prepare = (\<lambda>st q con w. (0, st\<lparr>stmt_query := Some q\<rparr>, w)), drv_bind_param = (\<lambda>st ps con w. (0, st, w)),
          drv_bind_result = (\<lambda>st ps con w. (0, st, w)),
          drv_execute = (\<lambda>st con w. (DB_ERROR_NONE, rs, w @ [case stmt_query st of Some q \<Rightarrow> q | None \<Rightarrow> []])),
          drv_stmt_next_result = None, drv_fetch_row = None, drv_free_results = (\<lambda>con w. (0, w)),
          drv_more_results = None, drv_next_result = None, drv_close = (\<lambda>st con w. (0, w)),
          drv_query = (\<lambda>q con w. (DB_ERROR_NONE, rs, w @ [q])), drv_thread_done = None, drv_done = (\<lambda>w. w)\<rparr>)"

datatype 'd db_call =
    Reconnect | Close_connection | Prepare "nat option" string | Bind_param "'d db_bind_t list" "'d db_stmt_t"
  | Bind_result "'d db_bind_t list" "'d db_stmt_t" | Execute "'d db_stmt_t" | Stmt_next_result "'d db_stmt_t" | Fetch_row
  | Query string | More_results | Next_result | Free_results | Close_stmt "'d db_stmt_t"
  | Bulk_init drv_caps_t "string option" string nat | Bulk_next string nat | Bulk_done

fun do_call ::
  "('d, 'w) drv_ops_t \<Rightarrow> 'd db_call \<Rightarrow> db_conn_t \<times> 'w \<times> ('d, 'z) core_state_scheme \<Rightarrow>
     (db_conn_t \<times> 'w \<times> ('d, 'z) core_state_scheme) option"
where
  "do_call ops Reconnect s = Some (snd (db_connection_reconnect ops s))"
| "do_call ops Close_connection s = Some (snd (db_connection_close ops s))"
| "do_call ops (Prepare fresh q) s = Some (snd (db_prepare ops fresh q s))"
| "do_call ops (Bind_param ps st) s = Some (fst s, snd (snd (db_bind_param ops ps st s)))"
| "do_call ops (Bind_result ps st) s = Some (fst s, snd (snd (db_bind_result ops ps st s)))"
| "do_call ops (Execute st) s = Some (snd (db_execute ops st s))"
| "do_call ops (Stmt_next_result st) s = Some (snd (db_stmt_next_result ops st s))"
| "do_call ops Fetch_row s = map_option snd (db_fetch_row ops s)"
| "do_call ops (Query q) s = Some (snd (db_query ops q s))"
| "do_call ops More_results s = Some (snd (db_more_results ops s))"
| "do_call ops Next_result s = Some (snd (db_next_result ops s))"
| "do_call ops Free_results s = Some (snd (db_free_results ops s))"
| "do_call ops (Close_stmt st) s = Some (snd (db_close ops st s))"
| "do_call ops (Bulk_init caps m q n) s = map_option snd (db_bulk_insert_init ops caps m q n s)"
| "do_call ops (Bulk_next q n) s = map_option snd (db_bulk_insert_next ops q n s)"
| "do_call ops Bulk_done s = map_option snd (db_bulk_insert_done ops s)"

definition inert :: "db_conn_t \<Rightarrow> bool" where
  "inert con \<longleftrightarrow> con_state con = DB_CONN_INVALID \<and> (bulk_cnt con = 0 \<or> bulk_buffer con \<noteq> None)"

text \<open>A driver that also records what it reports for every execution and for every attempt to reconnect.\<close>

definition keep :: "('w \<Rightarrow> 'r \<times> 'w) \<Rightarrow> 'l \<times> 'w \<Rightarrow> 'r \<times> 'l \<times> 'w" where
  "keep f = (\<lambda>(l, w). let (r, w) = f w in (r, l, w))"

definition keep2 :: "('w \<Rightarrow> 'q \<times> 'r \<times> 'w) \<Rightarrow> 'l \<times> 'w \<Rightarrow> 'q \<times> 'r \<times> 'l \<times> 'w" where
  "keep2 f = (\<lambda>(l, w). let (q, r, w) = f w in (q, r, l, w))"

definition record_type ::
  "('w \<Rightarrow> db_error_t \<times> db_result_t \<times> 'w) \<Rightarrow> sb_counter_type_t list \<times> 'w \<Rightarrow> db_error_t \<times> db_result_t \<times> sb_counter_type_t list \<times> 'w"
where
  "record_type f = (\<lambda>(l, w). let (e, rs, w) = f w in (e, rs, l @ [rs_counter rs], w))"

definition recording :: "('d, 'w) drv_ops_t \<Rightarrow> ('d, sb_counter_type_t list \<times> 'w) drv_ops_t" where
  "recording ops =
     \<lparr>drv_init = keep (drv_init ops), drv_thread_init = map_option (\<lambda>f t. keep (f t)) (drv_thread_init ops),
      drv_describe = map_option keep2 (drv_describe ops),
      drv_connect = (\<lambda>con. keep (drv_connect ops con)), drv_disconnect = (\<lambda>con. keep (drv_disconnect ops con)),
      drv_reconnect = map_option (\<lambda>f con (l, w).
        let (e, w) = f con w in (e, l @ [if e = DB_ERROR_FATAL then SB_CNT_ERROR else SB_CNT_RECONNECT], w)) (drv_reconnect ops),
      drv_prepare = (\<lambda>st q con. keep2 (drv_prepare ops st q con)), drv_bind_param = (\<lambda>st ps con. keep2 (drv_bind_param ops st ps con)),
      drv_bind_result = (\<lambda>st ps con. keep2 (drv_bind_result ops st ps con)),
      drv_execute = (\<lambda>st con. record_type (drv_execute ops st con)),
      drv_stmt_next_result = map_option (\<lambda>f st con. record_type (f st con)) (drv_stmt_next_result ops),
      drv_fetch_row = map_option (\<lambda>f con. keep (f con)) (drv_fetch_row ops), drv_free_results = (\<lambda>con. keep (drv_free_results ops con)),
      drv_more_results = map_option (\<lambda>f con. keep (f con)) (drv_more_results ops),
      drv_next_result = map_option (\<lambda>f con. record_type (f con)) (drv_next_result ops),
      drv_close = (\<lambda>st con. keep (drv_close ops st con)), drv_query = (\<lambda>q con. record_type (drv_query ops q con)),
      drv_thread_done = map_option (\<lambda>f t. keep (f t)) (drv_thread_done ops), drv_done = (\<lambda>(l, w). (l, drv_done ops w))\<rparr>"

text \<open>The counters have moved by what was recorded in between.\<close>

definition counted ::
  "db_conn_t \<times> (sb_counter_type_t list \<times> 'w) \<times> ('d, 'z) core_state_scheme \<Rightarrow>
   db_conn_t \<times> (sb_counter_type_t list \<times> 'w) \<times> ('d, 'z) core_state_scheme \<Rightarrow> bool"
where
  "counted s s' \<longleftrightarrow>
     (\<exists>new. fst (fst (snd s')) = fst (fst (snd s)) @ new \<and> con_thread_id (fst s') = con_thread_id (fst s) \<and>
        sb_counters (snd (snd s')) = fold (sb_counter_inc (con_thread_id (fst s))) new (sb_counters (snd (snd s))))"

section \<open>Multi-row inserts are complete\<close>

lemma commas_snoc: "commas (rs @ [r]) = (if rs = [] then r else commas rs @ '','' @ r)"
  by (induction rs rule: commas.induct) auto

lemma length_commas: "length rs \<le> length (commas rs) + 1"
  by (induction rs rule: commas.induct) auto

lemma stmts_ok_append:
  "stmts_ok query commits n (xs @ ys) \<longleftrightarrow>
     stmts_ok query commits n xs \<and> stmts_ok query commits (if commits then fold count_rows xs n else (if xs = [] then n else 0)) ys"
  by (induction xs arbitrary: n) auto

lemma buf_write_fits:
  assumes "ptr + length bytes \<le> length buf"
  obtains buf' where "buf_write buf ptr bytes = Some buf'" "length buf' = length buf" "take ptr buf' = take ptr buf"
    "\<And>k. k \<le> length bytes \<Longrightarrow> take (ptr + k) buf' = take ptr buf @ take k bytes"
proof -
  define buf' where "buf' = take ptr buf @ bytes @ drop (ptr + length bytes) buf"
  have len: "length (take ptr buf) = ptr" using assms by simp
  show thesis
  proof (rule that)
    show "buf_write buf ptr bytes = Some buf'" using assms by (simp add: buf_write_def buf'_def)
    show "length buf' = length buf" using assms by (simp add: buf'_def)
    show "take ptr buf' = take ptr buf" using len by (simp add: buf'_def)
    show "take (ptr + k) buf' = take ptr buf @ take k bytes" if "k \<le> length bytes" for k
      using len that by (simp add: buf'_def take_append)
  qed
qed

lemma free_open_results_accepting:
  assumes "accepting ops sent commits" "con_state con \<noteq> DB_CONN_INVALID"
  obtains con' w' where "free_open_results ops con w = (0, con', w')" "sent w' = sent w" "bulk_part con' = bulk_part con"
    "con_state con' \<noteq> DB_CONN_INVALID"
proof (cases "con_state con = DB_CONN_RESULT_SET")
  case True
  obtain w' where "drv_free_results ops con w = (0, w')" "sent w' = sent w"
    using assms(1) unfolding accepting_def by (metis prod.collapse)
  then show thesis
    using True by (auto intro!: that simp: free_open_results_def db_free_results_int_def bulk_part_def)
next
  case False
  then show thesis using assms(2) by (intro that) (simp_all add: free_open_results_def)
qed

lemma db_query_accepting:
  assumes acc: "accepting ops sent commits" and valid: "con_state con \<noteq> DB_CONN_INVALID"
  obtains rs con' w' c' where "db_query ops q (con, w, c) = (rs, con', w', c')" "sent w' = sent w @ [q]"
    "bulk_part con' = bulk_part con" "con_state con' \<noteq> DB_CONN_INVALID" "con_error con' = DB_ERROR_NONE"
proof -
  obtain con1 w1 where free: "free_open_results ops con w = (0, con1, w1)" "sent w1 = sent w" "bulk_part con1 = bulk_part con"
    using acc valid by (rule free_open_results_accepting)
  obtain rs w' where q: "drv_query ops q con1 w1 = (DB_ERROR_NONE, rs, w')" "sent w' = sent w1 @ [q]"
    using acc unfolding accepting_def by (metis prod.collapse)
  show thesis
    using valid free q
    by (cases "rs_counter rs = SB_CNT_READ")
      (auto intro!: that simp: db_query_def take_result_def Let_def bulk_part_def)
qed

lemma bulk_inv_part:
  "bulk_part con = bulk_part con' \<Longrightarrow> con_state con' \<noteq> DB_CONN_INVALID \<Longrightarrow> bulk_inv query commits n cur con \<Longrightarrow>
     bulk_inv query commits n cur con'"
  by (cases commits) (auto simp: bulk_inv_def bulk_part_def)

lemma bulk_room:
  assumes "bulk_inv query commits n cur con"
  shows "length cur \<le> BULK_PACKET_SIZE" "n < 1000"
  using assms length_commas [of cur] by (simp_all add: bulk_inv_def)

lemma bulk_inv_reset:
  assumes inv: "bulk_inv query commits n cur con"
    and part: "con_state con' \<noteq> DB_CONN_INVALID" "bulk_buffer con' = bulk_buffer con" "bulk_ptr con' = bulk_values con"
      "bulk_cnt con' = 0" "bulk_buflen con' = bulk_buflen con" "bulk_values con' = bulk_values con"
      "bulk_commit_max con' = bulk_commit_max con" "if commits then unat (bulk_commit_cnt con') = m else m = 0" "m < 1000"
  shows "bulk_inv query commits m [] con'"
proof -
  obtain buf where buf: "bulk_buffer con = Some buf" "length buf = BULK_PACKET_SIZE"
      "take (length query + length (commas cur)) buf = query @ commas cur"
    using inv by (auto simp: bulk_inv_def)
  have "take (length query) (take (length query + length (commas cur)) buf) = query" unfolding buf(3) by simp
  then have "take (length query) buf = query" by (simp add: take_take)
  then show ?thesis using inv part buf by (simp add: bulk_inv_def)
qed

lemma commit_count_add:
  assumes "unat (a::u32) = n" "n < 1000" "unat (b::u32) = m" "m \<le> BULK_PACKET_SIZE"
  shows "unat (a + b) = n + m"
  using assms by (simp add: BULK_PACKET_SIZE_def unat_word_ariths)

lemma bulk_do_insert_sends:
  assumes acc: "accepting ops sent commits" and inv: "bulk_inv query commits n cur con" and cur: "cur \<noteq> []"
  obtains con' w' c' where "db_bulk_do_insert ops is_last (con, w, c) = Some (False, con', w', c')"
    "sent w' = sent w @ map (stmt_text query) (flushed commits n is_last cur)"
    "bulk_inv query commits (if commits then fold count_rows (flushed commits n is_last cur) n else 0) [] con'"
proof -
  have cnt: "bulk_cnt con \<noteq> 0" using inv cur by (auto simp: bulk_inv_def unat_eq_0)
  obtain buf where buf: "bulk_buffer con = Some buf" "take (unat (bulk_ptr con)) buf = query @ commas cur"
    using inv by (auto simp: bulk_inv_def)
  have valid: "con_state con \<noteq> DB_CONN_INVALID" using inv by (simp add: bulk_inv_def)
  obtain rs con1 w1 c1 where q: "db_query ops (query @ commas cur) (con, w, c) = (rs, con1, w1, c1)"
      "sent w1 = sent w @ [query @ commas cur]" "bulk_part con1 = bulk_part con" "con_state con1 \<noteq> DB_CONN_INVALID"
      "con_error con1 = DB_ERROR_NONE"
    using acc valid by (rule db_query_accepting)
  have inv1: "bulk_inv query commits n cur con1" using q(3,4) inv by (intro bulk_inv_part [OF q(3) [symmetric]])
  have cnt1: "bulk_cnt con1 = bulk_cnt con" "bulk_buffer con1 = Some buf" using q(3) buf by (simp_all add: bulk_part_def)
  show thesis
  proof (cases commits)
    case False
    have "bulk_inv query commits 0 [] (con1\<lparr>bulk_ptr := bulk_values con1, bulk_cnt := 0\<rparr>)"
      using q(4) False by (intro bulk_inv_reset [OF inv1]) simp_all
    then show thesis
      using False cnt buf q inv1
      by (intro that) (auto simp: db_bulk_do_insert_def Let_def flushed_def bulk_inv_def)
  next
    case True
    define con2 where "con2 = con1\<lparr>bulk_commit_cnt := bulk_commit_cnt con1 + bulk_cnt con1\<rparr>"
    have max: "bulk_commit_max con1 = 1000" "unat (bulk_commit_cnt con1) = n" "unat (bulk_cnt con1) = length cur"
      using inv1 True by (simp_all add: bulk_inv_def)
    have sum: "unat (bulk_commit_cnt con1 + bulk_cnt con1) = n + length cur"
      by (rule commit_count_add) (use max bulk_room [OF inv1] in simp_all)
    have due: "bulk_commit_cnt con2 \<ge> bulk_commit_max con2 \<longleftrightarrow> n + length cur \<ge> 1000"
      using sum max(1) by (simp add: con2_def word_le_nat_alt)
    show thesis
    proof (cases "is_last \<or> n + length cur \<ge> 1000")
      case commit: True
      have v2: "con_state con2 \<noteq> DB_CONN_INVALID" using q(4) by (simp add: con2_def)
      obtain rs3 con3 w3 c3 where q3: "db_query ops ''COMMIT'' (con2, w1, c1) = (rs3, con3, w3, c3)"
          "sent w3 = sent w1 @ [''COMMIT'']" "bulk_part con3 = bulk_part con2" "con_state con3 \<noteq> DB_CONN_INVALID"
          "con_error con3 = DB_ERROR_NONE"
        using acc v2 by (rule db_query_accepting)
      have "bulk_inv query commits 0 [] (con3\<lparr>bulk_commit_cnt := 0, bulk_ptr := bulk_values con3, bulk_cnt := 0\<rparr>)"
        using q3(3,4) by (intro bulk_inv_reset [OF inv1]) (simp_all add: bulk_part_def con2_def)
      then show thesis
        using True commit cnt buf q q3 max(1) due
        by (intro that) (auto simp: db_bulk_do_insert_def Let_def flushed_def con2_def)
    next
      case False
      have "bulk_inv query commits (n + length cur) [] (con2\<lparr>bulk_ptr := bulk_values con2, bulk_cnt := 0\<rparr>)"
        using q(4) sum True False by (intro bulk_inv_reset [OF inv1]) (simp_all add: con2_def)
      then show thesis
        using True False cnt buf q max(1) due
        by (intro that) (auto simp: db_bulk_do_insert_def Let_def flushed_def con2_def)
    qed
  qed
qed

lemma flushed_ok:
  assumes "bulk_inv query commits n cur con" "cur \<noteq> []"
  shows "stmts_ok query commits n (flushed commits n is_last cur)"
  using assms by (simp add: flushed_def bulk_inv_def insert_ok_def)

lemma append_row_inv:
  assumes inv: "bulk_inv query commits n cur con" and fits: "length query + length (commas (cur @ [row])) < BULK_PACKET_SIZE"
  obtains con' where "append_row row con = Some con'" "bulk_inv query commits n (cur @ [row]) con'"
proof -
  define sep where "sep = (if bulk_cnt con > 0 then '','' else [])"
  have pos: "bulk_cnt con > 0 \<longleftrightarrow> cur \<noteq> []" using inv by (auto simp: bulk_inv_def word_neq_0_conv [symmetric] unat_eq_0 [symmetric])
  then have commas: "commas (cur @ [row]) = commas cur @ sep @ row" by (auto simp: commas_snoc sep_def)
  obtain buf where buf: "bulk_buffer con = Some buf" "length buf = BULK_PACKET_SIZE"
      "take (length query + length (commas cur)) buf = query @ commas cur"
    using inv by (auto simp: bulk_inv_def)
  have ptr: "unat (bulk_ptr con) = length query + length (commas cur)" using inv by (simp add: bulk_inv_def)
  have room: "unat (bulk_ptr con) + length (sep @ row @ [nul]) \<le> length buf" using fits buf(2) ptr commas by simp
  obtain buf' where buf': "buf_write buf (unat (bulk_ptr con)) (sep @ row @ [nul]) = Some buf'" "length buf' = length buf"
      "\<And>k. k \<le> length (sep @ row @ [nul]) \<Longrightarrow> take (unat (bulk_ptr con) + k) buf' =
         take (unat (bulk_ptr con)) buf @ take k (sep @ row @ [nul])"
    using buf_write_fits [OF room] by blast
  have written: "take (length query + length (commas (cur @ [row]))) buf' = query @ commas (cur @ [row])"
    using buf'(3) [of "length (sep @ row)"] ptr buf(3) commas by (simp add: add.assoc)
  have ptr': "unat (bulk_ptr con + of_nat (length row + length sep)) = length query + length (commas (cur @ [row]))"
    using ptr commas fits by (simp add: BULK_PACKET_SIZE_def unat_word_ariths unat_of_nat)
  have cnt': "unat (bulk_cnt con + 1) = length (cur @ [row])"
    using inv bulk_room(1) [OF inv] by (simp add: bulk_inv_def BULK_PACKET_SIZE_def unat_word_ariths)
  show thesis
  proof (rule that)
    show "append_row row con = Some (con\<lparr>bulk_buffer := Some buf', bulk_ptr := bulk_ptr con + of_nat (length row + length sep),
        bulk_cnt := bulk_cnt con + 1\<rparr>)"
      using buf(1) buf'(1) by (simp add: append_row_def sep_def [symmetric])
    show "bulk_inv query commits n (cur @ [row]) (con\<lparr>bulk_buffer := Some buf', bulk_ptr := bulk_ptr con + of_nat (length row + length sep),
        bulk_cnt := bulk_cnt con + 1\<rparr>)"
      using inv written ptr' cnt' fits buf(2) buf'(2) by (simp add: bulk_inv_def)
  qed
qed

lemma next_append:
  assumes inv: "bulk_inv query commits n cur con" and free: "free_open_results ops con0 w0 = (0, con, w)"
    and valid: "con_state con0 \<noteq> DB_CONN_INVALID"
  shows "db_bulk_insert_next ops row (length row) (con0, w0, c) =
     (let too_long = length query + length (commas cur) + length row + 1 + (if cur = [] then 0 else 1) > BULK_PACKET_SIZE
      in if too_long \<and> cur = []
         then Some (1, con, w, log_text LOG_FATAL (Formatted (''Query length exceeds the maximum value ('' @
                print_dec BULK_PACKET_SIZE @ ''), aborting'')) c)
         else do {
           (failed, con, w, c) \<leftarrow> (if too_long then db_bulk_do_insert ops False (con, w, c) else Some (False, con, w, c));
           if failed then Some (1, con, w, c)
           else do { con \<leftarrow> append_row row con; Some (0, con, w, c) } })"
proof -
  have "bulk_cnt con > 0 \<longleftrightarrow> cur \<noteq> []" "bulk_cnt con = 0 \<longleftrightarrow> cur = []"
    using inv by (auto simp: bulk_inv_def word_neq_0_conv [symmetric] unat_eq_0 [symmetric])
  moreover have "bulk_buffer con \<noteq> None" "unat (bulk_ptr con) = length query + length (commas cur)"
      "unat (bulk_buflen con) = BULK_PACKET_SIZE"
    using inv by (auto simp: bulk_inv_def)
  ultimately show ?thesis
    using valid free
    by (auto simp: db_bulk_insert_next_def append_row_def Let_def split: Option.bind_splits prod.splits)
qed

lemma bulk_next_sends:
  assumes acc: "accepting ops sent commits" and inv: "bulk_inv query commits n cur con"
    and row: "length query + length row < BULK_PACKET_SIZE"
  obtains con' w' c' new cur' where "db_bulk_insert_next ops row (length row) (con, w, c) = Some (0, con', w', c')"
    "sent w' = sent w @ map (stmt_text query) new" "stmts_ok query commits n new"
    "bulk_inv query commits (if commits then fold count_rows new n else 0) cur' con'" "cur' \<noteq> []"
    "concat (map stmt_rows new) @ cur' = cur @ [row]"
proof -
  have valid: "con_state con \<noteq> DB_CONN_INVALID" using inv by (simp add: bulk_inv_def)
  obtain con1 w1 where free: "free_open_results ops con w = (0, con1, w1)" "sent w1 = sent w" "bulk_part con1 = bulk_part con"
      "con_state con1 \<noteq> DB_CONN_INVALID"
    using acc valid by (rule free_open_results_accepting)
  have inv1: "bulk_inv query commits n cur con1" using free(3,4) inv by (intro bulk_inv_part [OF free(3) [symmetric]])
  note start = next_append [OF inv1 free(1) valid, of row c]
  show thesis
  proof (cases "length query + length (commas (cur @ [row])) < BULK_PACKET_SIZE")
    case True
    obtain con' where "append_row row con1 = Some con'" "bulk_inv query commits n (cur @ [row]) con'"
      using inv1 True by (rule append_row_inv)
    moreover have "n = 0" if "\<not> commits" using that inv by (simp add: bulk_inv_def)
    ultimately show thesis
      using True free(2) start by (intro that [of con' w1 c "[]" "cur @ [row]"]) (auto simp: commas_snoc Let_def split: if_splits)
  next
    case False
    then have cur: "cur \<noteq> []" using row by auto
    obtain con2 w2 c2 where ins: "db_bulk_do_insert ops False (con1, w1, c) = Some (False, con2, w2, c2)"
        "sent w2 = sent w1 @ map (stmt_text query) (flushed commits n False cur)"
        "bulk_inv query commits (if commits then fold count_rows (flushed commits n False cur) n else 0) [] con2"
      using acc inv1 cur by (rule bulk_do_insert_sends)
    have fits: "length query + length (commas ([] @ [row])) < BULK_PACKET_SIZE" using row by simp
    obtain con3 where app: "append_row row con2 = Some con3"
        "bulk_inv query commits (if commits then fold count_rows (flushed commits n False cur) n else 0) ([] @ [row]) con3"
      using ins(3) fits by (rule append_row_inv)
    have ok: "stmts_ok query commits n (flushed commits n False cur)" using inv1 cur by (rule flushed_ok)
    have rows: "concat (map stmt_rows (flushed commits n False cur)) @ [row] = cur @ [row]" by (simp add: flushed_def)
    show thesis
      using False cur start ins(1,2) app free(2) ok rows
      by (intro that [of con3 w2 c2 "flushed commits n False cur" "[row]"]) (auto simp: commas_snoc Let_def split: if_splits)
  qed
qed

lemma bulk_rows_sends:
  assumes acc: "accepting ops sent commits"
  shows "bulk_inv query commits n cur con \<Longrightarrow> \<forall>row\<in>set rows. length query + length row < BULK_PACKET_SIZE \<Longrightarrow>
    \<exists>con' w' c' new cur'. fold_opt (add_row ops) rows (0, con, w, c) = Some (0, con', w', c') \<and>
      sent w' = sent w @ map (stmt_text query) new \<and> stmts_ok query commits n new \<and>
      bulk_inv query commits (if commits then fold count_rows new n else 0) cur' con' \<and>
      concat (map stmt_rows new) @ cur' = cur @ rows \<and> (cur' = [] \<longrightarrow> cur = [] \<and> rows = [])"
proof (induction rows arbitrary: n cur con w c)
  case Nil
  have "n = 0" if "\<not> commits" using that Nil(1) by (simp add: bulk_inv_def)
  then show ?case using Nil by (intro exI [of _ con] exI [of _ w] exI [of _ c] exI [of _ "[]"] exI [of _ cur]) auto
next
  case (Cons row rows)
  have row: "length query + length row < BULK_PACKET_SIZE" using Cons.prems(2) by simp
  obtain con1 w1 c1 new1 cur1 where one: "db_bulk_insert_next ops row (length row) (con, w, c) = Some (0, con1, w1, c1)"
    "sent w1 = sent w @ map (stmt_text query) new1" "stmts_ok query commits n new1"
    "bulk_inv query commits (if commits then fold count_rows new1 n else 0) cur1 con1" "cur1 \<noteq> []"
    "concat (map stmt_rows new1) @ cur1 = cur @ [row]"
    using acc Cons.prems(1) row by (rule bulk_next_sends)
  obtain con' w' c' new cur' where more: "fold_opt (add_row ops) rows (0, con1, w1, c1) = Some (0, con', w', c')"
      "sent w' = sent w1 @ map (stmt_text query) new" "stmts_ok query commits (if commits then fold count_rows new1 n else 0) new"
      "bulk_inv query commits (if commits then fold count_rows new (if commits then fold count_rows new1 n else 0) else 0) cur' con'"
      "concat (map stmt_rows new) @ cur' = cur1 @ rows" "cur' \<noteq> []"
    using Cons.IH [OF one(4)] Cons.prems(2) one(5) by fastforce
  have "n = 0" if "\<not> commits" using that Cons.prems(1) by (simp add: bulk_inv_def)
  then have ok: "stmts_ok query commits n (new1 @ new)" using one(3) more(3) by (auto simp: stmts_ok_append)
  have rows: "concat (map stmt_rows (new1 @ new)) @ cur' = cur @ row # rows" using one(6) more(5) by simp
  have "add_row ops row (0, con, w, c) = Some (0, con1, w1, c1)" using one(1) by (simp add: add_row_def)
  then show ?case
    using one(2) more ok rows
    by (intro exI [of _ con'] exI [of _ w'] exI [of _ c'] exI [of _ "new1 @ new"] exI [of _ cur']) (simp_all split: if_splits)
qed

lemma bulk_init_inv:
  assumes acc: "accepting ops sent commits" and valid: "con_state con \<noteq> DB_CONN_INVALID"
    and query: "length query < BULK_PACKET_SIZE" and mem: "length memory = BULK_PACKET_SIZE"
  obtains con' w' where "db_bulk_insert_init ops caps (Some memory) query (length query) (con, w, c) = Some (0, con', w', c)"
    "sent w' = sent w" "bulk_inv query commits 0 [] con'"
proof -
  obtain con1 w1 where free: "free_open_results ops con w = (0, con1, w1)" "sent w1 = sent w"
      "con_state con1 \<noteq> DB_CONN_INVALID"
    using acc valid by (rule free_open_results_accepting)
  obtain f where f: "drv_describe ops = Some f" "\<And>w. \<exists>caps w'. f w = (0, caps, w') \<and> needs_commit caps = commits \<and> sent w' = sent w"
    using acc by (auto simp: accepting_def)
  obtain cp w2 where desc: "f w1 = (0, cp, w2)" "needs_commit cp = commits" "sent w2 = sent w1" using f(2) by blast
  have room: "0 + length (query @ [nul]) \<le> length memory" using query mem by simp
  obtain buf where buf: "buf_write memory 0 (query @ [nul]) = Some buf" "length buf = length memory"
      "take (0 + length query) buf = take 0 memory @ take (length query) (query @ [nul])"
    using buf_write_fits [OF room] by (metis le_add1 length_append)
  have small: "unat (of_nat (length query) :: u32) = length query" using query by (simp add: BULK_PACKET_SIZE_def unat_of_nat)
  have len: "unat (of_nat BULK_PACKET_SIZE :: u32) = BULK_PACKET_SIZE" by (simp add: BULK_PACKET_SIZE_def unat_of_nat)
  show thesis
    using valid free f(1) desc buf query mem small len
    by (intro that [of "con1\<lparr>bulk_buflen := of_nat BULK_PACKET_SIZE, bulk_commit_max := (if commits then ROWS_BEFORE_COMMIT else 0),
          bulk_commit_cnt := 0, bulk_buffer := Some buf, bulk_ptr := of_nat (length query), bulk_values := of_nat (length query),
          bulk_cnt := 0\<rparr>" w2])
      (simp_all add: db_bulk_insert_init_def db_describe_def bulk_inv_def ROWS_BEFORE_COMMIT_def Let_def)
qed


lemma list_driver_accepting: "accepting (list_driver commits) (\<lambda>w. w) commits"
  by (simp add: accepting_def list_driver_def list_caps_def Let_def)


section \<open>Sequences of calls\<close>

lemma forget_closed: "forget_log (closed_alert c) = forget_log c"
  by (simp add: closed_alert_def log_alert_def forget_log_text)

lemma forget_alert: "forget_log (log_alert t c) = forget_log c"
  by (simp add: log_alert_def forget_log_text)

lemma closed_call:
  assumes "inert con"
  shows "\<exists>con' c'. do_call ops call (con, w, c) = Some (con', w, c') \<and> inert con' \<and> forget_log c' = forget_log c"
  using assms
  by (cases call; cases "drv_reconnect ops")
    (auto simp: inert_def db_connection_reconnect_def db_connection_close_def db_prepare_def db_bind_param_def db_bind_result_def
      db_execute_def db_stmt_next_result_def db_fetch_row_def db_query_def db_more_results_def db_next_result_def db_free_results_def
      db_close_def db_bulk_insert_init_def db_bulk_insert_next_def db_bulk_insert_done_def db_bulk_do_insert_def
      forget_closed forget_alert split: option.splits)

text \<open>
  C19 (closed_connection_inert): once a connection is closed, no sequence of calls reaches the
  driver or the database any more, whatever the driver: the driver's world stays as it is, no
  counter and no other part of the state changes but the log, the connection stays closed, and no
  call crashes.
\<close>

theorem closed_connection_inert:
  assumes "con_state con = DB_CONN_INVALID" "bulk_cnt con = 0 \<or> bulk_buffer con \<noteq> None"
  shows "\<exists>con' c'. fold_opt (do_call ops) calls (con, w, c) = Some (con', w, c') \<and>
    con_state con' = DB_CONN_INVALID \<and> forget_log c' = forget_log c"
proof -
  have "inert con \<Longrightarrow> \<exists>con' c'. fold_opt (do_call ops) calls (con, w, c) = Some (con', w, c') \<and> inert con' \<and> forget_log c' = forget_log c"
    for con c
  proof (induction calls arbitrary: con c)
    case (Cons call calls)
    obtain con1 c1 where "do_call ops call (con, w, c) = Some (con1, w, c1)" "inert con1" "forget_log c1 = forget_log c"
      using closed_call [OF Cons.prems, of ops call w c] by blast
    with Cons.IH [of con1 c1] show ?case by auto
  qed simp
  from this [of con c] assms show ?thesis by (auto simp: inert_def)
qed

theorem closed_connection_inert_witness:
  "con_state (db_conn_zero\<lparr>con_state := DB_CONN_INVALID\<rparr>) = DB_CONN_INVALID \<and>
   (\<exists>con' c'. fold_opt (do_call (list_driver True)) [Query ''SELECT 1'', Bulk_next ''(1)'' 3, Reconnect]
        (db_conn_zero\<lparr>con_state := DB_CONN_INVALID\<rparr>, [''COMMIT''], core_start 1 0 0 0) = Some (con', [''COMMIT''], c') \<and>
      con_state con' = DB_CONN_INVALID)"
  using closed_connection_inert [of "db_conn_zero\<lparr>con_state := DB_CONN_INVALID\<rparr>" "list_driver True"
      "[Query ''SELECT 1'', Bulk_next ''(1)'' 3, Reconnect]" "[''COMMIT'']" "core_start 1 0 0 0"]
  by (auto simp: db_conn_zero_def simp del: fold_opt.simps)

section \<open>Statistics of database tests\<close>

lemma counted_trans: "counted s t \<Longrightarrow> counted t u \<Longrightarrow> counted s u"
  unfolding counted_def by auto

lemma counted_same:
  "fst (fst (snd s')) = fst (fst (snd s)) \<Longrightarrow> con_thread_id (fst s') = con_thread_id (fst s) \<Longrightarrow>
     sb_counters (snd (snd s')) = sb_counters (snd (snd s)) \<Longrightarrow> counted s s'"
  unfolding counted_def by simp

lemma counters_log [simp]:
  "sb_counters (log_text p m c) = sb_counters c" "sb_counters (log_alert t c) = sb_counters c" "sb_counters (closed_alert c) = sb_counters c"
proof -
  show log: "sb_counters (log_text p m c) = sb_counters c" for p m and c :: "('d, 'z) core_state_scheme"
    by (rule log_text_eq, simp add: forget_log_def)
  show "sb_counters (log_alert t c) = sb_counters c" by (simp add: log_alert_def log)
  then show "sb_counters (closed_alert c) = sb_counters c" by (simp add: closed_alert_def log_alert_def log)
qed

lemma free_results_counted:
  assumes "free_open_results (recording ops) con lw = (rc, con', lw')"
  shows "fst lw' = fst lw" "con_thread_id con' = con_thread_id con"
  using assms
  by (auto simp: free_open_results_def db_free_results_int_def recording_def keep_def Let_def split: prod.splits if_splits)

lemma take_result_counted:
  "counted (con, lw, c) (snd (take_result (record_type f lw) con c))"
  by (auto simp: counted_def take_result_def record_type_def count_event_def Let_def split: prod.splits)

lemma count_result:
  assumes "free_open_results (recording ops) con lw = (rc, con1, lw1)" "con_thread_id con2 = con_thread_id con1"
  shows "counted (con, lw, c) (snd (take_result (record_type f lw1) con2 c))"
  using free_results_counted [OF assms(1)] assms(2) take_result_counted [of con2 lw1 c f]
  by (auto simp: counted_def)

lemma db_query_counted: "counted (con, lw, c) (snd (db_query (recording ops) q (con, lw, c)))"
proof (cases "con_state con = DB_CONN_INVALID")
  case True
  then show ?thesis by (simp add: db_query_def counted_same)
next
  case False
  obtain rc con1 lw1 where free: "free_open_results (recording ops) con lw = (rc, con1, lw1)" by (metis prod_cases3)
  have q: "drv_query (recording ops) q = (\<lambda>con. record_type (drv_query ops q con))" by (simp add: recording_def)
  show ?thesis
    using False free free_results_counted [OF free] count_result [OF free]
    by (cases "rc = 0") (auto simp: db_query_def q counted_same)
qed

lemma db_execute_counted: "counted (con, lw, c) (snd (db_execute (recording ops) st (con, lw, c)))"
proof (cases "con_state con = DB_CONN_INVALID")
  case True
  then show ?thesis by (simp add: db_execute_def counted_same)
next
  case False
  obtain rc con1 lw1 where free: "free_open_results (recording ops) con lw = (rc, con1, lw1)" by (metis prod_cases3)
  have q: "drv_execute (recording ops) st = (\<lambda>con. record_type (drv_execute ops st con))" by (simp add: recording_def)
  show ?thesis
    using False free free_results_counted [OF free] count_result [OF free, of "set_statement st con1"]
    by (cases "rc = 0") (auto simp: db_execute_def q Let_def set_statement_def counted_same)
qed

lemma db_stmt_next_result_counted: "counted (con, lw, c) (snd (db_stmt_next_result (recording ops) st (con, lw, c)))"
proof (cases "con_state con = DB_CONN_INVALID")
  case True
  then show ?thesis by (simp add: db_stmt_next_result_def counted_same)
next
  case False
  obtain rc con1 lw1 where free: "free_open_results (recording ops) con lw = (rc, con1, lw1)" by (metis prod_cases3)
  have q: "drv_stmt_next_result (recording ops) = map_option (\<lambda>f st con. record_type (f st con)) (drv_stmt_next_result ops)"
    by (simp add: recording_def)
  show ?thesis
    using False free free_results_counted [OF free] count_result [OF free, of "set_statement st con1"]
    by (cases "rc = 0"; cases "drv_stmt_next_result ops")
      (auto simp: db_stmt_next_result_def q Let_def set_statement_def counted_same)
qed

lemma db_next_result_counted: "counted (con, lw, c) (snd (db_next_result (recording ops) (con, lw, c)))"
proof (cases "con_state con = DB_CONN_INVALID")
  case True
  then show ?thesis by (simp add: db_next_result_def counted_same)
next
  case False
  obtain rc con1 lw1 where free: "free_open_results (recording ops) con lw = (rc, con1, lw1)" by (metis prod_cases3)
  have q: "drv_next_result (recording ops) = map_option (\<lambda>f con. record_type (f con)) (drv_next_result ops)"
    by (simp add: recording_def)
  show ?thesis
    using False free free_results_counted [OF free] count_result [OF free]
    by (cases "rc = 0"; cases "drv_next_result ops") (auto simp: db_next_result_def q counted_same)
qed

lemma db_reconnect_counted: "counted (con, lw, c) (snd (db_connection_reconnect (recording ops) (con, lw, c)))"
proof (cases "con_state con = DB_CONN_INVALID \<or> drv_reconnect ops = None")
  case True
  then show ?thesis by (auto simp: db_connection_reconnect_def recording_def intro!: counted_same split: option.splits)
next
  case False
  then obtain f where f: "drv_reconnect ops = Some f" by auto
  obtain rc con1 lw1 where free: "free_open_results (recording ops) con lw = (rc, con1, lw1)" by (metis prod_cases3)
  obtain l1 w1 where lw1: "lw1 = (l1, w1)" by (cases lw1)
  obtain e w2 where e: "f con1 w1 = (e, w2)" by (cases "f con1 w1")
  let ?t = "if e = DB_ERROR_FATAL then SB_CNT_ERROR else SB_CNT_RECONNECT"
  have re: "drv_reconnect (recording ops) = Some (\<lambda>con (l, w). let (e, w) = f con w
      in (e, l @ [if e = DB_ERROR_FATAL then SB_CNT_ERROR else SB_CNT_RECONNECT], w))"
    using f by (simp add: recording_def)
  have "snd (db_connection_reconnect (recording ops) (con, lw, c)) =
      (con1\<lparr>con_state := if e = DB_ERROR_FATAL then DB_CONN_INVALID else DB_CONN_READY\<rparr>, (l1 @ [?t], w2),
       count_event (con_thread_id con1) ?t c)"
    using False re free [unfolded free_open_results_def] lw1 e by (simp add: db_connection_reconnect_def)
  then show ?thesis
    using free_results_counted [OF free] lw1 by (simp add: counted_def count_event_def)
qed

lemma db_bulk_do_insert_counted:
  assumes "db_bulk_do_insert (recording ops) is_last (con, lw, c) = Some (failed, con', lw', c')"
  shows "counted (con, lw, c) (con', lw', c')"
proof (cases "bulk_cnt con = 0")
  case True
  then show ?thesis using assms by (auto simp: db_bulk_do_insert_def intro!: counted_same)
next
  case False
  obtain buf where buf: "bulk_buffer con = Some buf" using assms False by (auto simp: db_bulk_do_insert_def split: Option.bind_splits)
  obtain rs con1 lw1 c1 where q: "db_query (recording ops) (take (unat (bulk_ptr con)) buf) (con, lw, c) = (rs, con1, lw1, c1)"
    by (metis prod_cases4)
  have one: "counted (con, lw, c) (con1, lw1, c1)" using db_query_counted [of con lw c ops "take (unat (bulk_ptr con)) buf"] q by simp
  define con2 where "con2 = con1\<lparr>bulk_commit_cnt := bulk_commit_cnt con1 + bulk_cnt con1\<rparr>"
  obtain rs3 con3 lw3 c3 where q3: "db_query (recording ops) ''COMMIT'' (con2, lw1, c1) = (rs3, con3, lw3, c3)" by (metis prod_cases4)
  have two: "counted (con, lw, c) (con3, lw3, c3)"
    using one db_query_counted [of con2 lw1 c1 ops "''COMMIT''"] q3 by (intro counted_trans [OF one]) (auto simp: counted_def con2_def)
  have cases: "fst lw' = fst lw1 \<and> con_thread_id con' = con_thread_id con1 \<and> c' = c1 \<or>
      fst lw' = fst lw3 \<and> con_thread_id con' = con_thread_id con3 \<and> c' = c3"
    using assms False buf q q3 by (auto simp: db_bulk_do_insert_def Let_def con2_def split: if_splits)
  then show ?thesis using one two by (auto simp: counted_def)
qed

lemma bulk_init_counted:
  assumes "db_bulk_insert_init (recording ops) caps m q n (con, lw, c) = Some (rc, con', lw', c')"
  shows "counted (con, lw, c) (con', lw', c')"
proof -
  obtain r con1 lw1 where free: "free_open_results (recording ops) con lw = (r, con1, lw1)" by (metis prod_cases3)
  obtain r2 cp lw2 where desc: "db_describe (recording ops) caps lw1 = (r2, cp, lw2)" by (metis prod_cases3)
  have "fst lw2 = fst lw1"
    using desc by (auto simp: db_describe_def recording_def keep2_def Let_def split: option.splits prod.splits)
  then show ?thesis
    using assms free desc free_results_counted [OF free]
    by (intro counted_same)
      (auto simp: db_bulk_insert_init_def Let_def split: if_splits option.splits Option.bind_splits)
qed

lemma bulk_next_counted:
  assumes "db_bulk_insert_next (recording ops) q n (con, lw, c) = Some (rc, con', lw', c')"
  shows "counted (con, lw, c) (con', lw', c')"
proof -
  obtain r con1 lw1 where free: "free_open_results (recording ops) con lw = (r, con1, lw1)" by (metis prod_cases3)
  have one: "counted (con, lw, c) (con1, lw1, c)" using free_results_counted [OF free] by (simp add: counted_same)
  have two: "counted (con, lw, c) (con2, lw2, c2)"
    if "db_bulk_do_insert (recording ops) False (con1, lw1, c) = Some (f, con2, lw2, c2)" for f con2 lw2 c2
    using one db_bulk_do_insert_counted [OF that] by (rule counted_trans)
  show ?thesis
  proof (cases "con_state con = DB_CONN_INVALID \<or> r \<noteq> 0 \<or> bulk_buffer con1 = None")
    case True
    then show ?thesis
      using assms free free_results_counted [OF free] by (auto simp: db_bulk_insert_next_def counted_same split: if_splits)
  next
    case False
    define too_long where "too_long \<longleftrightarrow> unat (bulk_ptr con1) + n + 1 + (if bulk_cnt con1 > 0 then 1 else 0) > unat (bulk_buflen con1)"
    let ?do = "if too_long then db_bulk_do_insert (recording ops) False (con1, lw1, c) else Some (False, con1, lw1, c)"
    show ?thesis
    proof (cases "too_long \<and> bulk_cnt con1 = 0")
      case True
      then have "con' = con1" "lw' = lw1" "sb_counters c' = sb_counters c"
        using assms False free unfolding db_bulk_insert_next_def too_long_def by (auto simp: Let_def)
      then show ?thesis using free_results_counted [OF free] by (simp add: counted_same)
    next
      case go: False
      have "db_bulk_insert_next (recording ops) q n (con, lw, c) = do {
          (failed, con, w, c) \<leftarrow> ?do;
          if failed then Some (1, con, w, c)
          else do {
            buf \<leftarrow> bulk_buffer con;
            let sep = (if bulk_cnt con > 0 then '','' else []);
            buf \<leftarrow> buf_write buf (unat (bulk_ptr con)) (sep @ q @ [nul]);
            Some (0, con\<lparr>bulk_buffer := Some buf, bulk_ptr := bulk_ptr con + of_nat (n + length sep),
                         bulk_cnt := bulk_cnt con + 1\<rparr>, w, c) } }"
        using False go free unfolding db_bulk_insert_next_def too_long_def by (auto simp: Let_def)
      then obtain f con2 lw2 c2 where do: "?do = Some (f, con2, lw2, c2)" and
          "lw' = lw2 \<and> c' = c2 \<and> con_thread_id con' = con_thread_id con2"
        using assms by (auto simp: Let_def split: Option.bind_splits if_splits)
      moreover have "counted (con, lw, c) (con2, lw2, c2)" using do one two by (auto split: if_splits)
      ultimately show ?thesis by (simp add: counted_def)
    qed
  qed
qed

lemma db_call_counted:
  assumes "do_call (recording ops) call (con, lw, c) = Some s'"
  shows "counted (con, lw, c) s'"
proof (cases call)
  case Reconnect
  then show ?thesis using assms db_reconnect_counted [of con lw c ops] by auto
next
  case (Execute st)
  then show ?thesis using assms db_execute_counted [of con lw c ops st] by auto
next
  case (Stmt_next_result st)
  then show ?thesis using assms db_stmt_next_result_counted [of con lw c ops st] by auto
next
  case (Query q)
  then show ?thesis using assms db_query_counted [of con lw c ops q] by auto
next
  case Next_result
  then show ?thesis using assms db_next_result_counted [of con lw c ops] by auto
next
  case (Bulk_init caps m q n)
  then show ?thesis using assms bulk_init_counted [of ops caps m q n con lw c] by (cases s') auto
next
  case (Bulk_next q n)
  then show ?thesis using assms bulk_next_counted [of ops q n con lw c] by (cases s') auto
next
  case Bulk_done
  then obtain f con' lw' c' where "db_bulk_do_insert (recording ops) True (con, lw, c) = Some (f, con', lw', c')"
      "s' = (con', lw', c') \<or> s' = (con'\<lparr>bulk_buffer := None\<rparr>, lw', c')"
    using assms by (auto simp: db_bulk_insert_done_def split: Option.bind_splits if_splits)
  then show ?thesis using db_bulk_do_insert_counted [of ops True con lw c] by (auto simp: counted_def)
qed (use assms in \<open>auto simp: db_connection_close_def db_prepare_def db_bind_param_def db_bind_result_def db_fetch_row_def
      db_more_results_def db_free_results_def db_close_def db_free_results_int_def free_open_results_def recording_def keep_def keep2_def
      Let_def counted_same split: option.splits prod.splits if_splits\<close>)

text \<open>
  C8 (statistics_exact): the statistics of database tests are exact.  Whatever the driver and
  whatever calls are made on a connection, the counters of its thread move by one for each execution
  the driver is asked for, in the class (read, write, other, ignored error, ...) that the driver reports, and by one
  reconnect or error for each attempt to reconnect; nothing is counted twice and nothing else is counted.
\<close>

theorem statistics_exact:
  assumes "fold_opt (do_call (recording ops)) calls (con, ([], w), c) = Some (con', (types, w'), c')"
  shows "sb_counters c' = fold (sb_counter_inc (con_thread_id con)) types (sb_counters c)"
proof -
  have "fold_opt (do_call (recording ops)) calls s = Some s' \<Longrightarrow> counted s s'" for s s'
  proof (induction calls arbitrary: s)
    case Nil
    then show ?case by (simp add: counted_same)
  next
    case (Cons call calls)
    obtain s1 where s1: "do_call (recording ops) call s = Some s1" "fold_opt (do_call (recording ops)) calls s1 = Some s'"
      using Cons.prems by (auto split: Option.bind_splits)
    have "counted s s1" using db_call_counted [of ops call "fst s" "fst (snd s)" "snd (snd s)" s1] s1(1) by simp
    then show ?case using Cons.IH [OF s1(2)] by (rule counted_trans)
  qed
  from this [OF assms] show ?thesis by (simp add: counted_def)
qed

theorem statistics_exact_witness:
  "\<exists>con' w' c'. fold_opt (do_call (recording (list_driver False))) [Query ''a'', Reconnect, Query ''b'', Close_connection, Query ''c'']
      (db_conn_zero, ([], []), core_start 1 0 0 0) = Some (con', ([SB_CNT_WRITE, SB_CNT_RECONNECT, SB_CNT_WRITE], w'), c') \<and>
    sb_counters c' = sb_counter_inc 0 SB_CNT_WRITE (sb_counter_inc 0 SB_CNT_RECONNECT
      (sb_counter_inc 0 SB_CNT_WRITE (sb_counters (core_start 1 0 0 0))))"
proof -
  let ?s = "(db_conn_zero, ([], []), core_start 1 0 0 0)"
    and ?calls = "[Query ''a'', Reconnect, Query ''b'', Close_connection, Query ''c'']"
  note defs = db_query_def db_connection_reconnect_def db_connection_close_def free_open_results_def take_result_def recording_def
    record_type_def keep_def list_driver_def Let_def db_conn_zero_def
  obtain con' w' c' where run: "fold_opt (do_call (recording (list_driver False))) ?calls ?s =
      Some (con', ([SB_CNT_WRITE, SB_CNT_RECONNECT, SB_CNT_WRITE], w'), c')"
    by (simp add: defs)
  then show ?thesis using statistics_exact [OF run] by (auto simp: db_conn_zero_def simp del: fold_opt.simps)
qed

section \<open>Rows that do not fit and failing commits\<close>

text \<open>
  The length of a row is compared with the space left only before the collected rows are sent, not
  again afterwards: a row that does not fit into an empty packet is rejected if it is the first
  one, and written behind the end of the buffer if it is not.
\<close>

lemma long_row_rejected:
  assumes "bulk_inv query commits n [] con" "con_state con = DB_CONN_READY" "length query + length row \<ge> BULK_PACKET_SIZE"
  shows "\<exists>c'. db_bulk_insert_next ops row (length row) (con, w, c) = Some (1, con, w, c')"
  using assms by (auto simp: bulk_inv_def db_bulk_insert_next_def free_open_results_def unat_eq_0)

lemma long_row_overflows:
  assumes acc: "accepting ops sent commits" and inv: "bulk_inv query commits n cur con" and cur: "cur \<noteq> []"
    and row: "length query + length row \<ge> BULK_PACKET_SIZE"
  shows "db_bulk_insert_next ops row (length row) (con, w, c) = None"
proof -
  have valid: "con_state con \<noteq> DB_CONN_INVALID" using inv by (simp add: bulk_inv_def)
  obtain con1 w1 where free: "free_open_results ops con w = (0, con1, w1)" "bulk_part con1 = bulk_part con"
      "con_state con1 \<noteq> DB_CONN_INVALID"
    using acc valid by (rule free_open_results_accepting)
  have inv1: "bulk_inv query commits n cur con1" using free(2,3) inv by (intro bulk_inv_part [OF free(2) [symmetric]])
  obtain con2 w2 c2 where ins: "db_bulk_do_insert ops False (con1, w1, c) = Some (False, con2, w2, c2)"
      "bulk_inv query commits (if commits then fold count_rows (flushed commits n False cur) n else 0) [] con2"
    using acc inv1 cur by (rule bulk_do_insert_sends)
  have "append_row row con2 = None"
    using ins(2) row by (auto simp: append_row_def bulk_inv_def buf_write_def Let_def split: Option.bind_splits)
  then show ?thesis using next_append [OF inv1 free(1) valid, of row c] cur row ins(1) by (simp add: Let_def)
qed

text \<open>
  A COMMIT that fails keeps the rows that the INSERT before it has already sent: the next call
  sends them again.
\<close>

lemma failed_commit_resends:
  assumes "db_bulk_do_insert ops is_last (con, w, c) = Some (True, con', w', c')"
  shows "bulk_cnt con' = bulk_cnt con" "bulk_ptr con' = bulk_ptr con" "bulk_buffer con' = bulk_buffer con"
proof -
  have keep: "bulk_cnt con2 = bulk_cnt con1 \<and> bulk_ptr con2 = bulk_ptr con1 \<and> bulk_buffer con2 = bulk_buffer con1"
    if "db_query ops q (con1, w1, c1) = (rs, con2, w2, c2)" for q con1 w1 c1 rs con2 w2 c2
    using that by (auto simp: db_query_def free_open_results_def db_free_results_int_def take_result_def Let_def split: if_splits prod.splits)
  show "bulk_cnt con' = bulk_cnt con" "bulk_ptr con' = bulk_ptr con" "bulk_buffer con' = bulk_buffer con"
    using assms by (auto simp: db_bulk_do_insert_def Let_def split: if_splits Option.bind_splits prod.splits dest!: keep)
qed

end
