(* ===== verification/SB_Thread.thy ===== *)
theory SB_Thread
  imports SB_Db_Driver
begin

text \<open>
  The wrappers around the thread library, \<open>src/src/sb_thread.c\<close>, with thread cancellation.

  The functions of the thread library are the fields of a record.  They work on the state \<open>'s\<close> of
  the whole program: when a call blocks, other threads run, so its effect on the state is an
  argument of the model.
\<close>

datatype thread_routine = Worker_routine nat | Report_routine | Eventgen_routine | Checkpoints_routine

record 's pthread_ops =
  pthread_create :: "thread_routine \<Rightarrow> 's \<Rightarrow> int \<times> nat \<times> 's"
  pthread_join :: "nat \<Rightarrow> 's \<Rightarrow> int \<times> 's"
  pthread_cancel :: "nat \<Rightarrow> 's \<Rightarrow> int \<times> 's"
  errno_text :: "'s \<Rightarrow> int \<times> string"

text \<open>The thread descriptors: the number of a worker and its thread.\<close>

record sb_thread_ctxt_t =
  ctxt_id :: nat
  ctxt_thread :: nat

record 'd thread_state = "'d db_state" +
  thread_stack_size :: int
  threads :: "sb_thread_ctxt_t list option"

definition EXIT_SUCCESS :: int where
  "EXIT_SUCCESS = 0"

definition EXIT_FAILURE :: int where
  "EXIT_FAILURE = 1"

text \<open>\<open>memory\<close> is what \<open>malloc\<close> returns.\<close>

definition sb_thread_init ::
  "sb_thread_ctxt_t list option \<Rightarrow> options \<Rightarrow> ('d, 'z) thread_state_scheme \<Rightarrow> int \<times> ('d, 'z) thread_state_scheme"
where
  "sb_thread_init memory opts c =
     (let c = c\<lparr>thread_stack_size := sint (ucast (sb_get_value_size opts ''thread-stack-size'') :: u32)\<rparr>
      in if thread_stack_size c \<le> 0
         then (1, log_text LOG_FATAL (Formatted (''Invalid value for thread-stack-size: '' @ print_int (thread_stack_size c) @
                ''.'' @ [newline])) c)
         else
           let c = c\<lparr>threads := memory\<rparr>
           in if memory = None then (EXIT_FAILURE, log_text LOG_FATAL (Formatted (''Memory allocation failure.'' @ [newline])) c)
              else (EXIT_SUCCESS, c))"

definition sb_thread_done :: "('d, 'z) thread_state_scheme \<Rightarrow> ('d, 'z) thread_state_scheme" where
  "sb_thread_done c = c\<lparr>threads := None\<rparr>"

definition sb_thread_create :: "'s pthread_ops \<Rightarrow> thread_routine \<Rightarrow> 's \<Rightarrow> int \<times> nat \<times> 's" where
  "sb_thread_create pt = pthread_create pt"

definition sb_thread_join :: "'s pthread_ops \<Rightarrow> nat \<Rightarrow> 's \<Rightarrow> int \<times> 's" where
  "sb_thread_join pt = pthread_join pt"

definition sb_thread_cancel :: "'s pthread_ops \<Rightarrow> nat \<Rightarrow> 's \<Rightarrow> int \<times> 's" where
  "sb_thread_cancel pt = pthread_cancel pt"

text \<open>A message about a failed call of the thread library.\<close>

definition thread_error ::
  "('w \<times> ('d, 'z) log_state_scheme) pthread_ops \<Rightarrow> string \<Rightarrow> 'w \<times> ('d, 'z) log_state_scheme \<Rightarrow> ('w \<times> ('d, 'z) log_state_scheme) option"
where
  "thread_error pt m = (\<lambda>(w, c).
     let (e, t) = errno_text pt (w, c) in map_option (Pair w) (log_errno e t LOG_FATAL (Formatted m) c))"

fun create_from ::
  "('w \<times> ('d, 'z) thread_state_scheme) pthread_ops \<Rightarrow> nat list \<Rightarrow> 'w \<times> ('d, 'z) thread_state_scheme \<Rightarrow>
     (int \<times> 'w \<times> ('d, 'z) thread_state_scheme) option"
where
  "create_from pt [] s = Some (EXIT_SUCCESS, s)"
| "create_from pt (i # is) s = do {
     let (err, t, (w, c)) = sb_thread_create pt (Worker_routine i) s;
     ths \<leftarrow> threads c;
     let c = c\<lparr>threads := Some (ths[i := (ths ! i)\<lparr>ctxt_thread := t\<rparr>])\<rparr>;
     if err \<noteq> 0
     then do { s \<leftarrow> thread_error pt (''sb_thread_create() for thread #'' @ print_dec i @ '' failed.'') (w, c); Some (EXIT_FAILURE, s) }
     else create_from pt is (w, c) }"

definition sb_thread_create_workers ::
  "('w \<times> ('d, 'z) thread_state_scheme) pthread_ops \<Rightarrow> 'w \<times> ('d, 'z) thread_state_scheme \<Rightarrow>
     (int \<times> 'w \<times> ('d, 'z) thread_state_scheme) option"
where
  "sb_thread_create_workers pt = (\<lambda>(w, c). do {
     let c = log_text LOG_NOTICE (Formatted (''Initializing worker threads...'' @ [newline])) c;
     ths \<leftarrow> threads c;
     let ths = fold (\<lambda>i ths. ths[i := (ths ! i)\<lparr>ctxt_id := i\<rparr>]) [0..<unat (g_threads c)] ths;
     create_from pt [0..<unat (g_threads c)] (w, c\<lparr>threads := Some ths\<rparr>) })"

text \<open>One pass of the loop that joins the workers; an error is only reported.\<close>

definition join_worker ::
  "('w \<times> ('d, 'z) thread_state_scheme) pthread_ops \<Rightarrow> nat \<Rightarrow> 'w \<times> ('d, 'z) thread_state_scheme \<Rightarrow>
     ('w \<times> ('d, 'z) thread_state_scheme) option"
where
  "join_worker pt i s = do {
     ths \<leftarrow> threads (snd s);
     let (err, s) = sb_thread_join pt (ctxt_thread (ths ! i)) s;
     (w, c) \<leftarrow> (if err \<noteq> 0 then thread_error pt (''sb_thread_join() for thread #'' @ print_dec i @ '' failed.'') s else Some s);
     Some (w, c\<lparr>g_threads_running := g_threads_running c - 1\<rparr>) }"

definition sb_thread_join_workers ::
  "('w \<times> ('d, 'z) thread_state_scheme) pthread_ops \<Rightarrow> 'w \<times> ('d, 'z) thread_state_scheme \<Rightarrow>
     (int \<times> 'w \<times> ('d, 'z) thread_state_scheme) option"
where
  "sb_thread_join_workers pt s = do {
     s \<leftarrow> fold_opt (join_worker pt) [0..<unat (g_threads (snd s))] s;
     Some (EXIT_SUCCESS, s) }"

text \<open>
  The calls of the thread library succeed; the other threads leave the descriptors and the number
  of running threads alone.
\<close>

definition threads_work :: "('w \<times> ('d, 'z) thread_state_scheme) pthread_ops \<Rightarrow> bool" where
  "threads_work pt \<longleftrightarrow>
     (\<forall>r w c. \<exists>t w' c'. pthread_create pt r (w, c) = (0, t, w', c') \<and> threads c' = threads c \<and> g_threads c' = g_threads c) \<and>
     (\<forall>t w c. \<exists>w' c'. pthread_join pt t (w, c) = (0, w', c') \<and> threads c' = threads c \<and> g_threads c' = g_threads c \<and>
        g_threads_running c' = g_threads_running c)"

section \<open>All workers\<close>

lemma set_ids:
  "n \<le> length ths \<Longrightarrow> map ctxt_id (take n (fold (\<lambda>i ths. ths[i := (ths ! i)\<lparr>ctxt_id := i\<rparr>]) [0..<n] ths)) = [0..<n] \<and>
     length (fold (\<lambda>i ths. ths[i := (ths ! i)\<lparr>ctxt_id := i\<rparr>]) [0..<n] ths) = length ths"
  by (induction n) (auto simp: take_Suc_conv_app_nth)

lemma create_from_all:
  assumes "threads_work pt" "threads c = Some ths" "set is \<subseteq> {..<length ths}"
  shows "\<exists>w' c' ths'. create_from pt is (w, c) = Some (EXIT_SUCCESS, w', c') \<and> threads c' = Some ths' \<and>
    map ctxt_id ths' = map ctxt_id ths \<and> g_threads c' = g_threads c"
  using assms(2,3)
proof (induction "is" arbitrary: w c ths)
  case (Cons i "is")
  obtain t w1 c1 where t: "pthread_create pt (Worker_routine i) (w, c) = (0, t, w1, c1)" "threads c1 = threads c" "g_threads c1 = g_threads c"
    using assms(1) unfolding threads_work_def by blast
  let ?ths = "ths[i := (ths ! i)\<lparr>ctxt_thread := t\<rparr>]"
  have ids: "map ctxt_id ?ths = map ctxt_id ths" using Cons.prems(2) by (simp add: map_update list_update_same_conv)
  have "\<exists>w' c' ths'. create_from pt is (w1, c1\<lparr>threads := Some ?ths\<rparr>) = Some (EXIT_SUCCESS, w', c') \<and> threads c' = Some ths' \<and>
      map ctxt_id ths' = map ctxt_id ?ths \<and> g_threads c' = g_threads (c1\<lparr>threads := Some ?ths\<rparr>)"
    using Cons.prems(2) by (intro Cons.IH) simp_all
  then show ?case using t Cons.prems(1) ids by (auto simp: sb_thread_create_def Let_def)
qed simp

text \<open>Every worker gets its own number.\<close>

theorem create_workers_numbered:
  assumes "threads_work pt" "threads c = Some ths" "length ths = unat (g_threads c)"
  shows "\<exists>w' c' ths'. sb_thread_create_workers pt (w, c) = Some (EXIT_SUCCESS, w', c') \<and> threads c' = Some ths' \<and>
    map ctxt_id ths' = [0..<unat (g_threads c)]"
proof -
  define c1 where "c1 = log_text LOG_NOTICE (Formatted (''Initializing worker threads...'' @ [newline])) c"
  have log: "threads c1 = threads c" "g_threads c1 = g_threads c"
    unfolding c1_def by (rule log_text_eq, simp add: forget_log_def)+
  define ths1 where "ths1 = fold (\<lambda>i ths. ths[i := (ths ! i)\<lparr>ctxt_id := i\<rparr>]) [0..<unat (g_threads c)] ths"
  have ids: "map ctxt_id ths1 = [0..<unat (g_threads c)]" "length ths1 = length ths"
    using set_ids [of "unat (g_threads c)" ths] assms(3) by (auto simp: ths1_def)
  have "threads (c1\<lparr>threads := Some ths1\<rparr>) = Some ths1" "set [0..<unat (g_threads c)] \<subseteq> {..<length ths1}"
    using ids assms(3) by auto
  moreover have "sb_thread_create_workers pt (w, c) = create_from pt [0..<unat (g_threads c)] (w, c1\<lparr>threads := Some ths1\<rparr>)"
    unfolding sb_thread_create_workers_def Let_def prod.case c1_def [symmetric] using log assms(2) by (simp add: ths1_def)
  ultimately show ?thesis using create_from_all [OF assms(1), of "c1\<lparr>threads := Some ths1\<rparr>" ths1 "[0..<unat (g_threads c)]" w] ids(1) by auto
qed

text \<open>When all workers have been joined, none of them counts as running.\<close>

theorem join_workers_counted:
  fixes c :: "('d, 'z) thread_state_scheme"
  assumes "threads_work pt" "threads c = Some ths" "g_threads_running c = g_threads c"
  shows "\<exists>w' c'. sb_thread_join_workers pt (w, c) = Some (EXIT_SUCCESS, w', c') \<and> g_threads_running c' = 0"
proof -
  have join: "\<exists>w' c'. fold_opt (join_worker pt) is (w, c) = Some (w', c') \<and> g_threads_running c' = g_threads_running c - of_nat (length is)"
    if "threads c = Some ths" for "is" w and c :: "('d, 'z) thread_state_scheme"
    using that
  proof (induction "is" arbitrary: w c)
    case (Cons i "is")
    obtain w1 c1 where j: "pthread_join pt (ctxt_thread (ths ! i)) (w, c) = (0, w1, c1)" "threads c1 = threads c"
        "g_threads_running c1 = g_threads_running c"
      using assms(1) unfolding threads_work_def by blast
    let ?c = "c1\<lparr>g_threads_running := g_threads_running c1 - 1\<rparr>"
    have "join_worker pt i (w, c) = Some (w1, ?c)" using j(1) Cons.prems by (simp add: join_worker_def sb_thread_join_def)
    moreover obtain w' c' where "fold_opt (join_worker pt) is (w1, ?c) = Some (w', c')"
        "g_threads_running c' = g_threads_running ?c - of_nat (length is)"
      using Cons.IH [of ?c w1] j(2) Cons.prems by auto
    ultimately show ?case using j(3) by (simp add: algebra_simps)
  qed simp
  from join [OF assms(2), of "[0..<unat (g_threads c)]" w] assms(3) show ?thesis
    by (auto simp: sb_thread_join_workers_def)
qed

end
