(* ===== verification/SB_Main.thy ===== *)
theory SB_Main
  imports SB_Thread SB_Barrier "HOL-Library.Multiset"
begin

text \<open>
  The main program, \<open>src/src/sysbench.c\<close>: the command line, the initialisation of the global
  variables, a run of a test from the point of view of the main thread, and \<open>main\<close>.

  The operating system is a record of functions on the world \<open>'w\<close>.  While the main thread waits at
  a barrier, sleeps or joins a thread, the other threads run; what they do to the state is an
  argument, like the results of the library calls.  A call that blocks for ever or crashes has no result.
\<close>

section \<open>State\<close>

record 'd main_state = "'d thread_state" +
  thread_init_timeout :: int
  report_thread_created :: bool
  checkpoints_thread_created :: bool
  eventgen_thread_created :: bool
  rand_globals :: "('d rand_state \<times> sb_rng_state_t) option"

text \<open>A test: its functions, its reports, its commands and its options.\<close>

record ('d, 'ev, 'w) sb_test_t =
  test_sname :: string
  test_lname :: string
  test_ops :: "('ev, 'w) sb_operations_t"
  test_reports :: "('d, 'w) report_ops"
  test_print_mode :: "('w \<Rightarrow> 'w) option"
  cmd_help :: "('w \<Rightarrow> int \<times> 'w) option"
  cmd_prepare :: "('w \<Rightarrow> int \<times> 'w) option"
  cmd_cleanup :: "('w \<Rightarrow> int \<times> 'w) option"
  cmd_qgen :: "('w \<Rightarrow> int \<times> 'w) option"
  test_args :: "sb_arg_t list option"

datatype alarm_handler = Thread_init_timeout | Forced_shutdown

type_synonym ('d, 'w) program = "'w \<times> 'd main_state"

record ('d, 'w) main_env =
  os_pthread :: "('d, 'w) program pthread_ops"
  os_barrier_fails :: bool
  os_wait :: "'d main_state sb_barrier_t \<Rightarrow> ('d, 'w) program \<Rightarrow> int \<times> ('d, 'w) program"
  os_usleep :: "u32 \<Rightarrow> ('d, 'w) program \<Rightarrow> ('d, 'w) program"
  os_signal :: "alarm_handler \<Rightarrow> 'w \<Rightarrow> 'w"
  os_alarm :: "u32 \<Rightarrow> 'w \<Rightarrow> 'w"
  os_srandom :: "u32 \<Rightarrow> 'w \<Rightarrow> 'w"
  os_time :: "'w \<Rightarrow> u32 \<times> 'w"
  os_clock :: "nat \<Rightarrow> timespec"

section \<open>Options\<close>

definition general_args :: "sb_arg_t list" where
  "general_args =
    [sb_opt ''threads'' ''number of threads to use'' (Some ''1'') SB_ARG_TYPE_INT,
     sb_opt ''events'' ''limit for total number of events'' (Some ''0'') SB_ARG_TYPE_INT,
     sb_opt ''time'' ''limit for total execution time in seconds'' (Some ''10'') SB_ARG_TYPE_INT,
     sb_opt ''warmup-time'' (''execute events for this many seconds with statistics '' @
       ''disabled before the actual benchmark run with statistics enabled'') (Some ''0'') SB_ARG_TYPE_INT,
     sb_opt ''forced-shutdown'' (''number of seconds to wait after the --time limit before forcing '' @
       ''shutdown, or '' @ quoted ''off'' @ '' to disable'') (Some ''off'') SB_ARG_TYPE_STRING,
     sb_opt ''thread-stack-size'' ''size of stack per thread'' (Some ''64K'') SB_ARG_TYPE_SIZE,
     sb_opt ''thread-init-timeout'' ''wait time in seconds for worker threads to initialize'' (Some ''3000'') SB_ARG_TYPE_INT,
     sb_opt ''rate'' ''average transactions rate. 0 for unlimited rate'' (Some ''0'') SB_ARG_TYPE_INT,
     sb_opt ''report-interval'' (''periodically report intermediate statistics with '' @
       ''a specified interval in seconds. 0 disables intermediate reports'') (Some ''0'') SB_ARG_TYPE_INT,
     sb_opt ''report-checkpoints'' (''dump full statistics and reset all counters at '' @
       ''specified points in time. The argument is a list of comma-separated '' @
       ''values representing the amount of time in seconds elapsed from start '' @
       ''of test when report checkpoint(s) must be performed. Report '' @ ''checkpoints are off by default.'')
       (Some []) SB_ARG_TYPE_LIST,
     sb_opt ''debug'' ''print more debugging info'' (Some ''off'') SB_ARG_TYPE_BOOL,
     sb_opt ''validate'' ''perform validation checks where possible'' (Some ''off'') SB_ARG_TYPE_BOOL,
     sb_opt ''help'' ''print help and exit'' (Some ''off'') SB_ARG_TYPE_BOOL,
     sb_opt ''version'' ''print version and exit'' (Some ''off'') SB_ARG_TYPE_BOOL,
     sb_opt ''config-file'' ''File containing command line options'' None SB_ARG_TYPE_FILE,
     sb_opt ''luajit-cmd'' (''perform LuaJIT control command. This option is '' @
       ''equivalent to '' @ quoted ''luajit -j'' @ ''. See LuaJIT documentation for more '' @ ''information'') None SB_ARG_TYPE_STRING]"

text \<open>The options of the built-in tests are registered later, by \<open>parse_test_arguments\<close>.\<close>

definition register_tests ::
  "file_system \<Rightarrow> bool \<Rightarrow> ('d, 'w) db_driver_t list \<Rightarrow> options \<Rightarrow> 'd main_state \<Rightarrow> options \<times> 'd main_state"
where
  "register_tests fs use_mysql drivers opts c =
     (let (opts, c) = db_register fs use_mysql drivers opts c in (sb_rand_register fs opts, c))"

text \<open>The result tells whether the option is rejected.\<close>

definition parse_option :: "file_system \<Rightarrow> string \<Rightarrow> bool \<Rightarrow> options \<Rightarrow> bool \<times> options" where
  "parse_option fs arg ignore_unknown opts =
     (let name = takeWhile (\<lambda>x. x \<noteq> CHR ''='') arg;
          val = (if CHR ''='' \<in> set arg then Some (tl (dropWhile (\<lambda>x. x \<noteq> CHR ''='') arg)) else None);
          opt = sb_find_option opts name
      in if opt \<noteq> None \<or> ignore_unknown
         then let (opts, r) = set_option fs name val (case opt of Some x \<Rightarrow> opt_type x | None \<Rightarrow> SB_ARG_TYPE_STRING) opts
              in (r = None, opts)
         else (True, opts))"

definition is_option :: "string \<Rightarrow> bool" where
  "is_option arg \<longleftrightarrow> take 2 arg = ''--''"

text \<open>
  The loop over the command line: the names of the test and of the command, the options, and the
  arguments that are left (\<open>None\<close> for those that are not processed again), or the message printed.
\<close>

fun general_loop ::
  "file_system \<Rightarrow> string list \<Rightarrow> string option \<times> string option \<Rightarrow> options \<Rightarrow>
     string + ((string option \<times> string option) \<times> options \<times> string option list)"
where
  "general_loop fs [] names opts = Inr (names, opts, [])"
| "general_loop fs (arg # args) (testname, cmdname) opts =
     (if \<not> is_option arg
      then if testname = None
           then check (general_loop fs args (Some arg, cmdname) opts) (\<lambda>(names, opts, rest). Inr (names, opts, Some arg # rest))
           else if cmdname = None
           then check (general_loop fs args (testname, Some arg) opts) (\<lambda>(names, opts, rest). Inr (names, opts, Some arg # rest))
           else Inl (''Unrecognized command line argument: '' @ arg @ [newline])
      else
        let (failed, opts) = parse_option fs (drop 2 arg) False opts
        in check (general_loop fs args (testname, cmdname) opts) (\<lambda>(names, opts, rest).
             Inr (names, opts, (if failed then Some arg else None) # rest)))"

definition parse_general_arguments ::
  "file_system \<Rightarrow> string list \<Rightarrow> options \<Rightarrow> 'd main_state \<Rightarrow> string + (options \<times> string option list \<times> 'd main_state)"
where
  "parse_general_arguments fs args opts c =
     (let (opts, rc) = sb_register_arg_set fs general_args opts
      in if rc \<noteq> 0 then Inl []
         else check (general_loop fs args (None, None) opts) (\<lambda>((testname, cmdname), opts, rest).
           Inr (opts, rest, c\<lparr>g_testname := testname, g_cmdname := cmdname\<rparr>)))"

fun test_loop :: "file_system \<Rightarrow> string option list \<Rightarrow> options \<Rightarrow> string + (options \<times> string option list)" where
  "test_loop fs [] opts = Inr (opts, [])"
| "test_loop fs (None # args) opts = check (test_loop fs args opts) (\<lambda>(opts, rest). Inr (opts, None # rest))"
| "test_loop fs (Some arg # args) opts =
     (if \<not> is_option arg then check (test_loop fs args opts) (\<lambda>(opts, rest). Inr (opts, Some arg # rest))
      else
        let (failed, opts) = parse_option fs (drop 2 arg) False opts
        in if failed then Inl (''invalid option: '' @ arg @ [newline])
           else check (test_loop fs args opts) (\<lambda>(opts, rest). Inr (opts, None # rest)))"

definition parse_test_arguments ::
  "file_system \<Rightarrow> sb_arg_t list option \<Rightarrow> string option list \<Rightarrow> options \<Rightarrow> string + (options \<times> string option list)"
where
  "parse_test_arguments fs args rest opts =
     (let (opts, rc) = (case args of None \<Rightarrow> (opts, 0) | Some as \<Rightarrow> sb_register_arg_set fs as opts)
      in if rc \<noteq> 0 then Inl [] else test_loop fs rest opts)"

section \<open>Initialisation\<close>

text \<open>The limits; the first component of the result is 0 on success.\<close>

definition parse_forced_shutdown :: "'d fp_ops \<Rightarrow> options \<Rightarrow> 'd main_state \<Rightarrow> int \<times> 'd main_state" where
  "parse_forced_shutdown fp opts c =
     (case sb_get_value_string opts ''forced-shutdown'' of
        None \<Rightarrow> (0, c\<lparr>g_force_shutdown := True, g_timeout := fp_to_u32 fp (fp_div fp (NS2SEC fp (g_max_time_ns c)) (fp_of fp 20))\<rparr>)
      | Some tmp \<Rightarrow>
          if strcasecmp_eq tmp ''off'' then (0, c\<lparr>g_force_shutdown := False\<rparr>)
          else
            let (res, endptr) = strtol tmp;
                c = c\<lparr>g_force_shutdown := True, g_timeout := word_of_int res\<rparr>
            in if endptr \<noteq> [] \<and> hd endptr = CHR ''%''
               then (0, c\<lparr>g_timeout := fp_to_u32 fp (fp_div fp (fp_mul fp (fp_of_u32 fp (g_timeout c)) (NS2SEC fp (g_max_time_ns c)))
                            (fp_of fp 100))\<rparr>)
               else if tmp = [] \<or> endptr \<noteq> []
               then (1, log_text LOG_FATAL (Formatted (''Invalid value for --forced-shutdown: '' @ quoted tmp)) c)
               else (0, c))"

definition init_limits :: "'d fp_ops \<Rightarrow> options \<Rightarrow> 'd main_state \<Rightarrow> exit_failure + int \<times> 'd main_state" where
  "init_limits fp opts c =
     check (sb_get_value_int opts ''threads'') (\<lambda>nthreads.
     check (sb_get_value_int opts ''thread-init-timeout'') (\<lambda>timeout.
       let c = c\<lparr>g_threads := word_of_int nthreads, thread_init_timeout := timeout\<rparr>
       in if g_threads c = 0
          then Inr (1, log_text LOG_FATAL (Formatted (''Invalid value for --threads: '' @ print_int (sint (g_threads c)) @ ''.'' @ [newline])) c)
          else
     check (sb_get_value_int opts ''events'') (\<lambda>events.
     check (sb_get_value_int opts ''warmup-time'') (\<lambda>warmup.
       let c = c\<lparr>g_max_events := word_of_int events, g_warmup_time := warmup\<rparr>
       in if warmup < 0
          then Inr (1, log_text LOG_FATAL (Formatted (''Invalid value for --warmup-time: '' @ print_int warmup @ ''.'' @ [newline])) c)
          else
     check (sb_get_value_int opts ''time'') (\<lambda>max_time.
       let c = c\<lparr>g_max_time_ns := SEC2NS max_time\<rparr>;
           c = (if g_max_events c = 0 \<and> g_max_time_ns c = 0
                then log_text LOG_WARNING (Formatted (''Both event and time limits are disabled, '' @ ''running an endless test'')) c else c)
       in if g_max_time_ns c > 0
          then Inr (parse_forced_shutdown fp opts
                 (if warmup > 0 then c\<lparr>g_max_time_ns := g_max_time_ns c + SEC2NS warmup\<rparr> else c))
          else Inr (0, c))))))"

text \<open>The loop over the values of the option, and the order of the checkpoints.\<close>

definition checkpoint_cmp :: "u32 \<Rightarrow> u32 \<Rightarrow> int" where
  "checkpoint_cmp a b = sint (a - b)"

text \<open>
  \<open>qsort\<close> of the C library, as insertion sort: for a comparison that is a linear order on the
  elements every sorting algorithm has the same result.
\<close>

fun qsort_insert :: "('a \<Rightarrow> 'a \<Rightarrow> int) \<Rightarrow> 'a \<Rightarrow> 'a list \<Rightarrow> 'a list" where
  "qsort_insert cmp x [] = [x]"
| "qsort_insert cmp x (y # ys) = (if cmp x y \<le> 0 then x # y # ys else y # qsort_insert cmp x ys)"

definition qsort :: "('a \<Rightarrow> 'a \<Rightarrow> int) \<Rightarrow> 'a list \<Rightarrow> 'a list" where
  "qsort cmp xs = foldr (qsort_insert cmp) xs []"

fun checkpoint_values :: "string list \<Rightarrow> 'd main_state \<Rightarrow> bool \<times> 'd main_state" where
  "checkpoint_values [] c = (False, c)"
| "checkpoint_values (v # vs) c =
     (let (res, endptr) = strtol v
      in if endptr \<noteq> [] \<or> res < 0 \<or> res > INT_MAX
         then (True, log_text LOG_FATAL (Formatted (''Invalid value for --report-checkpoints: '' @ quoted v)) c)
         else
           let c = c\<lparr>g_n_checkpoints := g_n_checkpoints c + 1\<rparr>
           in if unat (g_n_checkpoints c) > MAX_CHECKPOINTS
              then (True, log_text LOG_FATAL (Formatted (''Too many checkpoints in --report-checkpoints '' @
                      ''(up to '' @ print_dec MAX_CHECKPOINTS @ '' can be defined)'')) c)
              else checkpoint_values vs (c\<lparr>g_checkpoints := (g_checkpoints c)[unat (g_n_checkpoints c - 1) := word_of_int res]\<rparr>))"

definition sort_checkpoints :: "'d main_state \<Rightarrow> 'd main_state" where
  "sort_checkpoints c =
     (let n = unat (g_n_checkpoints c)
      in if n > 0 then c\<lparr>g_checkpoints := qsort checkpoint_cmp (take n (g_checkpoints c)) @ drop n (g_checkpoints c)\<rparr> else c)"

definition init_rand ::
  "'d fp_ops \<Rightarrow> (string \<Rightarrow> 'd) \<Rightarrow> (nat \<Rightarrow> u64) \<Rightarrow> options \<Rightarrow> 'd main_state \<Rightarrow> (exit_failure + bool \<times> 'd main_state) option"
where
  "init_rand fp strtod random opts c =
     (case sb_rand_init fp strtod random opts of
        Inl (Rand_exit e) \<Rightarrow> Some (Inl e)
      | Inl Rand_null_type \<Rightarrow> None
      | Inl (Invalid_distribution s) \<Rightarrow>
          Some (Inr (True, log_text LOG_FATAL (Formatted (''Invalid random numbers distribution: '' @ s @ ''.'')) c))
      | Inl Invalid_zipfian_exp \<Rightarrow> Some (Inr (True, log_text LOG_FATAL (Formatted ''--rand-zipfian-exp must be >= 0'') c))
      | Inr r \<Rightarrow> Some (Inr (False, c\<lparr>rand_globals := Some r\<rparr>)))"

text \<open>The timers; \<open>memory\<close> is what the allocation of the thread descriptors returns.\<close>

definition init_timers :: "'d main_state \<Rightarrow> 'd main_state" where
  "init_timers c =
     (let n = unat (g_threads c); zero = sb_alloc_per_thread_array n timer_zero
      in c\<lparr>thread_timers := map sb_timer_init (take n zero) @ drop n zero, timers_copy := zero\<rparr>)"

definition init ::
  "'d fp_ops \<Rightarrow> (string \<Rightarrow> 'd) \<Rightarrow> (nat \<Rightarrow> u64) \<Rightarrow> file_system \<Rightarrow> sb_thread_ctxt_t list option \<Rightarrow> options \<Rightarrow> 'd main_state \<Rightarrow>
     (exit_failure + int \<times> options \<times> 'd main_state) option"
where
  "init fp strtod random fs memory opts c =
     (case init_limits fp opts c of
        Inl e \<Rightarrow> Some (Inl e)
      | Inr (rc, c) \<Rightarrow>
          if rc \<noteq> 0 then Some (Inr (rc, opts, c))
          else
            let (err, c) = sb_thread_init memory opts c
            in if err \<noteq> 0 then Some (Inr (err, opts, c))
               else
                 let c = c\<lparr>g_debug := sb_get_value_flag opts ''debug''\<rparr>;
                     opts = (if g_debug c
                             then case sb_find_option opts ''verbosity'' of
                                    None \<Rightarrow> opts
                                  | Some opt \<Rightarrow> fst (set_option fs (opt_name opt) (Some ''5'') (opt_type opt) opts)
                             else opts);
                     c = c\<lparr>g_validate := sb_get_value_flag opts ''validate''\<rparr>
                 in do {
                   r \<leftarrow> init_rand fp strtod random opts c;
                   case r of
                     Inl e \<Rightarrow> Some (Inl e)
                   | Inr (failed, c) \<Rightarrow>
                       if failed then Some (Inr (1, opts, c))
                       else
                         (case check (sb_get_value_int opts ''rate'') (\<lambda>rate.
                               check (sb_get_value_int opts ''report-interval'') (\<lambda>interval. Inr (rate, interval))) of
                            Inl e \<Rightarrow> Some (Inl e)
                          | Inr (rate, interval) \<Rightarrow> do {
                              let c = c\<lparr>g_tx_rate := word_of_int rate, g_report_interval := word_of_int interval, g_n_checkpoints := 0\<rparr>;
                              vs \<leftarrow> sb_get_value_list opts ''report-checkpoints'';
                              let (failed, c) = checkpoint_values vs c;
                              Some (Inr (if failed then (1, opts, c)
                                         else (0, opts, (init_timers (sort_checkpoints c))
                                                 \<lparr>g_luajit_cmd := sb_get_value_string opts ''luajit-cmd''\<rparr>))) }) })"

section \<open>Output\<close>

text \<open>The version of the program, and the name and version of the Lua implementation.\<close>

type_synonym versions = "string \<times> string \<times> string"

definition print_header :: "versions \<Rightarrow> 'd main_state \<Rightarrow> 'd main_state" where
  "print_header = (\<lambda>(version, luajit, luajit_version) c.
     log_text LOG_NOTICE (Formatted (version @ '' (using '' @ luajit @ '' '' @ luajit_version @ '')'' @ [newline])) c)"

definition print_help ::
  "bool \<Rightarrow> ('d, 'w) db_driver_t list \<Rightarrow> ('d, 'ev, 'w) sb_test_t list \<Rightarrow> 'd main_state \<Rightarrow> 'd main_state option"
where
  "print_help use_mysql drivers tests c = do {
     opts \<leftarrow> sb_print_options general_args;
     let c = printf (''Usage:'' @ [newline] @ ''  sysbench [options]... [testname] [command]'' @ [newline, newline] @
               ''Commands implemented by most tests: prepare run cleanup help'' @ [newline, newline] @
               ''General options:'' @ [newline] @ opts) c;
     rand \<leftarrow> sb_print_options rand_args;
     let c = printf (''Pseudo-Random Numbers Generator options:'' @ [newline] @ rand) c;
     log \<leftarrow> log_print_help c;
     c \<leftarrow> db_print_help use_mysql drivers (printf log c);
     Some (printf (''Compiled-in tests:'' @ [newline] @
             concat (map (\<lambda>t. ''  '' @ test_sname t @ '' - '' @ test_lname t @ [newline]) tests) @ [newline] @
             ''See '' @ quoted ''sysbench <testname> help'' @ '' for a list of options for '' @ ''each test.'' @ [newline, newline]) c) }"

text \<open>The list of checkpoints in a buffer of the given size.\<close>

fun checkpoint_list :: "nat \<Rightarrow> u32 list \<Rightarrow> string" where
  "checkpoint_list sz [] = []"
| "checkpoint_list sz [x] = take (sz - 1) (print_dec (unat x))"
| "checkpoint_list sz (x # y # xs) =
     (let t = print_dec (unat x) @ '', ''
      in if length t \<ge> sz then take (sz - 1) t else t @ checkpoint_list (sz - length t) (y # xs))"

definition print_run_mode ::
  "'d fp_ops \<Rightarrow> ('d, 'w) main_env \<Rightarrow> ('d, 'ev, 'w) sb_test_t \<Rightarrow> ('d, 'w) program \<Rightarrow> ('d, 'w) program"
where
  "print_run_mode fp os test = (\<lambda>(w, c).
     let note = (\<lambda>b t c. if b then log_text LOG_NOTICE (Formatted t) c else c);
         seed = (case rand_globals c of None \<Rightarrow> 0 | Some (r, _) \<Rightarrow> sb_rand_seed r);
         c = note True ''Running the test with following options:'' c;
         c = note True (''Number of threads: '' @ print_int (sint (g_threads c))) c;
         c = note (g_warmup_time c > 0) (''Warmup time: '' @ print_int (g_warmup_time c) @ ''s'') c;
         c = note (g_tx_rate c > 0) (''Target transaction rate: '' @ print_int (sint (g_tx_rate c)) @ ''/sec'') c;
         c = note (g_report_interval c \<noteq> 0)
               (''Report intermediate results every '' @ print_int (sint (g_report_interval c)) @ '' second(s)'') c;
         c = note (g_n_checkpoints c > 0)
               (''Report checkpoint(s) at '' @
                checkpoint_list (MAX_CHECKPOINTS * 12) (take (unat (g_n_checkpoints c)) (g_checkpoints c)) @ '' seconds'') c;
         c = note (g_debug c) (''Debug mode enabled.'' @ [newline]) c;
         c = note (g_validate c) (''Validation checks: on.'' @ [newline]) c;
         (w, c) = (if seed \<noteq> 0
                   then (os_srandom os (word_of_int seed) w,
                         note True (''Initializing random number generator from seed ('' @ print_int seed @ '').'' @ [newline]) c)
                   else let (now, w) = os_time os w
                        in (os_srandom os now w, note True (''Initializing random number generator from current time'' @ [newline]) c));
         c = note (g_force_shutdown c)
               (''Forcing shutdown in '' @ print_dec (unat (fp_to_u32 fp (NS2SEC fp (g_max_time_ns c)) + g_timeout c)) @ '' seconds'') c;
         c = note True [] c
     in (case test_print_mode test of None \<Rightarrow> w | Some f \<Rightarrow> f w, c))"

definition histogram_lines :: "'d out_ops \<Rightarrow> ('d \<times> int \<times> u64) list \<Rightarrow> string" where
  "histogram_lines out rows =
     (if rows = [] then []
      else ''       value  ------------- distribution ------------- count'' @ [newline] @
        concat (map (\<lambda>(v, width, n). pad 12 (out_dec out 3 v) @ '' |'' @
          pad_right 40 (replicate (min 40 (nat width)) (CHR ''*'')) @ '' '' @ print_dec (unat n) @ [newline]) rows))"

section \<open>Running a test\<close>

text \<open>A phase of the run ends it with a return value, or hands something to the next phase.\<close>

datatype ('a, 's) phase = Stop int 's | Go 'a 's

definition then_phase ::
  "('a, 's) phase option \<Rightarrow> ('a \<Rightarrow> 's \<Rightarrow> ('b, 's) phase option) \<Rightarrow> ('b, 's) phase option"
where
  "then_phase m k = (case m of None \<Rightarrow> None | Some (Stop rc s) \<Rightarrow> Some (Stop rc s) | Some (Go a s) \<Rightarrow> k a s)"

definition call_op :: "('w \<Rightarrow> int \<times> 'w) option \<Rightarrow> 'w \<Rightarrow> int \<times> 'w" where
  "call_op f w = (case f of None \<Rightarrow> (0, w) | Some g \<Rightarrow> g w)"

definition stop_with_error ::
  "('d, 'w) main_env \<Rightarrow> string \<Rightarrow> ('d, 'w) program \<Rightarrow> ('a, ('d, 'w) program) phase option"
where
  "stop_with_error os m s = map_option (Stop 1) (thread_error (os_pthread os) m s)"

definition worker_barrier_threads :: "'d main_state \<Rightarrow> u32" where
  "worker_barrier_threads c = 1 + g_threads c + (if g_tx_rate c > 0 then 1 else 0)"

definition report_barrier_threads :: "'d main_state \<Rightarrow> u32" where
  "report_barrier_threads c = 1 + (if g_report_interval c > 0 then 1 else 0) + (if g_n_checkpoints c > 0 then 1 else 0)"

definition run_prepare ::
  "'d fp_ops \<Rightarrow> ('d, 'w) main_env \<Rightarrow> ('d, 'ev, 'w) sb_test_t \<Rightarrow> ('d, 'w) program \<Rightarrow>
     ('d main_state sb_barrier_t \<times> 'd main_state sb_barrier_t, ('d, 'w) program) phase option"
where
  "run_prepare fp os test = (\<lambda>(w, c).
     let (rc, w) = call_op (op_init (test_ops test)) w
     in if rc \<noteq> 0 then Some (Stop 1 (w, c))
        else
          let (w, c) = print_run_mode fp os test (w, c);
              c = c\<lparr>sb_exec_timer := sb_timer_init (sb_exec_timer c), sb_intermediate_timer := sb_timer_init (sb_intermediate_timer c),
                    sb_checkpoint_timer := sb_timer_init (sb_checkpoint_timer c)\<rparr>;
              (rc, w) = call_op (op_prepare (test_ops test)) w
          in if rc \<noteq> 0 then Some (Stop 1 (w, c))
             else
               let c = c\<lparr>g_threads_running := 0\<rparr>
               in case sb_barrier_init (os_barrier_fails os) (worker_barrier_threads c)
                         (Some (threads_started_callback (os_clock os 0))) of
                    None \<Rightarrow> stop_with_error os ''sb_barrier_init() failed'' (w, c)
                  | Some worker_barrier \<Rightarrow>
                      (case sb_barrier_init (os_barrier_fails os) (report_barrier_threads c) None of
                         None \<Rightarrow> stop_with_error os ''sb_barrier_init() failed'' (w, c)
                       | Some report_barrier \<Rightarrow> Some (Go (worker_barrier, report_barrier) (w, c))))"

definition create_helper ::
  "('d, 'w) main_env \<Rightarrow> bool \<Rightarrow> thread_routine \<Rightarrow> string \<Rightarrow> ('d, 'w) program \<Rightarrow> (nat option, ('d, 'w) program) phase option"
where
  "create_helper os needed routine m s =
     (if \<not> needed then Some (Go None s)
      else
        let (err, t, s) = sb_thread_create (os_pthread os) routine s
        in if err \<noteq> 0 then stop_with_error os m s else Some (Go (Some t) s))"

definition run_create ::
  "('d, 'w) main_env \<Rightarrow> ('d, 'w) program \<Rightarrow> (nat option \<times> nat option \<times> nat option, ('d, 'w) program) phase option"
where
  "run_create os s =
     then_phase (create_helper os (g_report_interval (snd s) > 0) Report_routine
       ''sb_thread_create() for the reporting thread failed.'' s) (\<lambda>report s.
     then_phase (create_helper os (g_tx_rate (snd s) > 0) Eventgen_routine
       ''sb_thread_create() for the reporting thread failed.'' s) (\<lambda>eventgen s.
     then_phase (create_helper os (g_n_checkpoints (snd s) > 0) Checkpoints_routine
       ''sb_thread_create() for the checkpoint thread failed.'' s) (\<lambda>checkpoints s. do {
       (err, s) \<leftarrow> sb_thread_create_workers (os_pthread os) s;
       Some (if err \<noteq> 0 then Stop err s else Go (report, eventgen, checkpoints) s) })))"

text \<open>
  From the creation of the workers to the moment when the reporting threads start.  The product of
  the warm-up time is an \<open>int\<close>: when it overflows the behaviour is undefined.
\<close>

definition end_warm_up ::
  "'d fp_ops \<Rightarrow> ('d, 'w) main_env \<Rightarrow> u64 \<Rightarrow> 'd main_state \<Rightarrow> 'd main_state option"
where
  "end_warm_up fp os old_max_events c = do {
     let c = c\<lparr>g_max_events := old_max_events\<rparr>;
     (stat, c) \<leftarrow> checkpoint fp (\<lambda>k. os_clock os (k + 1)) (sb_counter_val (sb_counters c)) c;
     Some c }"

definition warm_up ::
  "'d fp_ops \<Rightarrow> ('d, 'w) main_env \<Rightarrow> u64 \<Rightarrow> ('d, 'w) program \<Rightarrow> ('d, 'w) program option"
where
  "warm_up fp os old_max_events = (\<lambda>(w, c).
     if g_warmup_time c * 1000000 > INT_MAX then None
     else do {
       let c = log_text LOG_NOTICE (Formatted (''Warming up for '' @ print_int (g_warmup_time c) @ '' seconds...'' @ [newline])) c;
       let (w, c) = os_usleep os (word_of_int (g_warmup_time c * 1000000)) (w, c);
       c \<leftarrow> end_warm_up fp os old_max_events c;
       Some (w, c) })"

definition run_start ::
  "'d fp_ops \<Rightarrow> ('d, 'w) main_env \<Rightarrow> 'd main_state sb_barrier_t \<Rightarrow> 'd main_state sb_barrier_t \<Rightarrow> ('d, 'w) program \<Rightarrow>
     (unit, ('d, 'w) program) phase option"
where
  "run_start fp os worker_barrier report_barrier = (\<lambda>(w, c).
     let w = os_alarm os (word_of_int (thread_init_timeout c)) (os_signal os Thread_init_timeout w);
         old_max_events = (if g_warmup_time c > 0 then g_max_events c else 0);
         c = (if g_warmup_time c > 0 then c\<lparr>g_max_events := 0\<rparr> else c);
         (rc, w, c) = os_wait os worker_barrier (w, c)
     in if rc < 0 then Some (Stop 1 (w, log_text LOG_FATAL (Formatted ''Threads initialization failed!'') c))
        else
          let w = os_alarm os 0 w;
              w = (if g_force_shutdown c
                   then os_alarm os (fp_to_u32 fp (fp_add fp (NS2SEC fp (g_max_time_ns c)) (fp_of_u32 fp (g_timeout c))))
                          (os_signal os Forced_shutdown w)
                   else w)
          in do {
            (w, c) \<leftarrow> (if g_warmup_time c > 0 then warm_up fp os old_max_events (w, c) else Some (w, c));
            let (rc, w, c) = os_wait os report_barrier (w, c);
            Some (if rc < 0 then Stop 1 (w, log_text LOG_FATAL (Formatted ''Failed to signal reporting threads'') c)
                  else Go () (w, c)) })"

text \<open>Cancelling and joining one of the helper threads; the flag tells whether a call failed.\<close>

definition terminate_helper ::
  "('d, 'w) main_env \<Rightarrow> nat \<Rightarrow> ('d, 'w) program \<Rightarrow> bool \<times> ('d, 'w) program"
where
  "terminate_helper os t s =
     (let (rc, s) = sb_thread_cancel (os_pthread os) t s
      in if rc \<noteq> 0 then (True, s) else let (rc, s) = sb_thread_join (os_pthread os) t s in (rc \<noteq> 0, s))"

text \<open>A thread that has set its flag was created, so its descriptor is there.\<close>

definition terminate_helpers ::
  "('d, 'w) main_env \<Rightarrow> nat option \<times> nat option \<times> nat option \<Rightarrow> ('d, 'w) program \<Rightarrow> ('d, 'w) program option"
where
  "terminate_helpers os = (\<lambda>(report, eventgen, checkpoints) s. do {
     s \<leftarrow> (if report_thread_created (snd s) then do {
             t \<leftarrow> report;
             let (failed, s) = terminate_helper os t s;
             if failed then thread_error (os_pthread os) ''Terminating the reporting thread failed.'' s else Some s }
           else Some s);
     s \<leftarrow> (if eventgen_thread_created (snd s) then do {
             t \<leftarrow> eventgen;
             let (failed, (w, c)) = terminate_helper os t s;
             Some (w, if failed \<and> g_max_time_ns c = 0
                      then log_text LOG_FATAL (Formatted ''Terminating the event generator thread failed.'') c else c) }
           else Some s);
     (if checkpoints_thread_created (snd s) then do {
        t \<leftarrow> checkpoints;
        let (failed, s) = terminate_helper os t s;
        if failed then thread_error (os_pthread os) ''Terminating the checkpoint thread failed.'' s else Some s }
      else Some s) })"

definition final_report ::
  "'d fp_ops \<Rightarrow> 'd out_ops \<Rightarrow> ('d, 'w) main_env \<Rightarrow> ('d, 'w) report_ops \<Rightarrow> ('d, 'w) program \<Rightarrow> ('d, 'w) program option"
where
  "final_report fp out os rops = (\<lambda>(w, c).
     if g_error c then Some (w, c)
     else do {
       c \<leftarrow> (if g_histogram c then do {
               let c = log_text LOG_NOTICE (Formatted ''Latency histogram (values are in milliseconds)'') c;
               (h, rows) \<leftarrow> sb_histogram_print fp (sb_latency_histogram c);
               let c = printf (histogram_lines out rows) (c\<lparr>sb_latency_histogram := h\<rparr>);
               Some (log_text LOG_NOTICE (Formatted '' '') c) }
             else Some c);
       report_cumulative fp out rops (\<lambda>k. os_clock os (k + 6)) (sb_counter_val (sb_counters c)) (w, c) })"

definition run_finish ::
  "'d fp_ops \<Rightarrow> 'd out_ops \<Rightarrow> ('d, 'w) main_env \<Rightarrow> ('d, 'ev, 'w) sb_test_t \<Rightarrow> nat option \<times> nat option \<times> nat option \<Rightarrow>
     ('d, 'w) program \<Rightarrow> (int \<times> ('d, 'w) program) option"
where
  "run_finish fp out os test helpers s = do {
     (err, w, c) \<leftarrow> sb_thread_join_workers (os_pthread os) s;
     if err \<noteq> 0 then Some (err, w, c)
     else
       let c = c\<lparr>sb_exec_timer := fst (sb_timer_stop (os_clock os 3) (sb_exec_timer c)),
                 sb_intermediate_timer := fst (sb_timer_stop (os_clock os 4) (sb_intermediate_timer c)),
                 sb_checkpoint_timer := fst (sb_timer_stop (os_clock os 5) (sb_checkpoint_timer c)),
                 g_report_interval := 0\<rparr>;
           w = os_alarm os 0 w;
           c = log_text LOG_INFO (Formatted (''Done.'' @ [newline])) c;
           (rc, w) = call_op (op_cleanup (test_ops test)) w
       in if rc \<noteq> 0 then Some (1, w, c)
          else do {
            s \<leftarrow> terminate_helpers os helpers (w, c);
            (w, c) \<leftarrow> final_report fp out os (test_reports test) s;
            let w = (case op_done (test_ops test) of None \<Rightarrow> w | Some f \<Rightarrow> f w);
            Some (if g_error c then 1 else 0, w, c) } }"

definition run_phases ::
  "'d fp_ops \<Rightarrow> ('d, 'w) main_env \<Rightarrow> ('d, 'ev, 'w) sb_test_t \<Rightarrow> ('d, 'w) program \<Rightarrow>
     (nat option \<times> nat option \<times> nat option, ('d, 'w) program) phase option"
where
  "run_phases fp os test s =
     then_phase (run_prepare fp os test s) (\<lambda>(worker_barrier, report_barrier) s.
     then_phase (run_create os s) (\<lambda>helpers s.
     then_phase (run_start fp os worker_barrier report_barrier s) (\<lambda>_ s. Some (Go helpers s))))"

definition run_test ::
  "'d fp_ops \<Rightarrow> 'd out_ops \<Rightarrow> ('d, 'w) main_env \<Rightarrow> ('d, 'ev, 'w) sb_test_t \<Rightarrow> ('d, 'w) program \<Rightarrow> (int \<times> ('d, 'w) program) option"
where
  "run_test fp out os test s = do {
     r \<leftarrow> run_phases fp os test s;
     case r of Stop rc s \<Rightarrow> Some (rc, s) | Go helpers s \<Rightarrow> run_finish fp out os test helpers s }"

section \<open>The program\<close>

fun find_test :: "string \<Rightarrow> ('d, 'ev, 'w) sb_test_t list \<Rightarrow> ('d, 'ev, 'w) sb_test_t option" where
  "find_test name [] = None"
| "find_test name (t # ts) = (if test_sname t = name then Some t else find_test name ts)"

text \<open>
  The interface of the Lua scripting: loading a script (\<open>None\<close> is the standard input), and a
  custom command, if one with that name is defined.
\<close>

record ('d, 'ev, 'w) lua_ops =
  sb_load_lua :: "string option \<Rightarrow> ('d, 'w) program \<Rightarrow> ('d, 'ev, 'w) sb_test_t option \<times> ('d, 'w) program"
  sb_lua_loaded :: "('d, 'w) program \<Rightarrow> bool"
  sb_lua_custom_command :: "string \<Rightarrow> ('d, 'w) program \<Rightarrow> (('d, 'w) program \<Rightarrow> int \<times> ('d, 'w) program) option"
  sb_lua_done :: "('d, 'w) program \<Rightarrow> ('d, 'w) program"

text \<open>An end of the program: the exit status, the text on the error stream, and the state.\<close>

type_synonym ('d, 'w) exit = "int \<times> string \<times> ('d, 'w) program"

definition not_implemented :: "('d, 'ev, 'w) sb_test_t \<Rightarrow> string \<Rightarrow> string" where
  "not_implemented test cmd = quoted (test_sname test) @ '' test does not implement the '' @ quoted cmd @ '' command.'' @ [newline]"

definition builtin_command ::
  "('d, 'ev, 'w) sb_test_t \<Rightarrow> string \<Rightarrow> ('w \<Rightarrow> int \<times> 'w) option \<Rightarrow> ('d, 'w) program \<Rightarrow> ('d, 'w) exit"
where
  "builtin_command test cmd f = (\<lambda>(w, c).
     case f of None \<Rightarrow> (EXIT_FAILURE, not_implemented test cmd, w, c) | Some g \<Rightarrow> let (rc, w) = g w in (rc, [], w, c))"

definition sb_print_test_options :: "sb_arg_t list option \<Rightarrow> 'd main_state \<Rightarrow> 'd main_state option" where
  "sb_print_test_options args c = do { as \<leftarrow> args; text \<leftarrow> sb_print_options as; Some (printf text c) }"

text \<open>The command; the flag tells whether the program returns at once, without releasing anything.\<close>

definition main_command ::
  "'d fp_ops \<Rightarrow> 'd out_ops \<Rightarrow> ('d, 'w) main_env \<Rightarrow> ('d, 'ev, 'w) lua_ops \<Rightarrow> ('d, 'ev, 'w) sb_test_t \<Rightarrow> string \<Rightarrow> ('d, 'w) program \<Rightarrow>
     (bool \<times> ('d, 'w) exit) option"
where
  "main_command fp out os lua test cmd = (\<lambda>(w, c).
     case (if sb_lua_loaded lua (w, c) then sb_lua_custom_command lua cmd (w, c) else None) of
       Some f \<Rightarrow> let (rc, s) = f (w, c) in Some (False, rc, [], s)
     | None \<Rightarrow>
         if cmd = ''help''
         then if cmd_help test \<noteq> None
              then let (_, w) = call_op (cmd_help test) w in Some (False, EXIT_SUCCESS, [], w, c)
              else if test_args test \<noteq> None
              then do {
                c \<leftarrow> sb_print_test_options (test_args test) (printf (test_sname test @ '' options:'' @ [newline]) c);
                Some (False, EXIT_SUCCESS, [], w, c) }
              else Some (True, EXIT_FAILURE, not_implemented test ''help'', w, c)
         else if cmd = ''prepare'' then Some (False, builtin_command test cmd (cmd_prepare test) (w, c))
         else if cmd = ''cleanup'' then Some (False, builtin_command test cmd (cmd_cleanup test) (w, c))
         else if cmd = ''run''
         then do {
           (rc, s) \<leftarrow> run_test fp out os test (w, c);
           Some (False, if rc \<noteq> 0 then EXIT_FAILURE else EXIT_SUCCESS, [], s) }
         else if cmd = ''qgen'' then Some (False, builtin_command test cmd (cmd_qgen test) (w, c))
         else Some (False, EXIT_FAILURE, ''Unknown command: '' @ cmd @ [newline], w, c))"

text \<open>What \<open>main\<close> does before it returns.\<close>

definition main_end ::
  "('d, 'ev, 'w) lua_ops \<Rightarrow> ('d, 'w) db_driver_t list \<Rightarrow> ('d, 'w) program \<Rightarrow> ('d, 'w) program"
where
  "main_end lua drivers s =
     (let s = (if sb_lua_loaded lua s then sb_lua_done lua s else s);
          (w, c) = db_done drivers s
      in (w, (sb_thread_done (log_done (c\<lparr>sb_counters := []\<rparr>)))\<lparr>thread_timers := [], timers_copy := []\<rparr>))"

text \<open>Finding the test: the end of the program, or the test and the name of the command.\<close>

definition main_test ::
  "bool \<Rightarrow> ('d, 'ev, 'w) lua_ops \<Rightarrow> ('d, 'ev, 'w) sb_test_t list \<Rightarrow> ('d, 'w) program \<Rightarrow>
     ('d, 'w) exit + ('d, 'ev, 'w) sb_test_t \<times> string \<times> ('d, 'w) program"
where
  "main_test isatty lua tests = (\<lambda>(w, c).
     if g_testname c \<noteq> None \<and> g_testname c \<noteq> Some ''-''
     then
       (case find_test (the (g_testname c)) tests of
          Some test \<Rightarrow>
            (case g_cmdname c of
               None \<Rightarrow> Inl (EXIT_FAILURE, ''The '' @ quoted (test_sname test) @ '' test requires a command argument. '' @
                        ''See '' @ quoted (''sysbench '' @ test_sname test @ '' help'') @ [newline], w, c)
             | Some cmd \<Rightarrow> Inr (test, cmd, w, c))
        | None \<Rightarrow>
            (case sb_load_lua lua (g_testname c) (w, c) of
               (None, s) \<Rightarrow> Inl (EXIT_FAILURE, [], s)
             | (Some test, s) \<Rightarrow>
                 (case g_cmdname (snd s) of None \<Rightarrow> Inl (EXIT_SUCCESS, [], s) | Some cmd \<Rightarrow> Inr (test, cmd, s))))
     else
       let c = c\<lparr>g_testname := None\<rparr>;
           c = (if isatty then log_text LOG_NOTICE (Formatted (''Reading the script from the standard input:'' @ [newline])) c else c);
           (test, s) = sb_load_lua lua None (w, c)
       in Inl (if test \<noteq> None then EXIT_SUCCESS else EXIT_FAILURE, [], s))"

text \<open>The parameters of a start of the program.\<close>

record ('d, 'ev, 'w) start =
  st_fp :: "'d fp_ops"
  st_out :: "'d out_ops"
  st_os :: "('d, 'w) main_env"
  st_lua :: "('d, 'ev, 'w) lua_ops"
  st_drivers :: "('d, 'w) db_driver_t list"
  st_tests :: "('d, 'ev, 'w) sb_test_t list"
  st_strtod :: "string \<Rightarrow> 'd"
  st_random :: "nat \<Rightarrow> u64"
  st_files :: file_system
  st_use_mysql :: bool
  st_isatty :: bool
  st_versions :: versions
  st_memory :: "sb_thread_ctxt_t list option"
  st_histogram_ok :: bool

text \<open>The last part of \<open>main\<close>, with a test and a command.\<close>

definition main_run ::
  "('d, 'ev, 'w) start \<Rightarrow> options \<Rightarrow> string option list \<Rightarrow> ('d, 'ev, 'w) sb_test_t \<times> string \<times> ('d, 'w) program \<Rightarrow>
     ('d, 'w) exit option"
where
  "main_run st opts rest = (\<lambda>(test, cmd, s).
     case parse_test_arguments (st_files st) (test_args test) rest opts of
       Inl message \<Rightarrow> Some (EXIT_FAILURE, message, s)
     | Inr (opts, rest) \<Rightarrow> do {
         (at_once, rc, message, s) \<leftarrow> main_command (st_fp st) (st_out st) (st_os st) (st_lua st) test cmd s;
         Some (rc, message, if at_once then s else main_end (st_lua st) (st_drivers st) s) })"

text \<open>The message of a getter that ends the program.\<close>

fun exit_message :: "exit_failure \<Rightarrow> string" where
  "exit_message (Invalid_value name val) = ''Invalid value for the '' @ quoted name @ '' option: '' @ quoted val @ [newline]"

text \<open>The initialisation of the global variables, of the logger and of the counters.\<close>

definition main_init ::
  "('d, 'ev, 'w) start \<Rightarrow> options \<Rightarrow> 'w \<Rightarrow> 'd main_state \<Rightarrow> (('d, 'w) exit + options \<times> ('d, 'w) program) option"
where
  "main_init st opts w c = do {
     r \<leftarrow> init (st_fp st) (st_strtod st) (st_random st) (st_files st) (st_memory st) opts c;
     Some (case r of
       Inl e \<Rightarrow> Inl (EXIT_FAILURE, exit_message e, w, c)
     | Inr (rc, opts, c) \<Rightarrow>
         if rc \<noteq> 0 then Inl (EXIT_FAILURE, [], w, c)
         else
           (case log_init (st_fp st) (st_histogram_ok st) opts c of
              Inl e \<Rightarrow> Inl (EXIT_FAILURE, exit_message e, w, c)
            | Inr (failed, c) \<Rightarrow>
                if failed then Inl (EXIT_FAILURE, [], w, c)
                else Inr (opts, w, print_header (st_versions st) (c\<lparr>sb_counters := sb_counters_init (unat (g_threads c))\<rparr>)))) }"

definition sysbench_main ::
  "('d, 'ev, 'w) start \<Rightarrow> string list \<Rightarrow> ('d, 'w) program \<Rightarrow> ('d, 'w) exit option"
where
  "sysbench_main st args = (\<lambda>(w, c).
     let fs = st_files st;
         (opts, c) = log_register fs [] c;
         (opts, c) = register_tests fs (st_use_mysql st) (st_drivers st) opts c
     in case parse_general_arguments fs args opts c of
          Inl message \<Rightarrow> Some (EXIT_FAILURE, message, w, c)
        | Inr (opts, rest, c) \<Rightarrow>
            if sb_get_value_flag opts ''help''
            then do { c \<leftarrow> print_help (st_use_mysql st) (st_drivers st) (st_tests st) c; Some (EXIT_SUCCESS, [], w, c) }
            else if sb_get_value_flag opts ''version''
            then Some (EXIT_SUCCESS, [], w, printf (fst (st_versions st) @ [newline]) c)
            else do {
              r \<leftarrow> main_init st opts w c;
              case r of
                Inl e \<Rightarrow> Some e
              | Inr (opts, s) \<Rightarrow>
                  (case main_test (st_isatty st) (st_lua st) (st_tests st) s of
                     Inl e \<Rightarrow> Some e
                   | Inr t \<Rightarrow> main_run st opts rest t) })"

definition checkpoint_ok :: "string \<Rightarrow> bool" where
  "checkpoint_ok v \<longleftrightarrow> snd (strtol v) = [] \<and> 0 \<le> fst (strtol v) \<and> fst (strtol v) \<le> INT_MAX"

definition limits_of :: "'d main_state \<Rightarrow> u32 \<times> int \<times> u64 \<times> u64 \<times> u32 list" where
  "limits_of c = (g_threads c, g_warmup_time c, g_max_time_ns c, g_max_events c, g_checkpoints c)"

definition main_start :: "rat main_state" where
  "main_start = thread_state.extend
     (db_state.extend
       (core_state.extend ((core_start 1 0 0 0)\<lparr>g_checkpoints := replicate MAX_CHECKPOINTS 0\<rparr>)
         (db_state.fields DB_PS_MODE_AUTO None False [] False False False [] []))
       (thread_state.fields 0 None))
     (main_state.fields 0 False False False None)"

definition given :: "string \<Rightarrow> sb_arg_type_t \<Rightarrow> string list \<Rightarrow> option_t" where
  "given name ty vs = \<lparr>opt_name = name, opt_type = ty, opt_values = map (\<lambda>v. \<lparr>val_data = v, val_ignore = False\<rparr>) vs,
     opt_ignore = False, opt_validate = None\<rparr>"

definition some_options :: options where
  "some_options = [given ''threads'' SB_ARG_TYPE_INT [''4''], given ''thread_stack_size'' SB_ARG_TYPE_SIZE [''64K''],
     given ''rand_type'' SB_ARG_TYPE_STRING [''uniform''], given ''report_checkpoints'' SB_ARG_TYPE_LIST [''30'', ''7'', ''12'']]"

text \<open>Enough for a successful initialisation.\<close>

definition plain_options :: "options \<Rightarrow> bool" where
  "plain_options opts \<longleftrightarrow>
     sb_get_value_int opts ''threads'' = Inr 4 \<and> \<not> isl (sb_get_value_int opts ''thread-init-timeout'') \<and>
     \<not> isl (sb_get_value_int opts ''events'') \<and> sb_get_value_int opts ''warmup-time'' = Inr 0 \<and>
     sb_get_value_int opts ''time'' = Inr 0 \<and> sb_get_value_size opts ''thread-stack-size'' = 65536 \<and>
     \<not> sb_get_value_flag opts ''debug'' \<and> \<not> isl (sb_get_value_int opts ''rand-seed'') \<and>
     sb_get_value_string opts ''rand-type'' = Some ''uniform'' \<and> \<not> isl (sb_get_value_int opts ''rand-spec-iter'') \<and>
     \<not> isl (sb_get_value_int opts ''rand-spec-pct'') \<and> \<not> isl (sb_get_value_int opts ''rand-spec-res'') \<and>
     find_option opts ''rand-zipfian-exp'' = None \<and> \<not> isl (sb_get_value_int opts ''rate'') \<and>
     \<not> isl (sb_get_value_int opts ''report-interval'') \<and>
     sb_get_value_list opts ''report-checkpoints'' = Some [''30'', ''7'', ''12'']"

text \<open>Options are never removed and keep their places.\<close>

definition grows :: "options \<Rightarrow> options \<Rightarrow> bool" where
  "grows opts opts' \<longleftrightarrow> (\<exists>ns. map opt_name opts' = map opt_name opts @ ns)"

definition option_name :: "string \<Rightarrow> string" where
  "option_name arg = takeWhile (\<lambda>x. x \<noteq> CHR ''='') (drop 2 arg)"

fun names_given :: "string option \<times> string option \<Rightarrow> string list" where
  "names_given (t, c) = (case t of None \<Rightarrow> [] | Some x \<Rightarrow> [x]) @ (case c of None \<Rightarrow> [] | Some x \<Rightarrow> [x])"

definition left_over :: "string \<Rightarrow> string option" where
  "left_over arg = (if is_option arg then None else Some arg)"

text \<open>What the first pass leaves of the arguments.\<close>

definition after_general :: "options \<Rightarrow> string \<Rightarrow> string option \<Rightarrow> bool" where
  "after_general opts arg r \<longleftrightarrow>
     r = Some arg \<or> r = None \<and> is_option arg \<and> sb_find_option opts (option_name arg) \<noteq> None"

definition some_args :: "string list" where
  "some_args = [''cpu'', ''--threads=4'', ''--cpu-max-prime=100'', ''run'', ''--time=0'', ''--report-checkpoints=30,7,12'']"

definition some_test_args :: "sb_arg_t list" where
  "some_test_args = [sb_opt ''cpu-max-prime'' ''upper limit for primes generator'' (Some ''10000'') SB_ARG_TYPE_INT]"

definition first_pass :: "string + ((string option \<times> string option) \<times> options \<times> string option list)" where
  "first_pass = general_loop Map.empty some_args (None, None)
     (fst (sb_register_arg_set Map.empty general_args [given ''rand_type'' SB_ARG_TYPE_STRING [''uniform'']]))"

definition idle_os :: "(rat, unit) main_env" where
  "idle_os = \<lparr>os_pthread = \<lparr>pthread_create = (\<lambda>r s. (0, 0, s)), pthread_join = (\<lambda>t s. (0, s)), pthread_cancel = (\<lambda>t s. (0, s)),
       errno_text = (\<lambda>s. (0, []))\<rparr>,
     os_barrier_fails = False, os_wait = (\<lambda>b s. (0, s)), os_usleep = (\<lambda>d s. s), os_signal = (\<lambda>h w. w), os_alarm = (\<lambda>d w. w),
     os_srandom = (\<lambda>x w. w), os_time = (\<lambda>w. (0, w)), os_clock = (\<lambda>k. \<lparr>tv_sec = 0, tv_nsec = 0\<rparr>)\<rparr>"

section \<open>The configuration\<close>

text \<open>The comparison is an order on the checkpoints that the program accepts.\<close>

lemma checkpoint_cmp_le:
  assumes "uint a \<le> INT_MAX" "uint b \<le> INT_MAX"
  shows "checkpoint_cmp a b \<le> 0 \<longleftrightarrow> uint a \<le> uint b"
proof -
  have "a - b = word_of_int (uint a - uint b)" by simp
  then have "sint (a - b) = signed_take_bit 31 (uint a - uint b)" by (simp only: signed_of_int) simp
  also have "\<dots> = uint a - uint b"
  proof (rule signed_take_bit_int_eq_self)
    have "0 \<le> uint a" "0 \<le> uint b" "uint a \<le> 2147483647" "uint b \<le> 2147483647" using assms by (simp_all add: INT_MAX_def)
    then have "- 2147483648 \<le> uint a - uint b \<and> uint a - uint b < 2147483648" by linarith
    then show "- (2 ^ 31) \<le> uint a - uint b" "uint a - uint b < 2 ^ 31" by simp_all
  qed
  finally show ?thesis by (simp add: checkpoint_cmp_def)
qed

lemma qsort_insert_mset: "mset (qsort_insert cmp x xs) = add_mset x (mset xs)"
  by (induction xs) auto

lemma qsort_mset: "mset (qsort cmp xs) = mset xs"
  by (induction xs) (simp_all add: qsort_def qsort_insert_mset)

lemma qsort_set: "set (qsort cmp xs) = set xs"
  using qsort_mset [of cmp xs] by (metis set_mset_mset)

lemma qsort_sorted:
  assumes cmp: "\<And>x y. x \<in> S \<Longrightarrow> y \<in> S \<Longrightarrow> cmp x y \<le> 0 \<longleftrightarrow> f x \<le> (f y :: 'b :: linorder)" and "set xs \<subseteq> S"
  shows "sorted (map f (qsort cmp xs))"
proof -
  have ins: "sorted (map f (qsort_insert cmp x ys))" if "sorted (map f ys)" "x \<in> S" "set ys \<subseteq> S" for x ys
    using that
  proof (induction ys)
    case (Cons y ys)
    have "set (qsort_insert cmp x ys) = insert x (set ys)" by (metis qsort_insert_mset set_mset_add_mset_insert set_mset_mset)
    then show ?case using Cons cmp [of x y] by (auto dest: order_trans)
  qed simp
  show ?thesis
    using assms(2)
  proof (induction xs)
    case (Cons x xs)
    moreover have "set (foldr (qsort_insert cmp) xs []) = set xs" using qsort_set [of cmp xs] by (simp add: qsort_def)
    ultimately show ?case using ins [of "qsort cmp xs" x] by (simp add: qsort_def)
  qed (simp add: qsort_def)
qed

lemma checkpoint_values_frame:
  "checkpoint_values vs c = (False, c') \<Longrightarrow> \<exists>n cps. c' = c\<lparr>g_n_checkpoints := n, g_checkpoints := cps\<rparr>"
proof (induction vs arbitrary: c)
  case Nil
  then show ?case by (intro exI [of _ "g_n_checkpoints c"] exI [of _ "g_checkpoints c"]) simp
next
  case (Cons v vs)
  let ?c = "c\<lparr>g_n_checkpoints := g_n_checkpoints c + 1, g_checkpoints :=
      (g_checkpoints c)[unat (g_n_checkpoints c) := word_of_int (fst (strtol v))]\<rparr>"
  have "checkpoint_values vs ?c = (False, c')"
    using Cons.prems by (auto simp: Let_def split: prod.splits if_splits)
  from Cons.IH [OF this] show ?case by auto
qed

lemma checkpoint_values_spec:
  assumes "checkpoint_values vs c = (False, c')" "length (g_checkpoints c) = MAX_CHECKPOINTS" "unat (g_n_checkpoints c) \<le> MAX_CHECKPOINTS"
  shows "unat (g_n_checkpoints c') = unat (g_n_checkpoints c) + length vs \<and> unat (g_n_checkpoints c') \<le> MAX_CHECKPOINTS \<and>
    length (g_checkpoints c') = MAX_CHECKPOINTS \<and> list_all checkpoint_ok vs \<and>
    take (unat (g_n_checkpoints c) + length vs) (g_checkpoints c') =
      take (unat (g_n_checkpoints c)) (g_checkpoints c) @ map (\<lambda>v. word_of_int (fst (strtol v))) vs"
  using assms
proof (induction vs arbitrary: c)
  case (Cons v vs)
  let ?n = "unat (g_n_checkpoints c)"
  let ?c = "c\<lparr>g_n_checkpoints := g_n_checkpoints c + 1, g_checkpoints := (g_checkpoints c)[?n := word_of_int (fst (strtol v))]\<rparr>"
  have suc: "unat (g_n_checkpoints c + 1) = ?n + 1"
    using Cons.prems(3) by (simp add: MAX_CHECKPOINTS_def unat_word_ariths)
  have run: "checkpoint_values vs ?c = (False, c')" "checkpoint_ok v" "?n + 1 \<le> MAX_CHECKPOINTS"
    using Cons.prems(1) suc by (auto simp: Let_def checkpoint_ok_def split: prod.splits if_splits)
  have "take (?n + 1) ((g_checkpoints c)[?n := x]) = take ?n (g_checkpoints c) @ [x]" for x
    using run(3) Cons.prems(2) by (simp add: take_Suc_conv_app_nth)
  then show ?case using Cons.IH [OF run(1)] run suc Cons.prems(2) by simp
qed simp

text \<open>The checkpoints are the values of the option in ascending order.\<close>

lemma checkpoints_sorted:
  assumes vals: "checkpoint_values vs (c\<lparr>g_n_checkpoints := 0\<rparr>) = (False, c')" and len: "length (g_checkpoints c) = MAX_CHECKPOINTS"
  shows "map uint (take (length vs) (g_checkpoints (sort_checkpoints c'))) = sort (map (fst \<circ> strtol) vs)"
    "unat (g_n_checkpoints (sort_checkpoints c')) = length vs" "length vs \<le> MAX_CHECKPOINTS" "list_all checkpoint_ok vs"
proof -
  let ?xs = "map (\<lambda>v. word_of_int (fst (strtol v)) :: u32) vs"
  from checkpoint_values_spec [OF vals] len
  have spec: "unat (g_n_checkpoints c') = length vs" "length vs \<le> MAX_CHECKPOINTS" "length (g_checkpoints c') = MAX_CHECKPOINTS"
      "list_all checkpoint_ok vs" "take (length vs) (g_checkpoints c') = ?xs"
    by auto
  show "length vs \<le> MAX_CHECKPOINTS" "list_all checkpoint_ok vs" by fact+
  show n: "unat (g_n_checkpoints (sort_checkpoints c')) = length vs" using spec(1) by (simp add: sort_checkpoints_def Let_def)
  have val: "uint (word_of_int (fst (strtol v)) :: u32) = fst (strtol v)" "fst (strtol v) \<le> INT_MAX" if "v \<in> set vs" for v
    using spec(4) that by (auto simp: list_all_iff checkpoint_ok_def INT_MAX_def uint_word_of_int)
  have uint: "map uint ?xs = map (fst \<circ> strtol) vs" using val(1) by simp
  have "sorted (map uint (qsort checkpoint_cmp ?xs))"
  proof (rule qsort_sorted)
    show "set ?xs \<subseteq> {x. uint x \<le> INT_MAX}" using val by auto
    show "checkpoint_cmp x y \<le> 0 \<longleftrightarrow> uint x \<le> uint y" if "x \<in> {x. uint x \<le> INT_MAX}" "y \<in> {x. uint x \<le> INT_MAX}" for x y
      using that by (intro checkpoint_cmp_le) simp_all
  qed
  moreover have "mset (map uint (qsort checkpoint_cmp ?xs)) = mset (map (fst \<circ> strtol) vs)"
    using uint by (metis mset_map qsort_mset)
  ultimately have "map uint (qsort checkpoint_cmp ?xs) = sort (map (fst \<circ> strtol) vs)" by (intro properties_for_sort [symmetric]) simp_all
  moreover have "length (qsort checkpoint_cmp ?xs) = length vs" by (metis length_map mset_eq_length qsort_mset)
  ultimately show "map uint (take (length vs) (g_checkpoints (sort_checkpoints c'))) = sort (map (fst \<circ> strtol) vs)"
    using spec(1,5) by (cases "vs = []") (simp_all add: sort_checkpoints_def Let_def)
qed

lemma limits_of_log [simp]: "limits_of (log_text p m c) = limits_of c"
  by (rule log_text_eq) (simp add: limits_of_def forget_log_def)

lemma parse_forced_shutdown_limits: "limits_of (snd (parse_forced_shutdown fp opts c)) = limits_of c"
  by (auto simp: parse_forced_shutdown_def Let_def split: option.split prod.split) (simp_all add: limits_of_def)

lemma init_limits_ok:
  assumes "init_limits fp opts c = Inr (0, c')"
  obtains n events warmup time where
    "sb_get_value_int opts ''threads'' = Inr n" "sb_get_value_int opts ''events'' = Inr events"
    "sb_get_value_int opts ''warmup-time'' = Inr warmup" "sb_get_value_int opts ''time'' = Inr time"
    "(word_of_int n :: u32) \<noteq> 0" "0 \<le> warmup"
    "limits_of c' = (word_of_int n, warmup, SEC2NS time + (if SEC2NS time > 0 \<and> warmup > 0 then SEC2NS warmup else 0),
       word_of_int events, g_checkpoints c)"
proof -
  obtain n where n: "sb_get_value_int opts ''threads'' = Inr n"
    using assms by (cases "sb_get_value_int opts ''threads''") (auto simp: init_limits_def check_def)
  obtain tmo where tmo: "sb_get_value_int opts ''thread-init-timeout'' = Inr tmo"
    using assms n by (cases "sb_get_value_int opts ''thread-init-timeout''") (auto simp: init_limits_def check_def)
  have pos: "(word_of_int n :: u32) \<noteq> 0" using assms n tmo by (auto simp: init_limits_def check_def Let_def)
  obtain events where events: "sb_get_value_int opts ''events'' = Inr events"
    using assms n tmo pos by (cases "sb_get_value_int opts ''events''") (auto simp: init_limits_def check_def Let_def)
  obtain warmup where warmup: "sb_get_value_int opts ''warmup-time'' = Inr warmup"
    using assms n tmo pos events by (cases "sb_get_value_int opts ''warmup-time''") (auto simp: init_limits_def check_def Let_def)
  have nneg: "0 \<le> warmup" using assms n tmo pos events warmup by (auto simp: init_limits_def check_def Let_def split: if_splits)
  obtain time where time: "sb_get_value_int opts ''time'' = Inr time"
    using assms n tmo pos events warmup nneg by (cases "sb_get_value_int opts ''time''") (auto simp: init_limits_def check_def Let_def)
  define c1 where "c1 = c\<lparr>g_threads := word_of_int n, thread_init_timeout := tmo, g_max_events := word_of_int events,
    g_warmup_time := warmup, g_max_time_ns := SEC2NS time\<rparr>"
  define c2 where "c2 = (if g_max_events c1 = 0 \<and> g_max_time_ns c1 = 0
    then log_text LOG_WARNING (Formatted (''Both event and time limits are disabled, '' @ ''running an endless test'')) c1 else c1)"
  have l2: "limits_of c2 = (word_of_int n, warmup, SEC2NS time, word_of_int events, g_checkpoints c)"
  proof -
    have "limits_of c2 = limits_of c1" by (simp add: c2_def)
    then show ?thesis by (simp add: c1_def limits_of_def)
  qed
  have step: "init_limits fp opts c = (if g_max_time_ns c2 > 0
      then Inr (parse_forced_shutdown fp opts (if warmup > 0 then c2\<lparr>g_max_time_ns := g_max_time_ns c2 + SEC2NS warmup\<rparr> else c2))
      else Inr (0, c2))"
    using n tmo pos events warmup nneg time by (simp add: init_limits_def check_def c1_def c2_def Let_def)
  have "limits_of c' = (word_of_int n, warmup, SEC2NS time + (if SEC2NS time > 0 \<and> warmup > 0 then SEC2NS warmup else 0),
       word_of_int events, g_checkpoints c)"
  proof (cases "SEC2NS time > 0")
    case True
    let ?c3 = "if warmup > 0 then c2\<lparr>g_max_time_ns := g_max_time_ns c2 + SEC2NS warmup\<rparr> else c2"
    have "c' = snd (parse_forced_shutdown fp opts ?c3)"
      using assms step True l2 by (simp add: limits_of_def split: if_splits)
    then have "limits_of c' = limits_of ?c3" by (simp add: parse_forced_shutdown_limits)
    then show ?thesis using l2 True by (simp add: limits_of_def)
  next
    case False
    then show ?thesis using assms step l2 by (simp add: limits_of_def)
  qed
  with n events warmup time pos nneg show thesis by (rule that)
qed

lemma sb_thread_init_limits: "limits_of (snd (sb_thread_init m opts c)) = limits_of c"
  by (auto simp: sb_thread_init_def Let_def) (simp_all add: limits_of_def)

lemma init_rand_limits: "init_rand fp strtod random opts c = Some (Inr (b, c')) \<Longrightarrow> limits_of c' = limits_of c"
  by (auto simp: init_rand_def limits_of_def [of "rand_globals_update _ _"] split: sum.splits rand_error.splits)
    (simp_all add: limits_of_def)

lemma init_ok:
  assumes "init fp strtod random fs memory opts c = Some (Inr (0, opts', c'))"
  obtains c1 c2 vs c3 where "init_limits fp opts c = Inr (0, c1)" "limits_of c2 = limits_of c1"
    "sb_get_value_list opts' ''report-checkpoints'' = Some vs" "checkpoint_values vs (c2\<lparr>g_n_checkpoints := 0\<rparr>) = (False, c3)"
    "c' = (init_timers (sort_checkpoints c3))\<lparr>g_luajit_cmd := sb_get_value_string opts' ''luajit-cmd''\<rparr>"
proof -
  obtain c1 where c1: "init_limits fp opts c = Inr (0, c1)"
    using assms by (auto simp: init_def split: sum.splits if_splits)
  obtain d1 where d1: "sb_thread_init memory opts c1 = (0, d1)" "limits_of d1 = limits_of c1"
  proof -
    obtain err d1 where d: "sb_thread_init memory opts c1 = (err, d1)" by (cases "sb_thread_init memory opts c1")
    moreover have "err = 0" using assms c1 d by (auto simp: init_def split: if_splits)
    ultimately show thesis using sb_thread_init_limits [of memory opts c1] by (intro that [of d1]) simp_all
  qed
  define d2 where "d2 = d1\<lparr>g_debug := sb_get_value_flag opts ''debug''\<rparr>"
  define o2 where "o2 = (if g_debug d2
    then case sb_find_option opts ''verbosity'' of None \<Rightarrow> opts | Some opt \<Rightarrow> fst (set_option fs (opt_name opt) (Some ''5'') (opt_type opt) opts)
    else opts)"
  define d3 where "d3 = d2\<lparr>g_validate := sb_get_value_flag o2 ''validate''\<rparr>"
  have l3: "limits_of d3 = limits_of c1" using d1(2) by (simp add: d3_def d2_def limits_of_def)
  note start = assms [unfolded init_def c1 d1(1) sum.case prod.case Let_def, folded d2_def, folded o2_def, folded d3_def]
  obtain d4 where d4: "init_rand fp strtod random o2 d3 = Some (Inr (False, d4))"
    using start by (cases "init_rand fp strtod random o2 d3") (auto split: sum.splits if_splits)
  have l4: "limits_of d4 = limits_of c1" using init_rand_limits [OF d4] l3 by simp
  obtain rate interval where ri: "sb_get_value_int o2 ''rate'' = Inr rate" "sb_get_value_int o2 ''report-interval'' = Inr interval"
    using start d4 by (auto simp: check_def split: sum.splits)
  define d5 where "d5 = d4\<lparr>g_tx_rate := word_of_int rate, g_report_interval := word_of_int interval\<rparr>"
  obtain vs c3 where vs: "sb_get_value_list o2 ''report-checkpoints'' = Some vs" "checkpoint_values vs (d5\<lparr>g_n_checkpoints := 0\<rparr>) = (False, c3)"
      "opts' = o2" "c' = (init_timers (sort_checkpoints c3))\<lparr>g_luajit_cmd := sb_get_value_string o2 ''luajit-cmd''\<rparr>"
    using start d4 ri by (auto simp: check_def d5_def split: if_splits prod.splits Option.bind_splits)
  have "limits_of d5 = limits_of c1" using l4 by (simp add: d5_def limits_of_def)
  with c1 vs show thesis by (intro that) simp_all
qed


lemma some_checkpoints: "strtol ''30'' = (30, [])" "strtol ''7'' = (7, [])" "strtol ''12'' = (12, [])"
  by code_simp+

lemma init_plain_options:
  fixes fp defines "fp \<equiv> rounded_ops (\<lambda>x. x) (\<lambda>x. x) (\<lambda>x y. x)"
  assumes "plain_options opts"
  shows "\<exists>c'. init fp (\<lambda>_. 0) (\<lambda>_. 0) Map.empty (Some []) opts c = Some (Inr (0, opts, c'))"
proof -
  obtain x1 x2 x3 x4 x5 x6 x7 x8 where v: "sb_get_value_int opts ''thread-init-timeout'' = Inr x1" "sb_get_value_int opts ''events'' = Inr x2"
      "sb_get_value_int opts ''rand-seed'' = Inr x3" "sb_get_value_int opts ''rand-spec-iter'' = Inr x4"
      "sb_get_value_int opts ''rand-spec-pct'' = Inr x5" "sb_get_value_int opts ''rand-spec-res'' = Inr x6"
      "sb_get_value_int opts ''rate'' = Inr x7" "sb_get_value_int opts ''report-interval'' = Inr x8"
    using assms(2) by (simp add: plain_options_def) (metis sum.collapse(2))
  have o: "sb_get_value_int opts ''threads'' = Inr 4" "sb_get_value_int opts ''warmup-time'' = Inr 0"
      "sb_get_value_int opts ''time'' = Inr 0" "sb_get_value_size opts ''thread-stack-size'' = 65536"
      "sb_get_value_flag opts ''debug'' = False" "sb_get_value_string opts ''rand-type'' = Some ''uniform''"
      "find_option opts ''rand-zipfian-exp'' = None" "sb_get_value_list opts ''report-checkpoints'' = Some [''30'', ''7'', ''12'']"
    using assms(2) by (simp_all add: plain_options_def)
  have lim: "\<exists>c1. init_limits fp opts c = Inr (0, c1)"
    by (simp add: init_limits_def check_def v o SEC2NS_def Let_def)
  have thr: "fst (sb_thread_init (Some []) opts c) = 0" for c :: "rat main_state"
    by (simp add: sb_thread_init_def o Let_def EXIT_SUCCESS_def)
  have rnd: "\<exists>d. init_rand fp (\<lambda>_. 0) (\<lambda>_. 0) opts c = Some (Inr (False, d))" for c :: "rat main_state"
    by (simp add: init_rand_def sb_rand_init_def get_int_def v o sb_get_value_double_def fp_def rounded_ops_def Let_def split: prod.split)
  have cps: "fst (checkpoint_values [''30'', ''7'', ''12''] (c\<lparr>g_n_checkpoints := 0\<rparr>)) = False" for c :: "rat main_state"
    by (simp add: some_checkpoints INT_MAX_def MAX_CHECKPOINTS_def Let_def)
  obtain c1 where c1: "init_limits fp opts c = Inr (0, c1)" using lim by blast
  obtain d1 where d1: "sb_thread_init (Some []) opts c1 = (0, d1)" using thr [of c1] by (metis prod.collapse)
  define d2 where "d2 = d1\<lparr>g_debug := False, g_validate := sb_get_value_flag opts ''validate''\<rparr>"
  obtain d3 where d3: "init_rand fp (\<lambda>_. 0) (\<lambda>_. 0) opts d2 = Some (Inr (False, d3))" using rnd by blast
  let ?d = "d3\<lparr>g_tx_rate := word_of_int x7, g_report_interval := word_of_int x8\<rparr>"
  obtain d4 where d4: "checkpoint_values [''30'', ''7'', ''12''] (?d\<lparr>g_n_checkpoints := 0\<rparr>) = (False, d4)"
    using cps [of ?d] by (metis prod.collapse)
  show ?thesis
    using c1 d1 d3 d4 by (simp add: init_def v o d2_def check_def del: checkpoint_values.simps)
qed

lemma some_options_plain: "plain_options some_options"
  by code_simp


section \<open>The command line\<close>

lemma grows_refl: "grows opts opts"
  by (simp add: grows_def)

lemma grows_trans: "grows a b \<Longrightarrow> grows b c \<Longrightarrow> grows a c"
  by (auto simp: grows_def)

lemma grows_names: "map opt_name opts' = map opt_name opts \<Longrightarrow> grows opts opts'"
  by (simp add: grows_def)

lemma grows_add_option: "grows opts (fst (add_option opts name))"
  by (auto simp: add_option_def grows_def split: option.split)

lemma update_names: "opt_name (f (opts ! i)) = opt_name (opts ! i) \<Longrightarrow> map opt_name (opts[i := f (opts ! i)]) = map opt_name opts"
  by (metis list_update_beyond list_update_id list_update_overwrite map_update not_le nth_map)

lemma grows_upd_option: "(\<And>x. opt_name (f x) = opt_name x) \<Longrightarrow> grows opts (upd_option i f opts)"
  unfolding upd_option_def by (rule grows_names, rule update_names)

lemma grows_opt_add_value: "grows opts (opt_add_value i d opts)"
  unfolding opt_add_value_def by (rule grows_upd_option) simp

lemma grows_read_config_line: "grows opts (fst (read_config_line buf opts))"
proof (cases "dropWhile (\<lambda>c. c \<noteq> VALUE_DELIMITER) buf")
  case Nil
  then show ?thesis unfolding read_config_line_def by (simp only: list.case) (simp add: grows_refl)
next
  case (Cons d tmp)
  obtain opts1 i where add: "add_option opts (takeWhile (\<lambda>c. c \<noteq> VALUE_DELIMITER) buf) = (opts1, i)" by fastforce
  have "grows opts opts1" using grows_add_option [of opts "takeWhile (\<lambda>c. c \<noteq> VALUE_DELIMITER) buf"] add by simp
  moreover have "grows opts1 (opts1[i := (opts1 ! i)\<lparr>opt_values := vs\<rparr>])" for vs
    by (rule grows_names) (rule update_names [where f = "\<lambda>x. x\<lparr>opt_values := vs\<rparr>"], simp)
  ultimately show ?thesis
    using Cons add by (auto simp: read_config_line_def split: prod.split intro: grows_trans)
qed

lemma grows_read_config: "grows opts (fst (read_config fp opts))"
proof (induction fp opts rule: read_config.induct)
  case (1 fp opts)
  show ?case
  proof (cases "fp = []")
    case True
    then show ?thesis by (simp add: read_config.simps grows_refl)
  next
    case False
    obtain buf rest where b: "fgets (MAXSTRLEN - 1) fp = (buf, rest)" by fastforce
    obtain opts1 ok where l: "read_config_line (takeWhile (\<lambda>c. c \<noteq> nul) buf) opts = (opts1, ok)" by fastforce
    have one: "grows opts opts1" using grows_read_config_line [of opts "takeWhile (\<lambda>c. c \<noteq> nul) buf"] l by simp
    show ?thesis
      using 1 [OF False b [symmetric] refl l [symmetric] refl] False b l one
      by (subst read_config.simps) (auto intro: grows_trans)
  qed
qed

lemma grows_fold_add: "grows opts (foldl (\<lambda>os t. opt_add_value i t os) opts ts)"
  by (induction ts arbitrary: opts) (auto intro: grows_refl grows_trans grows_opt_add_value)

lemma grows_set_option: "grows opts (fst (set_option fs name val ty opts))"
proof -
  obtain opts1 i where add: "add_option opts name = (opts1, i)" by fastforce
  define opts2 where "opts2 = upd_option i (\<lambda>opt. opt\<lparr>opt_values := free_values (opt_values opt), opt_type := ty\<rparr>) opts1"
  have "grows opts opts1" using grows_add_option [of opts name] add by simp
  moreover have "grows opts1 opts2" unfolding opts2_def by (rule grows_upd_option) simp
  ultimately have two: "grows opts opts2" by (rule grows_trans)
  have cfg: "grows opts2 (read_config_file fs v opts2)" for v
    by (simp add: read_config_file_def grows_read_config grows_refl split: option.split)
  have "grows opts2 (fst (set_option fs name val ty opts))"
    unfolding set_option_def add Let_def prod.case opts2_def [symmetric]
    by (cases ty) (simp_all add: grows_refl grows_opt_add_value grows_fold_add cfg)
  then show ?thesis using two grows_trans by blast
qed

lemma grows_register: "grows opts (fst (register_args_from fs v as opts))"
proof (induction as arbitrary: opts)
  case (Cons a as)
  show ?case
  proof (cases "arg_name a")
    case (Some name)
    obtain opts1 r where s: "set_option fs name (arg_value a) (arg_type a) opts = (opts1, r)" by fastforce
    have one: "grows opts opts1" using grows_set_option [of opts fs name "arg_value a" "arg_type a"] s by simp
    have two: "grows opts1 (upd_option i (\<lambda>opt. opt\<lparr>opt_validate := v\<rparr>) opts1)" for i by (rule grows_upd_option) simp
    show ?thesis
      using Some s one grows_trans [OF one grows_trans [OF two Cons.IH]] by (auto split: option.split)
  qed (simp add: grows_refl)
qed (simp add: grows_refl)

lemma grows_parse_option: "grows opts (snd (parse_option fs arg b opts))"
  by (simp add: parse_option_def Let_def case_prod_beta grows_set_option grows_refl)

lemma find_option_names: "find_option_from k opts n = find_option_from k (map (\<lambda>m. new_option\<lparr>opt_name := m\<rparr>) (map opt_name opts)) n"
  by (induction opts arbitrary: k) simp_all

lemma find_option_append: "find_option_from k opts n \<noteq> None \<Longrightarrow> find_option_from k (opts @ os) n \<noteq> None"
  by (induction opts arbitrary: k) auto

lemma grows_find:
  assumes "grows opts opts'" "sb_find_option opts n \<noteq> None"
  shows "sb_find_option opts' n \<noteq> None"
proof -
  let ?f = "map (\<lambda>m. new_option\<lparr>opt_name := m\<rparr>)"
  obtain ns where ns: "map opt_name opts' = map opt_name opts @ ns" using assms(1) by (auto simp: grows_def)
  have "find_option_from 0 (?f (map opt_name opts)) n \<noteq> None"
    using assms(2) find_option_names [of 0 opts n] by (simp add: sb_find_option_def find_option_def)
  then have "find_option_from 0 (?f (map opt_name opts) @ ?f ns) n \<noteq> None" by (rule find_option_append)
  then show ?thesis
    using find_option_names [of 0 opts' n] ns by (simp add: sb_find_option_def find_option_def del: map_map)
qed

lemma parse_option_accepts:
  assumes "parse_option fs (drop 2 arg) False opts = (False, opts')"
  shows "sb_find_option opts (option_name arg) \<noteq> None"
  using assms by (auto simp: parse_option_def option_name_def Let_def split: if_splits)

lemma general_loop_spec:
  assumes "general_loop fs args names opts = Inr (names', opts', rest)" "fst names = None \<longrightarrow> snd names = None"
  shows "grows opts opts' \<and> names_given names' = names_given names @ filter (\<lambda>a. \<not> is_option a) args \<and>
    list_all2 (after_general opts') args rest"
  using assms
proof (induction args arbitrary: names opts rest)
  case Nil
  then show ?case by (auto simp: grows_refl)
next
  case (Cons arg args)
  obtain t cmd where names: "names = (t, cmd)" by (cases names)
  show ?case
  proof (cases "is_option arg")
    case False
    then obtain names1 rest1 where one: "general_loop fs args names1 opts = Inr (names', opts', rest1)" "rest = Some arg # rest1"
        "names_given names1 = names_given names @ [arg]" "fst names1 = None \<longrightarrow> snd names1 = None"
      using Cons.prems names by (cases t; cases cmd) (auto simp: check_def split: sum.splits)
    from Cons.IH [OF one(1,4)] one(2,3) False show ?thesis by (simp add: after_general_def)
  next
    case True
    obtain failed opts1 where p: "parse_option fs (drop 2 arg) False opts = (failed, opts1)" by fastforce
    then obtain rest1 where one: "general_loop fs args names opts1 = Inr (names', opts', rest1)"
        "rest = (if failed then Some arg else None) # rest1"
      using Cons.prems names True by (auto simp: check_def split: sum.splits)
    note ih = Cons.IH [OF one(1) Cons.prems(2)]
    have g: "grows opts opts1" using grows_parse_option [of opts fs "drop 2 arg" False] p by simp
    then have g': "grows opts opts'" using ih grows_trans by blast
    have "after_general opts' arg (if failed then Some arg else None)"
    proof (cases failed)
      case False
      then have "sb_find_option opts (option_name arg) \<noteq> None" using p by (intro parse_option_accepts) simp
      then show ?thesis using False True g' by (simp add: after_general_def grows_find)
    qed (simp add: after_general_def)
    then show ?thesis using ih g' one(2) True by simp
  qed
qed

lemma test_loop_spec:
  assumes "test_loop fs rest opts = Inr (opts', rest')"
  shows "grows opts opts' \<and> rest' = map (\<lambda>r. Option.bind r left_over) rest \<and>
    (\<forall>a. Some a \<in> set rest \<and> is_option a \<longrightarrow> sb_find_option opts' (option_name a) \<noteq> None)"
  using assms
proof (induction fs rest opts arbitrary: rest' rule: test_loop.induct)
  case (1 fs opts)
  then show ?case by (simp add: grows_refl)
next
  case (2 fs args opts)
  then show ?case by (auto simp: check_def split: sum.splits)
next
  case (3 fs arg args opts)
  show ?case
  proof (cases "is_option arg")
    case False
    then show ?thesis using 3 by (auto simp: check_def left_over_def split: sum.splits)
  next
    case True
    obtain opts1 where p: "parse_option fs (drop 2 arg) False opts = (False, opts1)"
      using 3(3) True by (cases "parse_option fs (drop 2 arg) False opts") (auto split: if_splits)
    obtain rest1 where one: "test_loop fs args opts1 = Inr (opts', rest1)" "rest' = None # rest1"
      using 3(3) True p by (auto simp: check_def split: sum.splits)
    note ih = 3(2) [OF _ refl p [symmetric] _ one(1)]
    have g: "grows opts opts1" using grows_parse_option [of opts fs "drop 2 arg" False] p by simp
    have "sb_find_option opts (option_name arg) \<noteq> None" using p by (rule parse_option_accepts)
    then show ?thesis using ih True g one(2) by (auto simp: left_over_def intro: grows_trans dest: grows_find grows_trans)
  qed
qed

lemma init_grows:
  assumes "init fp strtod random fs memory opts c = Some (Inr (rc, opts', c'))"
  shows "grows opts opts'"
proof -
  have "opts' = opts \<or> (\<exists>n v ty. opts' = fst (set_option fs n v ty opts))"
    using assms by (auto simp: init_def Let_def check_def split: sum.splits if_splits option.splits prod.splits Option.bind_splits)
  then show ?thesis using grows_refl grows_set_option by auto
qed

text \<open>
  C17 (command_line_consumed): when the two passes over the command line succeed, with the
  initialisation in between, every argument has been used.  The arguments that do not begin with two
  dashes are the name of the test and of the command, in this order, and there are no others.  Every
  other argument names an option that is known in the end, and none of them is left: a misspelt
  option is never ignored.
\<close>

theorem command_line_consumed:
  assumes "parse_general_arguments fs args opts c = Inr (opts1, rest, c1)"
    and "init fp strtod random fs memory opts1 c1 = Some (Inr (0, opts2, c2))"
    and "parse_test_arguments fs targs rest opts2 = Inr (opts3, rest3)"
  shows "filter (\<lambda>a. \<not> is_option a) args = names_given (g_testname c1, g_cmdname c1) \<and>
    rest3 = map left_over args \<and> (\<forall>a\<in>set args. is_option a \<longrightarrow> sb_find_option opts3 (option_name a) \<noteq> None)"
proof -
  obtain opts0 rc where reg0: "sb_register_arg_set fs general_args opts = (opts0, rc)" by fastforce
  obtain names where loop: "general_loop fs args (None, None) opts0 = Inr (names, opts1, rest)"
      "names = (g_testname c1, g_cmdname c1)"
    using assms(1) reg0 by (cases "general_loop fs args (None, None) opts0")
      (auto simp: parse_general_arguments_def check_def split: if_splits prod.splits)
  from general_loop_spec [OF loop(1)] loop(2)
  have gen: "names_given (g_testname c1, g_cmdname c1) = filter (\<lambda>a. \<not> is_option a) args" "list_all2 (after_general opts1) args rest"
    by auto
  obtain opts4 where reg: "grows opts2 opts4" "test_loop fs rest opts4 = Inr (opts3, rest3)"
  proof (cases targs)
    case None
    then show thesis using assms(3) by (intro that [of opts2]) (simp_all add: parse_test_arguments_def grows_refl)
  next
    case (Some as)
    have "grows opts2 (fst (sb_register_arg_set fs as opts2))" by (simp add: sb_register_arg_set_def grows_register)
    then show thesis
      using assms(3) Some
      by (intro that [of "fst (sb_register_arg_set fs as opts2)"]) (auto simp: parse_test_arguments_def split: prod.splits if_splits)
  qed
  note tst = test_loop_spec [OF reg(2)]
  have grow: "grows opts1 opts3" using init_grows [OF assms(2)] reg(1) tst grows_trans by blast
  have left: "Option.bind r left_over = left_over a" if "after_general opts1 a r" for a r
    using that by (auto simp: after_general_def left_over_def)
  have "map (\<lambda>r. Option.bind r left_over) rest = map left_over args"
    using gen(2) by (induction rule: list_all2_induct) (simp_all add: left)
  moreover have "sb_find_option opts3 (option_name a) \<noteq> None" if arg: "a \<in> set args" "is_option a" for a
  proof -
    obtain i where i: "i < length args" "a = args ! i" using arg(1) by (auto simp: in_set_conv_nth)
    then have r: "after_general opts1 a (rest ! i)" "rest ! i \<in> set rest"
      using gen(2) by (auto simp: list_all2_conv_all_nth)
    then show ?thesis using arg(2) tst grow grows_find by (auto simp: after_general_def)
  qed
  ultimately show ?thesis using gen(1) tst by simp
qed

lemma first_pass_ok:
  "\<not> isl first_pass" "fst (projr first_pass) = (Some ''cpu'', Some ''run'')" "plain_options (fst (snd (projr first_pass)))"
  "snd (sb_register_arg_set Map.empty general_args [given ''rand_type'' SB_ARG_TYPE_STRING [''uniform'']]) = 0"
  "\<not> isl (parse_test_arguments Map.empty (Some some_test_args) (snd (snd (projr first_pass))) (fst (snd (projr first_pass))))"
  by code_simp+

theorem command_line_consumed_witness:
  "\<exists>opts1 rest c1 c2 opts3 rest3.
     parse_general_arguments Map.empty some_args [given ''rand_type'' SB_ARG_TYPE_STRING [''uniform'']] main_start = Inr (opts1, rest, c1) \<and>
     init (rounded_ops (\<lambda>x. x) (\<lambda>x. x) (\<lambda>x y. x)) (\<lambda>_. 0) (\<lambda>_. 0) Map.empty (Some []) opts1 c1 = Some (Inr (0, opts1, c2)) \<and>
     parse_test_arguments Map.empty (Some some_test_args) rest opts1 = Inr (opts3, rest3) \<and>
     rest3 = [Some ''cpu'', None, None, Some ''run'', None, None] \<and> names_given (g_testname c1, g_cmdname c1) = [''cpu'', ''run''] \<and>
     sb_find_option opts3 ''cpu-max-prime'' \<noteq> None"
proof -
  let ?o = "[given ''rand_type'' SB_ARG_TYPE_STRING [''uniform'']]"
  obtain opts1 rest where pass: "first_pass = Inr ((Some ''cpu'', Some ''run''), opts1, rest)"
    using first_pass_ok(1,2) by (metis prod.collapse sum.collapse(2))
  note ok = first_pass_ok(3-5) [unfolded pass sum.sel snd_conv fst_conv]
  define c1 where "c1 = main_start\<lparr>g_testname := Some ''cpu'', g_cmdname := Some ''run''\<rparr>"
  obtain opts0 where reg: "sb_register_arg_set Map.empty general_args ?o = (opts0, 0)" using ok(2) by (metis prod.collapse)
  have gen: "parse_general_arguments Map.empty some_args ?o main_start = Inr (opts1, rest, c1)"
    using pass reg by (simp add: parse_general_arguments_def first_pass_def check_def c1_def)
  obtain c2 where ini: "init (rounded_ops (\<lambda>x. x) (\<lambda>x. x) (\<lambda>x y. x)) (\<lambda>_. 0) (\<lambda>_. 0) Map.empty (Some []) opts1 c1 = Some (Inr (0, opts1, c2))"
    using init_plain_options [OF ok(1)] by blast
  obtain opts3 rest3 where tst: "parse_test_arguments Map.empty (Some some_test_args) rest opts1 = Inr (opts3, rest3)"
    using ok(3) by (cases "parse_test_arguments Map.empty (Some some_test_args) rest opts1") auto
  have "map left_over some_args = [Some ''cpu'', None, None, Some ''run'', None, None]" by code_simp
  moreover have "is_option ''--cpu-max-prime=100'' \<and> option_name ''--cpu-max-prime=100'' = ''cpu-max-prime''" by code_simp
  moreover have "''--cpu-max-prime=100'' \<in> set some_args" by (simp add: some_args_def)
  ultimately show ?thesis
    using command_line_consumed [OF gen ini tst] gen ini tst by (auto simp: c1_def)
qed

section \<open>Warm-up and the final report\<close>

lemma checkpoint_resets:
  fixes c :: "('d, 'z) core_state_scheme"
  assumes hist: "hist_wf (sb_latency_histogram c)" "\<not> hist_locked (sb_latency_histogram c)"
    and rep: "report_wf (last_counters c)" and n: "unat (g_threads c) = n" "length (thread_timers c) = n + 1" "length (timers_copy c) = n + 1"
  obtains stat c' where "checkpoint fp clk val c = Some (stat, c')" "hist_total (sb_latency_histogram c') = 0"
    "\<not> hist_locked (sb_latency_histogram c')"
    "\<And>t. t < n \<Longrightarrow> tm_events (thread_timers c' ! t) = 0 \<and> sum_time (thread_timers c' ! t) = 0"
    "report_wf (last_counters c')" "last_of Intermediate (last_counters c') = last_of Intermediate (last_counters c)"
    "\<And>i. i < SB_CNT_MAX \<Longrightarrow> last_of Cumulative (last_counters c') ! i = (\<Sum>t<n. val t i)"
    "g_max_events c' = g_max_events c" "g_threads c' = g_threads c"
proof -
  obtain last cnt where agg: "report n (Cumulative, val) (last_counters c) = (last, cnt)" by fastforce
  note r = report_step [OF rep agg]
  obtain h v where h: "sb_histogram_get_pct_checkpoint fp (fp_of_u32 fp (g_percentile c)) (sb_latency_histogram c) = Some (h, v)"
    "hist_wf h" "\<not> hist_locked h" "hist_total h = 0" using hist_checkpoint [OF hist] by blast
  have ct: "checkpoint_timers n (thread_timers c, timers_copy c) =
      (map sb_timer_reset (take n (thread_timers c)) @ drop n (thread_timers c), take n (thread_timers c) @ drop n (timers_copy c))"
    using n by (simp add: checkpoint_timers_spec)
  obtain t el where cur: "sb_timer_current (clk 1) (sb_checkpoint_timer c) = (t, el)" by fastforce
  define c' where "c' = c\<lparr>last_counters := last, sb_checkpoint_timer := t, sb_latency_histogram := h,
    thread_timers := map sb_timer_reset (take n (thread_timers c)) @ drop n (thread_timers c),
    timers_copy := take n (thread_timers c) @ drop n (timers_copy c)\<rparr>"
  obtain stat where "checkpoint fp clk val c = Some (stat, c')"
    using agg h(1) ct cur n(1) by (simp add: checkpoint_def c'_def Let_def)
  then show thesis
    using h r(1,3) r(2) [of Intermediate] n
    by (intro that [of stat c']) (simp_all add: c'_def nth_append sb_timer_reset_def sum_list_upt)
qed


lemma main_start_fields:
  "sb_latency_histogram main_start = sb_latency_histogram (core (sys_start 1 0 0))" "last_counters main_start = report_state0"
  "g_threads main_start = 1" "length (thread_timers main_start) = 2" "length (timers_copy main_start) = 2"
  by (simp_all add: main_start_def sys_start_def core_start_def log_state0_def log_state.defs core_state.defs db_state.defs thread_state.defs main_state.defs)

lemma report_wf_start: "report_wf report_state0"
  unfolding report_wf_def
  by (metis (full_types) last_of.simps length_replicate report_kind.exhaust report_state.select_convs report_state0_def)


text \<open>
  The intermediate reports are not part of the reset: the first one after the warm-up still counts
  the events of the warm-up.
\<close>

lemma warmup_in_intermediate_report:
  assumes "hist_wf (sb_latency_histogram c)" "\<not> hist_locked (sb_latency_histogram c)" "report_wf (last_counters c)"
    and "unat (g_threads c) = n" "length (thread_timers c) = n + 1" "length (timers_copy c) = n + 1" "i < SB_CNT_MAX"
  shows "\<exists>c'. end_warm_up fp os limit c = Some c' \<and>
    snd (sb_counters_agg_intermediate n val (last_counters c')) ! i = (\<Sum>t<n. val t i) - last_intermediate_counters (last_counters c) ! i"
proof -
  let ?c = "c\<lparr>g_max_events := limit\<rparr>"
  have same: "hist_wf (sb_latency_histogram ?c)" "\<not> hist_locked (sb_latency_histogram ?c)" "report_wf (last_counters ?c)"
      "unat (g_threads ?c) = n" "length (thread_timers ?c) = n + 1" "length (timers_copy ?c) = n + 1"
    using assms by simp_all
  obtain stat c' where c': "checkpoint fp (\<lambda>k. os_clock os (k + 1)) (sb_counter_val (sb_counters c)) ?c = Some (stat, c')"
      "report_wf (last_counters c')" "last_of Intermediate (last_counters c') = last_of Intermediate (last_counters ?c)"
    by (rule checkpoint_resets [OF same, of fp "\<lambda>k. os_clock os (k + 1)" "sb_counter_val (sb_counters c)"]) (rule that)
  obtain last out where agg: "report n (Intermediate, val) (last_counters c') = (last, out)" by fastforce
  from report_step(3,4) [OF c'(2) agg assms(7)] agg c'(3) have
    "snd (sb_counters_agg_intermediate n val (last_counters c')) ! i = (\<Sum>t<n. val t i) - last_intermediate_counters (last_counters c) ! i"
    by (simp add: sum_list_upt)
  then show ?thesis using c'(1) by (intro exI [of _ c']) (simp add: end_warm_up_def)
qed

text \<open>
  With the option for the histogram, a run without events does not get its final report: printing
  the empty histogram keeps the lock that the report requests again, and a request for a lock that
  the thread already holds blocks for ever or fails.
\<close>

lemma empty_histogram_relocks:
  fixes c :: "'d main_state"
  assumes "g_histogram c" "\<not> g_error c" "hist_wf (sb_latency_histogram c)" "\<not> hist_locked (sb_latency_histogram c)"
    and "\<forall>b < array_size (sb_latency_histogram c). hist_count (sb_latency_histogram c) b = 0"
  shows "final_report fp out os rops (w, c) = None"
proof -
  obtain h' where h': "sb_histogram_print fp (sb_latency_histogram c) = Some (h', [])" "hist_locked h'"
    using hist_print_keeps_lock [OF assms(3-5)] by blast
  define c1 where "c1 = log_text LOG_NOTICE (Formatted ''Latency histogram (values are in milliseconds)'') c"
  have keep: "sb_latency_histogram (log_text p m c) = sb_latency_histogram c" for p m and c :: "'d main_state"
    by (rule log_text_eq) (simp add: forget_log_def)
  have locked: "checkpoint fp clk val d = None" if "hist_locked (sb_latency_histogram d)" for clk val and d :: "'d main_state"
    using that by (simp add: checkpoint_def sb_histogram_get_pct_checkpoint_def wrlock_def Let_def case_prod_beta)
  have "hist_locked (sb_latency_histogram (log_text p m (printf t (c1\<lparr>sb_latency_histogram := h'\<rparr>))))" for p m t
    using h'(2) by (simp add: keep printf_def)
  then have "report_cumulative fp out rops clk val (w, log_text p m (printf t (c1\<lparr>sb_latency_histogram := h'\<rparr>))) = None" for p m t clk val
    by (simp add: report_cumulative_def locked)
  then show ?thesis using assms(1,2) h'(1) keep by (simp add: final_report_def c1_def)
qed

end
