(* ===== verification/Spec2Isabelle.thy ===== *)
theory Spec2Isabelle
  imports SB_Options SB_Counter SB_Timer SB_Histogram SB_Rand SB_Crc32 SB_Barrier SB_Fileio_Exec SB_Tests SB_Memory SB_Main
begin

text \<open>
  A verification development for sysbench, a benchmark program written in C (\<open>src/src\<close>).

  \<^bold>\<open>The program.\<close>  \<open>main\<close> reads the command line into a list of options (\<open>sb_options.c\<close>),
  initialises the logger, the random numbers and the timers, chooses a test and runs it
  (\<open>sysbench.c\<close>).  A run starts worker threads (\<open>sb_thread.c\<close>) that meet at a barrier
  (\<open>sb_barrier.c\<close>) and then execute events until a limit on time or on events is reached; with a
  target rate a generator thread puts the events into a ring buffer from which the workers take
  them.  Every event is recorded in the timer of its thread (\<open>sb_timer.c\<close>), in counters
  (\<open>sb_counter.c\<close>) and in a latency histogram (\<open>sb_histogram.c\<close>), from which helper threads print
  intermediate reports and checkpoints.  The tests are compiled in (\<open>tests/\<close>: CPU, threads, mutex,
  memory, file I/O) or are Lua scripts, which use the database layer (\<open>db_driver.c\<close>).

  \<^bold>\<open>Conventions.\<close>  A C function is a HOL function on explicit state.  The global and static variables are
  records that extend each other: \<open>sb_globals_t\<close>, \<open>log_state\<close>, \<open>core_state\<close>, \<open>db_state\<close>,
  \<open>thread_state\<close>, \<open>main_state\<close>.  Errors are values (\<open>option\<close> or sum types); \<open>None\<close> stands for
  undefined behaviour of C (a null pointer, an access outside a buffer) and for waiting for ever.
  Unsigned integers are words that wrap wherever the width matters.  The operating system, the
  thread library, \<open>printf\<close> of a floating-point number, \<open>libm\<close>, the database drivers and the
  functions of a test are arguments: records of functions, on a world \<open>'w\<close> where they have state.
  Threads run by interleaving of steps, each of which is an atomic operation or what happens under a lock.

  \<^bold>\<open>Theories, sources and results.\<close>

  \<^item> \<open>SB_Prelude\<close>, \<open>C_Strings\<close>, \<open>C_Double\<close>: integer types, theorem collections and shared lemmas;
    the C string functions; rounding to IEEE doubles and the locale \<open>fp_rounding\<close>.
  \<^item> \<open>SB_List\<close> (\<open>sb_list.h\<close>): the macros of the circular list on a heap of items; they implement
    HOL lists (locale \<open>item_list\<close>), which is why the later theories use lists.
  \<^item> \<open>SB_Options\<close> (\<open>sb_options.c\<close>): options, their types, configuration files.  The list of
    options refines a map keyed by the normalised name (locale \<open>keyed_store\<close>), the last setting
    wins, and a configuration file is read completely.
  \<^item> \<open>SB_Util\<close>, \<open>SB_Counter\<close>, \<open>SB_Timer\<close>, \<open>SB_Histogram\<close> (\<open>sb_util.h\<close>, \<open>sb_counter.c\<close>,
    \<open>sb_timer.c\<close>, \<open>sb_histogram.c\<close>): reports of counters add up to what was counted; a timer
    stands for the list of its events and merging for concatenation (locale \<open>mergeable\<close>); merging
    a histogram while other threads add to it loses nothing; percentiles are those of the counts.
  \<^item> \<open>SB_Rand\<close> with \<open>SB_Primes\<close> (\<open>sb_rand.c\<close>, \<open>xoroshiro128plus.h\<close>): generator, distributions,
    unique numbers.  Ranges of the distributions, and that 2 ^ 32 unique numbers are different.
  \<^item> \<open>SB_Crc32\<close> (\<open>tests/fileio/crc32.c\<close>): the tables and the word-wise loops of both byte orders
    compute the checksum of the shift register (locale \<open>crc_steps\<close>).
  \<^item> \<open>SB_Globals\<close>, \<open>SB_Logger\<close> (\<open>sysbench.h\<close>, \<open>sb_logger.c\<close>): the global variables; the logger
    with its suppression of repeated messages, which loses none.
  \<^item> \<open>SB_Ring\<close> (\<open>ck_ring.h\<close>) and \<open>SB_Core\<close> (\<open>sysbench.c\<close>): the ring buffer is a bounded queue (locale
    \<open>fifo\<close>), and so is the event queue built on it.  In every interleaving the event limit holds,
    timers, counters and histogram agree, and a run with an event limit and no target rate ends.
  \<^item> \<open>SB_Report\<close> (\<open>sysbench.c\<close>): intermediate and cumulative reports, checkpoints and their
    threads.  The reports partition the events, and the schedule of the reports stays on its grid.
  \<^item> \<open>SB_Barrier\<close> (\<open>sb_barrier.c\<close>): no thread leaves a round before all have entered it, the
    barrier never blocks for ever, exactly one thread gets the serial result.
  \<^item> \<open>SB_Fileio\<close>, \<open>SB_Fileio_Exec\<close> (\<open>tests/fileio/sb_fileio.c\<close>): sequential requests tile the
    files, random ones stay inside; blocks with checksums validate and corruption is detected;
    requests are counted, the queue of asynchronous requests is bounded, the files are created.
  \<^item> \<open>SB_Tests\<close>, \<open>SB_Memory\<close> (\<open>tests/cpu\<close>, \<open>tests/threads\<close>, \<open>tests/mutex\<close>, \<open>tests/memory\<close>): the
    CPU test counts the primes, the threads test cannot deadlock, one mutex serialises the mutex
    test, accesses of the memory test stay in their block.
  \<^item> \<open>SB_Db_Driver\<close> (\<open>db_driver.c\<close>): for every driver, the statistics count exactly the executed
    queries, a closed connection is never used, and a multi-row insert sends all rows.
  \<^item> \<open>SB_Thread\<close>, \<open>SB_Main\<close> (\<open>sb_thread.c\<close>, \<open>sysbench.c\<close>): creating and joining the workers; the
    command line, the initialisation, a run as the main thread sees it, and \<open>main\<close>.  Every argument is used,
    the configuration is the one the options ask for, and the warm-up is not in the statistics.

  \<^bold>\<open>Loops.\<close>  A loop that runs over data is a recursion on it or has a termination proof.  A loop that need not end is
  a \<open>partial_function\<close> into \<open>option\<close>, and that it returns is proved under the condition it needs:
  \<open>sb_rand_zipfian_int\<close> (some draw is accepted), \<open>rnd_retry\<close> (some drawn block is not in use),
  \<open>next_report\<close> (the interval is positive and the clock is not about to wrap), \<open>create_blocks\<close> (the
  block size is positive), the iterations over a list (the items form a ring).  The
  loops of the event workers, the generator and the helper threads are sequences of steps of any length.  Only
  \<open>events_until_null\<close> of \<open>SB_Memory\<close> has fuel; one more than the events of a thread is enough.

  \<^bold>\<open>Not modelled.\<close>
  \<^item> \<open>sb_lua.c\<close> and the Lua scripts: they move values to and from the stack of the LuaJIT interpreter,
    whose meaning is not in the sources.  The main program sees them through the record \<open>lua_ops\<close>.
  \<^item> \<open>drivers/\<close>: every operation of the drivers consists of calls of the client libraries of MySQL and PostgreSQL.
    The theorems on the database layer hold for arbitrary drivers.
  \<^item> \<open>sb_ck_pr.h\<close> and the libraries under \<open>third_party\<close>, apart from the operations of the ring
    buffer: an atomic operation is one step of the model, and memory is sequentially consistent.
  \<^item> Releasing memory, destroying mutexes and condition variables, failures of small allocations.
  \<^item> Output of the tests that has no influence on the run: the mode and the report of the CPU, threads, mutex and
    file I/O tests.
\<close>

end
